(* ===== verification/Nats_Prelude.thy ===== *)
theory Nats_Prelude
  imports Main "HOL-Library.Monad_Syntax"
begin

text \<open>
  Shared vocabulary of the nginx-nats development.

  \<^item> Bytes are HOL characters (8 bits) and a piece of memory is a list of cells. Reading or
    writing outside a piece of memory is the value \<open>None\<close> (\<open>rd\<close>, \<open>wr\<close>, \<open>mem_put\<close>,
    \<open>mem_get\<close>); a function of the model whose result is \<open>None\<close> has performed such an access
    or does not return. A theorem that says a function returns \<open>Some\<close> therefore says that it is
    memory safe and that it terminates.
  \<^item> The platform is the 64-bit one: \<open>size_t\<close> is a natural number below \<open>2 ^ 64\<close> with
    wrap-around subtraction \<open>usub\<close>, \<open>ngx_int_t\<close> is an \<open>int\<close> whose wrap-around is \<open>s64\<close>, and
    \<open>u64\<close> converts it to \<open>size_t\<close>.
  \<^item> \<open>scan_while\<close> is the loop \<open>for (; n < max && P(s[n]); n++);\<close> that the parsers use.
  \<^item> \<open>dec\<close> and \<open>dval\<close> are the decimal writing and reading of naturals.
  \<^item> \<open>casecmp_ok\<close> is the documented behaviour of nginx's case-insensitive comparison, which the
    model takes as a parameter.
\<close>

named_theorems mem_simps \<open>memory accesses and size arithmetic\<close>

section \<open>Return codes of nginx\<close>

abbreviation NGX_OK :: int where "NGX_OK \<equiv> 0"
abbreviation NGX_ERROR :: int where "NGX_ERROR \<equiv> - 1"
abbreviation NGX_AGAIN :: int where "NGX_AGAIN \<equiv> - 2"
abbreviation NGX_BUSY :: int where "NGX_BUSY \<equiv> - 3"
abbreviation NGX_DECLINED :: int where "NGX_DECLINED \<equiv> - 5"
abbreviation NGX_ABORT :: int where "NGX_ABORT \<equiv> - 6"

section \<open>Machine integers\<close>

type_synonym bytes = "char list"

definition usub :: "nat \<Rightarrow> nat \<Rightarrow> nat" where
  "usub a b = (if b \<le> a then a - b else a + 2 ^ 64 - b)"

definition u64 :: "int \<Rightarrow> nat" where
  "u64 i = nat (i mod 2 ^ 64)"

definition s64 :: "int \<Rightarrow> int" where
  "s64 i = (i + 2 ^ 63) mod 2 ^ 64 - 2 ^ 63"

lemma usub_le [mem_simps, simp]: "b \<le> a \<Longrightarrow> usub a b = a - b"
  by (simp add: usub_def)

lemma s64_id: "- (2 ^ 63) \<le> i \<Longrightarrow> i < 2 ^ 63 \<Longrightarrow> s64 i = i"
  by (simp add: s64_def)

lemma s64_range: "- (2 ^ 63) \<le> s64 i \<and> s64 i < 2 ^ 63"
proof -
  have "0 \<le> (i + 2 ^ 63) mod 2 ^ 64" and "(i + 2 ^ 63) mod 2 ^ 64 < (2 :: int) ^ 64"
    by simp_all
  then show ?thesis by (auto simp: s64_def)
qed

lemma s64_of_nat: "n < 2 ^ 63 \<Longrightarrow> s64 (int n) = int n"
  by (rule s64_id) auto

lemma u64_of_nat: "n < 2 ^ 64 \<Longrightarrow> u64 (int n) = n"
  by (simp add: u64_def nat_mod_as_int)

lemma u64_nonneg: "0 \<le> i \<Longrightarrow> i < 2 ^ 64 \<Longrightarrow> u64 i = nat i"
  by (simp add: u64_def)

section \<open>Memory\<close>

definition rd :: "'a list \<Rightarrow> nat \<Rightarrow> 'a option" where
  "rd s i = (if i < length s then Some (s ! i) else None)"

definition wr :: "'a list \<Rightarrow> nat \<Rightarrow> 'a \<Rightarrow> 'a list option" where
  "wr s i c = (if i < length s then Some (s[i := c]) else None)"

definition mem_get :: "'a list \<Rightarrow> nat \<Rightarrow> nat \<Rightarrow> 'a list option" where
  "mem_get s i n = (if i + n \<le> length s then Some (take n (drop i s)) else None)"

definition mem_put :: "'a list \<Rightarrow> nat \<Rightarrow> 'a list \<Rightarrow> 'a list option" where
  "mem_put s i xs =
     (if i + length xs \<le> length s then Some (take i s @ xs @ drop (i + length xs) s) else None)"

definition slice :: "'a list \<Rightarrow> nat \<Rightarrow> nat \<Rightarrow> 'a list" where
  "slice s i j = take (j - i) (drop i s)"

lemma rd_Some [mem_simps, simp]: "i < length s \<Longrightarrow> rd s i = Some (s ! i)"
  by (simp add: rd_def)

lemma rd_eq_Some [mem_simps]: "rd s i = Some c \<longleftrightarrow> i < length s \<and> s ! i = c"
  by (auto simp: rd_def)

lemma rd_append: "rd s i = Some c \<Longrightarrow> rd (s @ t) i = Some c"
  by (auto simp: rd_def nth_append split: if_splits)

lemma wr_Some [mem_simps, simp]: "i < length s \<Longrightarrow> wr s i c = Some (s[i := c])"
  by (simp add: wr_def)

lemma wr_append: "wr s i c = Some s' \<Longrightarrow> wr (s @ t) i c = Some (s' @ t)"
  by (auto simp: wr_def list_update_append split: if_splits)

lemma wr_length: "wr s i c = Some s' \<Longrightarrow> length s' = length s"
  by (auto simp: wr_def split: if_splits)

lemma mem_put_length: "mem_put s i xs = Some s' \<Longrightarrow> length s' = length s"
  by (auto simp: mem_put_def split: if_splits)

lemma mem_put_Some: "i + length xs \<le> length s \<Longrightarrow> \<exists>s'. mem_put s i xs = Some s'"
  by (simp add: mem_put_def)

lemma length_slice [simp]: "j \<le> length s \<Longrightarrow> length (slice s i j) = j - i"
  by (simp add: slice_def)

lemma slice_nth: "k < j - i \<Longrightarrow> j \<le> length s \<Longrightarrow> slice s i j ! k = s ! (i + k)"
  by (simp add: slice_def)

lemma slice_append [simp]: "j \<le> length s \<Longrightarrow> slice (s @ t) i j = slice s i j"
  by (simp add: slice_def)

lemma slice_empty [simp]: "slice s i i = []"
  by (simp add: slice_def)

lemma slice_update_above: "j \<le> k \<Longrightarrow> slice (s[k := c]) i j = slice s i j"
  by (simp add: slice_def flip: drop_take)

lemma slice_update_below: "k < i \<Longrightarrow> slice (s[k := c]) i j = slice s i j"
  by (simp add: slice_def drop_update_cancel)

lemma slice_snoc: "i \<le> j \<Longrightarrow> j < length s \<Longrightarrow> slice s i (Suc j) = slice s i j @ [s ! j]"
  by (simp add: slice_def Suc_diff_le take_Suc_conv_app_nth)

section \<open>Scanning loops\<close>

function scan_while :: "(char \<Rightarrow> bool) \<Rightarrow> bytes \<Rightarrow> nat \<Rightarrow> nat \<Rightarrow> nat option" where
  "scan_while P s lim pos =
     (if pos < lim
      then do { c \<leftarrow> rd s pos; if P c then scan_while P s lim (pos + 1) else Some pos }
      else Some pos)"
  by pat_completeness auto
termination
  by (relation "measure (\<lambda>(P, s, lim, pos). lim - pos)") auto

declare scan_while.simps [simp del]

lemma scan_while_total:
  "lim \<le> length s \<Longrightarrow> \<exists>n. scan_while P s lim pos = Some n \<and> pos \<le> n \<and> n \<le> max pos lim
     \<and> (\<forall>i. pos \<le> i \<longrightarrow> i < n \<longrightarrow> P (s ! i)) \<and> (n < lim \<longrightarrow> \<not> P (s ! n))"
proof (induction P s lim pos rule: scan_while.induct)
  case (1 P s lim pos)
  show ?case
  proof (cases "pos < lim \<and> P (s ! pos)")
    case True
    with "1.prems" obtain n where n: "scan_while P s lim (pos + 1) = Some n" "pos + 1 \<le> n"
      "n \<le> max (pos + 1) lim" "\<forall>i. pos + 1 \<le> i \<longrightarrow> i < n \<longrightarrow> P (s ! i)"
      "n < lim \<longrightarrow> \<not> P (s ! n)"
      using "1.IH" [of "s ! pos"] by auto
    have "P (s ! i)" if "pos \<le> i" "i < n" for i
      using n(4) True that by (cases "i = pos") auto
    with n True "1.prems" show ?thesis by (auto simp: scan_while.simps [of P s lim pos])
  next
    case False
    with "1.prems" show ?thesis by (auto simp: scan_while.simps [of P s lim pos])
  qed
qed

text \<open>The result is characterised by the bytes before it satisfying the condition and the byte
  at it (when inside the bound) failing it.\<close>

lemma scan_while_eqI:
  assumes "pos \<le> n" and "n \<le> lim" and "lim \<le> length s"
    and "\<And>i. pos \<le> i \<Longrightarrow> i < n \<Longrightarrow> P (s ! i)" and "n < lim \<Longrightarrow> \<not> P (s ! n)"
  shows "scan_while P s lim pos = Some n"
proof -
  obtain k where k: "scan_while P s lim pos = Some k" "pos \<le> k" "k \<le> max pos lim"
    "\<forall>i. pos \<le> i \<longrightarrow> i < k \<longrightarrow> P (s ! i)" "k < lim \<longrightarrow> \<not> P (s ! k)"
    using scan_while_total [OF assms(3), of P pos] by blast
  have "k = n"
  proof (rule linorder_cases [of k n])
    assume "k < n"
    with k(2,5) assms show ?thesis by auto
  next
    assume "n < k"
    with k assms show ?thesis by (auto simp: max_def split: if_splits)
  qed
  with k(1) show ?thesis by simp
qed

lemma scan_while_append:
  assumes "scan_while P s lim pos = Some n" and "n < lim"
  shows "lim \<le> lim' \<Longrightarrow> scan_while P (s @ t) lim' pos = Some n"
  using assms
proof (induction P s lim pos rule: scan_while.induct)
  case (1 P s lim pos)
  show ?case
  proof (cases "pos < lim")
    case True
    with "1.prems" obtain c where c: "rd s pos = Some c"
      by (auto simp: scan_while.simps [of P s lim pos] bind_eq_Some_conv)
    have "scan_while P s lim pos = (if P c then scan_while P s lim (pos + 1) else Some pos)"
      using True c by (simp add: scan_while.simps [of P s lim pos])
    then show ?thesis
      using "1.IH" [OF True c] "1.prems" True rd_append [OF c, of t]
      by (auto simp: scan_while.simps [of P "s @ t" lim' pos] split: if_splits)
  next
    case False
    with "1.prems" show ?thesis by (auto simp: scan_while.simps [of P s lim pos])
  qed
qed

lemma scan_while_inv:
  assumes "scan_while P s lim pos = Some n" and "lim \<le> length s"
  shows "pos \<le> n" and "pos \<le> lim \<Longrightarrow> n \<le> lim" and "n < lim \<Longrightarrow> \<not> P (s ! n)"
    and "pos \<le> i \<Longrightarrow> i < n \<Longrightarrow> P (s ! i)"
  using scan_while_total [OF assms(2), of P pos] assms(1) by auto

section \<open>More memory never hurts\<close>

text \<open>\<open>opt_le a b\<close>: wherever \<open>a\<close> returns, \<open>b\<close> returns the same. A computation that only reads
  its input is monotone in the memory it is given; the rules below build such facts by the
  structure of the definition.\<close>

named_theorems ext_intros \<open>rules for \<open>opt_le\<close>\<close>

definition opt_le :: "'a option \<Rightarrow> 'a option \<Rightarrow> bool" where
  "opt_le a b \<longleftrightarrow> (\<forall>r. a = Some r \<longrightarrow> b = Some r)"

lemma opt_leD: "opt_le a b \<Longrightarrow> a = Some r \<Longrightarrow> b = Some r"
  by (simp add: opt_le_def)

lemma opt_le_refl [ext_intros]: "opt_le a a"
  by (simp add: opt_le_def)

lemma opt_le_bind [ext_intros]:
  "opt_le a a' \<Longrightarrow> (\<And>x. opt_le (f x) (f' x)) \<Longrightarrow> opt_le (Option.bind a f) (Option.bind a' f')"
  by (auto simp: opt_le_def bind_eq_Some_conv)

lemma opt_le_if [ext_intros]:
  "(c \<Longrightarrow> opt_le a a') \<Longrightarrow> (\<not> c \<Longrightarrow> opt_le b b') \<Longrightarrow>
     opt_le (if c then a else b) (if c then a' else b')"
  by simp

lemma opt_le_option [ext_intros]:
  "opt_le a a' \<Longrightarrow> (\<And>x. opt_le (f x) (f' x)) \<Longrightarrow>
     opt_le (case r of None \<Rightarrow> a | Some x \<Rightarrow> f x) (case r of None \<Rightarrow> a' | Some x \<Rightarrow> f' x)"
  by (cases r) auto

lemma opt_le_prod [ext_intros]:
  "(\<And>x y. opt_le (f x y) (f' x y)) \<Longrightarrow>
     opt_le (case r of (x, y) \<Rightarrow> f x y) (case r of (x, y) \<Rightarrow> f' x y)"
  by (cases r) auto

lemma opt_le_let [ext_intros]:
  "(\<And>x. opt_le (f x) (f' x)) \<Longrightarrow> opt_le (let x = r in f x) (let x = r in f' x)"
  by simp

lemma rd_ext [ext_intros]: "opt_le (rd s i) (rd (s @ t) i)"
  by (auto simp: opt_le_def rd_append)

lemma scan_while_ext [ext_intros]: "opt_le (scan_while P s lim pos) (scan_while P (s @ t) lim pos)"
proof (induction P s lim pos rule: scan_while.induct)
  case (1 P s lim pos)
  show ?case
  proof (cases "pos < lim \<and> rd s pos \<noteq> None")
    case True
    then obtain c where c: "rd s pos = Some c" by auto
    with True "1.IH" [OF _ c] rd_append [OF c, of t] show ?thesis
      by (auto simp: scan_while.simps [of P s lim pos] scan_while.simps [of P "s @ t" lim pos]
          opt_le_refl)
  next
    case False
    then show ?thesis
      by (auto simp: scan_while.simps [of P s lim pos] scan_while.simps [of P "s @ t" lim pos]
          opt_le_def)
  qed
qed

section \<open>Total correctness of option computations\<close>

text \<open>\<open>post a P\<close>: the computation returns, and its result satisfies \<open>P\<close>. The rules follow the
  structure of a definition, so that a component lemma is a postcondition per called function.\<close>

named_theorems wp \<open>rules for \<open>post\<close>\<close>

definition post :: "'a option \<Rightarrow> ('a \<Rightarrow> bool) \<Rightarrow> bool" where
  "post a P \<longleftrightarrow> (\<exists>r. a = Some r \<and> P r)"

lemma postE: "post a P \<Longrightarrow> (\<And>r. a = Some r \<Longrightarrow> P r \<Longrightarrow> Q) \<Longrightarrow> Q"
  by (auto simp: post_def)

lemma postD: "post a P \<Longrightarrow> a = Some r \<Longrightarrow> P r"
  by (auto simp: post_def)

lemma post_Some [wp]: "P r \<Longrightarrow> post (Some r) P"
  by (simp add: post_def)

lemma post_bind: "post a P \<Longrightarrow> (\<And>x. P x \<Longrightarrow> post (f x) Q) \<Longrightarrow> post (Option.bind a f) Q"
  by (auto simp: post_def)

lemma post_weaken: "post a P \<Longrightarrow> (\<And>x. P x \<Longrightarrow> Q x) \<Longrightarrow> post a Q"
  by (auto simp: post_def)

lemma post_if [wp]:
  "(c \<Longrightarrow> post a P) \<Longrightarrow> (\<not> c \<Longrightarrow> post b P) \<Longrightarrow> post (if c then a else b) P"
  by simp

lemma post_option [wp]:
  "(r = None \<Longrightarrow> post a P) \<Longrightarrow> (\<And>x. r = Some x \<Longrightarrow> post (f x) P) \<Longrightarrow>
     post (case r of None \<Rightarrow> a | Some x \<Rightarrow> f x) P"
  by (cases r) auto

lemma post_sum [wp]:
  "(\<And>x. r = Inl x \<Longrightarrow> post (f x) P) \<Longrightarrow> (\<And>y. r = Inr y \<Longrightarrow> post (g y) P) \<Longrightarrow>
     post (case r of Inl x \<Rightarrow> f x | Inr y \<Rightarrow> g y) P"
  by (cases r) auto

lemma post_prod [wp]:
  "(\<And>x y. r = (x, y) \<Longrightarrow> post (f x y) P) \<Longrightarrow> post (case r of (x, y) \<Rightarrow> f x y) P"
  by (cases r) auto

lemma post_let [wp]: "(\<And>x. x = r \<Longrightarrow> post (f x) P) \<Longrightarrow> post (let x = r in f x) P"
  by simp

lemma post_rd [wp]: "i < length s \<Longrightarrow> post (f (s ! i)) P \<Longrightarrow> post (Option.bind (rd s i) f) P"
  by simp

lemma post_wr [wp]: "i < length s \<Longrightarrow> post (f (s[i := c])) P \<Longrightarrow> post (Option.bind (wr s i c) f) P"
  by simp

lemma post_scan_while [wp]:
  assumes "lim \<le> length s"
    and "\<And>n. pos \<le> n \<Longrightarrow> n \<le> max pos lim \<Longrightarrow> (\<And>i. pos \<le> i \<Longrightarrow> i < n \<Longrightarrow> B (s ! i)) \<Longrightarrow>
      (n < lim \<Longrightarrow> \<not> B (s ! n)) \<Longrightarrow> post (f n) P"
  shows "post (Option.bind (scan_while B s lim pos) f) P"
proof -
  obtain n where "scan_while B s lim pos = Some n" "pos \<le> n" "n \<le> max pos lim"
    "\<forall>i. pos \<le> i \<longrightarrow> i < n \<longrightarrow> B (s ! i)" "n < lim \<longrightarrow> \<not> B (s ! n)"
    using scan_while_total [OF assms(1), of B pos] by blast
  with assms(2) [of n] show ?thesis by simp
qed

section \<open>Partial correctness of option computations\<close>

text \<open>\<open>ret a P\<close>: when the computation returns, its result satisfies \<open>P\<close>. It is used for invariants, where
  the calls that do not return (because a client's callback does not) are none of their business.\<close>

named_theorems vc \<open>rules for \<open>ret\<close>\<close>

definition ret :: "'a option \<Rightarrow> ('a \<Rightarrow> bool) \<Rightarrow> bool" where
  "ret a P \<longleftrightarrow> (\<forall>r. a = Some r \<longrightarrow> P r)"

lemma retD: "ret a P \<Longrightarrow> a = Some r \<Longrightarrow> P r"
  by (simp add: ret_def)

lemma ret_None [vc, simp]: "ret None P"
  by (simp add: ret_def)

lemma ret_Some [vc]: "P r \<Longrightarrow> ret (Some r) P"
  by (simp add: ret_def)

lemma ret_bind: "ret a P \<Longrightarrow> (\<And>x. P x \<Longrightarrow> ret (f x) Q) \<Longrightarrow> ret (Option.bind a f) Q"
  by (cases a) (simp_all add: ret_def)

lemma ret_weaken: "ret a P \<Longrightarrow> (\<And>x. P x \<Longrightarrow> Q x) \<Longrightarrow> ret a Q"
  by (auto simp: ret_def)

lemma post_ret: "post a P \<Longrightarrow> ret a P"
  by (auto simp: ret_def post_def)

lemma ret_if [vc]:
  "(c \<Longrightarrow> ret a P) \<Longrightarrow> (\<not> c \<Longrightarrow> ret b P) \<Longrightarrow> ret (if c then a else b) P"
  by simp

lemma ret_option [vc]:
  "(r = None \<Longrightarrow> ret a P) \<Longrightarrow> (\<And>x. r = Some x \<Longrightarrow> ret (f x) P) \<Longrightarrow>
     ret (case r of None \<Rightarrow> a | Some x \<Rightarrow> f x) P"
  by (cases r) auto

lemma ret_sum [vc]:
  "(\<And>x. r = Inl x \<Longrightarrow> ret (f x) P) \<Longrightarrow> (\<And>y. r = Inr y \<Longrightarrow> ret (g y) P) \<Longrightarrow>
     ret (case r of Inl x \<Rightarrow> f x | Inr y \<Rightarrow> g y) P"
  by (cases r) auto

lemma ret_prod [vc]:
  "(\<And>x y. r = (x, y) \<Longrightarrow> ret (f x y) P) \<Longrightarrow> ret (case r of (x, y) \<Rightarrow> f x y) P"
  by (cases r) auto

lemma ret_let [vc]: "(\<And>x. x = r \<Longrightarrow> ret (f x) P) \<Longrightarrow> ret (let x = r in f x) P"
  by simp

section \<open>Decimal numbers\<close>

abbreviation code :: "char \<Rightarrow> int" where
  "code c \<equiv> of_char c"

definition is_digit :: "char \<Rightarrow> bool" where
  "is_digit c \<longleftrightarrow> \<not> (code c < 48 \<or> code c > 57)"

definition digit :: "nat \<Rightarrow> char" where
  "digit d = char_of (48 + int d)"

fun dec :: "nat \<Rightarrow> bytes" where
  "dec n = (if n < 10 then [digit n] else dec (n div 10) @ [digit (n mod 10)])"

declare dec.simps [simp del]

definition dval :: "int \<Rightarrow> bytes \<Rightarrow> int" where
  "dval v ds = foldl (\<lambda>v c. v * 10 + (code c - 48)) v ds"

lemma code_digit: "d < 10 \<Longrightarrow> code (digit d) = 48 + int d"
  by (simp add: digit_def)

lemma is_digit_digit [simp]: "d < 10 \<Longrightarrow> is_digit (digit d)"
  by (simp add: is_digit_def code_digit)

lemma dval_Nil [simp]: "dval v [] = v"
  and dval_Cons [simp]: "dval v (c # cs) = dval (v * 10 + (code c - 48)) cs"
  and dval_append: "dval v (xs @ ys) = dval (dval v xs) ys"
  by (simp_all add: dval_def)

lemma dec_digits: "list_all is_digit (dec n)"
proof (induction n rule: dec.induct)
  case (1 n)
  show ?case using "1.IH" by (subst dec.simps) simp
qed

lemma dec_nonempty [simp]: "dec n \<noteq> []"
  by (subst dec.simps) simp

lemma dval_dec: "dval 0 (dec n) = int n"
proof (induction n rule: dec.induct)
  case (1 n)
  show ?case
  proof (cases "n < 10")
    case True
    then show ?thesis by (subst dec.simps) (simp add: code_digit)
  next
    case False
    with "1.IH" have "dval 0 (dec (n div 10)) = int (n div 10)" by simp
    with False show ?thesis
      by (subst dec.simps) (simp add: dval_append code_digit, presburger)
  qed
qed

lemma dval_bounds:
  assumes "list_all is_digit ds" and "0 \<le> v"
  shows "v \<le> dval v ds \<and> dval v ds < (v + 1) * 10 ^ length ds"
  using assms
proof (induction ds arbitrary: v)
  case Nil
  then show ?case by simp
next
  case (Cons c cs)
  let ?w = "v * 10 + (code c - 48)"
  from Cons.prems have c: "48 \<le> code c" "code c \<le> 57" by (auto simp: is_digit_def)
  with Cons.prems have w: "0 \<le> ?w" "v \<le> ?w" "?w + 1 \<le> (v + 1) * 10" by auto
  have IH: "?w \<le> dval ?w cs \<and> dval ?w cs < (?w + 1) * 10 ^ length cs"
    using Cons.IH [OF _ w(1)] Cons.prems(1) by simp
  have "dval ?w cs < (?w + 1) * 10 ^ length cs" using IH by blast
  also have "\<dots> \<le> ((v + 1) * 10) * 10 ^ length cs"
    using w(3) by (intro mult_right_mono) auto
  also have "\<dots> = (v + 1) * 10 ^ length (c # cs)" by simp
  finally show ?case using IH w(2) by simp
qed

section \<open>Case-insensitive comparison\<close>

text \<open>
  \<open>ngx_strncasecmp\<close> and \<open>ngx_strcasecmp\<close> belong to nginx. The model takes a parameter
  \<open>ceq a b\<close> for "the comparison of \<open>a\<close> and \<open>b\<close> returned 0", \<open>a\<close> and \<open>b\<close> being the
  compared bytes. Its documented behaviour is equality up to the case of ASCII letters.
\<close>

definition lower :: "char \<Rightarrow> char" where
  "lower c = (if 65 \<le> code c \<and> code c \<le> 90 then char_of (code c + 32) else c)"

definition casecmp_ok :: "(bytes \<Rightarrow> bytes \<Rightarrow> bool) \<Rightarrow> bool" where
  "casecmp_ok ceq \<longleftrightarrow> (\<forall>a b. ceq a b \<longleftrightarrow> map lower a = map lower b)"

definition casecmp :: "bytes \<Rightarrow> bytes \<Rightarrow> bool" where
  "casecmp a b \<longleftrightarrow> map lower a = map lower b"

lemma casecmp_ok_casecmp [simp]: "casecmp_ok casecmp"
  by (simp add: casecmp_ok_def casecmp_def)

end
