(* ===== verification/Nats_Protocol.thy ===== *)
theory Nats_Protocol
  imports Nats_Prelude
begin

text \<open>
  The parser of the messages the NATS server sends: \<open>ngx_nats_protocol.h\<close> and
  \<open>ngx_nats_protocol.c\<close>, function by function. The input \<open>s\<close> is the memory \<open>bytes->data[0 ..
  bytes->len - 1]\<close>; every read goes through \<open>rd\<close> and every write through \<open>wr\<close>, so a result
  \<open>None\<close> is an access outside the input. A string inside the message (\<open>ngx_str_t\<close>) is its
  offset in the input and its length. The result is the return value, the message and the
  input memory, which a successful parse has modified (it writes terminating zero bytes).
  The comparison of the message names with \<open>ngx_strncasecmp\<close> is the parameter \<open>ceq\<close>, applied to
  the compared prefixes.
\<close>

section \<open>Constants and data\<close>

abbreviation CR :: char where "CR \<equiv> CHR 0x0D"
abbreviation LF :: char where "LF \<equiv> CHR 0x0A"
abbreviation SP :: char where "SP \<equiv> CHR '' ''"
abbreviation NUL :: char where "NUL \<equiv> CHR 0x00"

definition NGX_NATS_PROTO_AGAIN :: int where "NGX_NATS_PROTO_AGAIN = - 1"
definition NGX_NATS_PROTO_ERR_ERROR :: int where "NGX_NATS_PROTO_ERR_ERROR = - 2"
definition NGX_NATS_PROTO_ERR_INVALID_HEADER :: int where "NGX_NATS_PROTO_ERR_INVALID_HEADER = - 3"
definition NGX_NATS_PROTO_ERR_INVALID_MSG :: int where "NGX_NATS_PROTO_ERR_INVALID_MSG = - 4"

lemmas proto_codes = NGX_NATS_PROTO_AGAIN_def NGX_NATS_PROTO_ERR_ERROR_def
  NGX_NATS_PROTO_ERR_INVALID_HEADER_def NGX_NATS_PROTO_ERR_INVALID_MSG_def

definition NGX_NATS_MSG_OK :: int where "NGX_NATS_MSG_OK = 1"
definition NGX_NATS_MSG_ERR :: int where "NGX_NATS_MSG_ERR = 2"
definition NGX_NATS_MSG_PING :: int where "NGX_NATS_MSG_PING = 3"
definition NGX_NATS_MSG_PONG :: int where "NGX_NATS_MSG_PONG = 4"
definition NGX_NATS_MSG_INFO :: int where "NGX_NATS_MSG_INFO = 5"
definition NGX_NATS_MSG_MSG :: int where "NGX_NATS_MSG_MSG = 6"

lemmas msg_types = NGX_NATS_MSG_OK_def NGX_NATS_MSG_ERR_def NGX_NATS_MSG_PING_def
  NGX_NATS_MSG_PONG_def NGX_NATS_MSG_INFO_def NGX_NATS_MSG_MSG_def

record ngx_str =
  s_off :: nat
  s_len :: nat

record ngx_nats_msg =
  m_type :: int
  m_sid :: int
  m_len :: int
  m_subject :: ngx_str
  m_replyto :: ngx_str
  m_bstart :: nat
  m_bend :: nat

type_synonym parsed = "int \<times> ngx_nats_msg \<times> bytes"

text \<open>\<open>ngx_memzero(m, sizeof(ngx_nats_msg_t))\<close>.\<close>

definition msg_zero :: ngx_nats_msg where
  "msg_zero = \<lparr>m_type = 0, m_sid = 0, m_len = 0, m_subject = \<lparr>s_off = 0, s_len = 0\<rparr>,
     m_replyto = \<lparr>s_off = 0, s_len = 0\<rparr>, m_bstart = 0, m_bend = 0\<rparr>"

definition ngx_nats_protocol_msg_name :: "int \<Rightarrow> string" where
  "ngx_nats_protocol_msg_name type =
     (if type = NGX_NATS_MSG_OK then ''+OK''
      else if type = NGX_NATS_MSG_ERR then ''-ERR''
      else if type = NGX_NATS_MSG_PING then ''PING''
      else if type = NGX_NATS_MSG_PONG then ''PONG''
      else if type = NGX_NATS_MSG_INFO then ''INFO''
      else if type = NGX_NATS_MSG_MSG then ''MSG''
      else ''<invalid message type>'')"

section \<open>Numbers and tokens\<close>

text \<open>
  The loop of \<open>_nats_atoi\<close> over \<open>n\<close> bytes from offset \<open>i\<close>. The inner \<open>None\<close> is the return of
  \<open>NGX_ERROR\<close>, which leaves \<open>*result\<close> alone. The multiplication and addition on \<open>ngx_int_t\<close> are
  not checked by the code; they wrap around at 64 bits.
\<close>

fun nats_atoi_loop :: "bytes \<Rightarrow> nat \<Rightarrow> nat \<Rightarrow> int \<Rightarrow> int option option" where
  "nats_atoi_loop s i 0 v = Some (Some v)"
| "nats_atoi_loop s i (Suc n) v =
     do { c \<leftarrow> rd s i;
          if code c < 48 \<or> code c > 57 then Some None
          else nats_atoi_loop s (i + 1) n (s64 (v * 10 + (code c - 48))) }"

definition nats_atoi :: "bytes \<Rightarrow> nat \<Rightarrow> nat \<Rightarrow> int option option" where
  "nats_atoi s i n = (if n = 0 then Some None else nats_atoi_loop s i n 0)"

text \<open>
  The loop over a quoted token, entered after the opening quote \<open>q\<close>. The inner \<open>None\<close> is
  \<open>_NATS_PARSE_ERR\<close>, the value \<open>(size_t) -1\<close> no position has.
\<close>

function nats_token_quoted :: "bytes \<Rightarrow> nat \<Rightarrow> char \<Rightarrow> nat \<Rightarrow> nat option option" where
  "nats_token_quoted s lim q pos =
     do { c \<leftarrow> rd s pos;
          if c = CHR 0x5C
          then (if pos \<ge> usub lim 1 then Some None else nats_token_quoted s lim q (pos + 2))
          else if c = q then Some (Some (pos + 1))
          else if pos \<ge> usub lim 1 then Some None
          else nats_token_quoted s lim q (pos + 1) }"
  by pat_completeness auto
termination
  by (relation "measure (\<lambda>(s, lim, q, pos). usub lim 1 - pos)") auto

declare nats_token_quoted.simps [simp del]

text \<open>\<open>_nats_token\<close>: the return value (inner option as above) with \<open>*ns\<close> and \<open>*ne\<close>.\<close>

definition nats_token :: "bytes \<Rightarrow> nat \<Rightarrow> nat \<Rightarrow> (nat option \<times> nat \<times> nat) option" where
  "nats_token s pos0 lim =
     do { pos \<leftarrow> scan_while (\<lambda>c. c = SP) s lim pos0;
          if pos = lim then Some (Some lim, lim, lim)
          else do {
            c \<leftarrow> rd s pos;
            if c = CHR 0x27 \<or> c = CHR 0x22
            then (if pos \<ge> usub lim 1 then Some (None, pos, lim)
                  else do { r \<leftarrow> nats_token_quoted s lim c (pos + 1);
                            case r of None \<Rightarrow> Some (None, pos, lim)
                            | Some p \<Rightarrow> Some (Some p, pos, p) })
            else do { p \<leftarrow> scan_while (\<lambda>c. c \<noteq> SP \<and> c \<noteq> CR) s lim pos;
                      Some (Some p, pos, p) } } }"

section \<open>The messages without a body\<close>

definition ngx_nats_parse_ok :: "bytes \<Rightarrow> nat \<Rightarrow> ngx_nats_msg \<Rightarrow> parsed option" where
  "ngx_nats_parse_ok s header_len m0 =
     (let m = m0\<lparr>m_type := NGX_NATS_MSG_OK\<rparr> in
      if length s < 4 then Some (NGX_NATS_PROTO_AGAIN, m, s)
      else do { c \<leftarrow> rd s 3;
        if c \<noteq> CR then Some (NGX_NATS_PROTO_ERR_INVALID_MSG, m, s)
        else if length s < 5 then Some (NGX_NATS_PROTO_AGAIN, m, s)
        else do { d \<leftarrow> rd s 4;
          if d \<noteq> LF then Some (NGX_NATS_PROTO_ERR_INVALID_MSG, m, s)
          else Some (5, m, s) } })"

definition ngx_nats_parse_ping :: "bytes \<Rightarrow> nat \<Rightarrow> ngx_nats_msg \<Rightarrow> parsed option" where
  "ngx_nats_parse_ping s header_len m0 =
     (let m = m0\<lparr>m_type := NGX_NATS_MSG_PING\<rparr> in
      if length s < 5 then Some (NGX_NATS_PROTO_AGAIN, m, s)
      else do { c \<leftarrow> rd s 4;
        if c \<noteq> CR then Some (NGX_NATS_PROTO_ERR_INVALID_MSG, m, s)
        else if length s < 6 then Some (NGX_NATS_PROTO_AGAIN, m, s)
        else do { d \<leftarrow> rd s 5;
          if d \<noteq> LF then Some (NGX_NATS_PROTO_ERR_INVALID_MSG, m, s)
          else Some (6, m, s) } })"

definition ngx_nats_parse_pong :: "bytes \<Rightarrow> nat \<Rightarrow> ngx_nats_msg \<Rightarrow> parsed option" where
  "ngx_nats_parse_pong s header_len m0 =
     (let m = m0\<lparr>m_type := NGX_NATS_MSG_PONG\<rparr> in
      if length s < 5 then Some (NGX_NATS_PROTO_AGAIN, m, s)
      else do { c \<leftarrow> rd s 4;
        if c \<noteq> CR then Some (NGX_NATS_PROTO_ERR_INVALID_MSG, m, s)
        else if length s < 6 then Some (NGX_NATS_PROTO_AGAIN, m, s)
        else do { d \<leftarrow> rd s 5;
          if d \<noteq> LF then Some (NGX_NATS_PROTO_ERR_INVALID_MSG, m, s)
          else Some (6, m, s) } })"

section \<open>-ERR and INFO\<close>

definition ngx_nats_parse_err :: "bytes \<Rightarrow> nat \<Rightarrow> ngx_nats_msg \<Rightarrow> parsed option" where
  "ngx_nats_parse_err s header_len m0 =
     (let m = m0\<lparr>m_type := NGX_NATS_MSG_ERR\<rparr> in
      do { n \<leftarrow> scan_while (\<lambda>c. c = SP) s (length s) header_len;
        if n \<ge> length s then Some (NGX_NATS_PROTO_AGAIN, m, s)
        else if n = header_len then do {
          c \<leftarrow> rd s n;
          if c \<noteq> CR then Some (NGX_NATS_PROTO_ERR_INVALID_MSG, m, s)
          else if n = usub (length s) 1 then Some (NGX_NATS_PROTO_AGAIN, m, s)
          else do { d \<leftarrow> rd s (n + 1);
            if d \<noteq> LF then Some (NGX_NATS_PROTO_ERR_INVALID_MSG, m, s)
            else do {
              s' \<leftarrow> wr s header_len NUL;
              Some (int (n + 2), m\<lparr>m_bstart := header_len, m_bend := header_len\<rparr>, s') } } }
        else do {
          e \<leftarrow> scan_while (\<lambda>c. c \<noteq> CR) s (length s) (n + 1);
          if e \<ge> usub (length s) 1 then Some (NGX_NATS_PROTO_AGAIN, m\<lparr>m_bstart := n\<rparr>, s)
          else do { d \<leftarrow> rd s (e + 1);
            if d \<noteq> LF then Some (NGX_NATS_PROTO_ERR_INVALID_MSG, m\<lparr>m_bstart := n\<rparr>, s)
            else do {
              s' \<leftarrow> wr s e NUL;
              Some (int (e + 2), m\<lparr>m_bstart := n, m_bend := e\<rparr>, s') } } } })"

definition ngx_nats_parse_info :: "bytes \<Rightarrow> nat \<Rightarrow> ngx_nats_msg \<Rightarrow> parsed option" where
  "ngx_nats_parse_info s header_len m0 =
     (let m = m0\<lparr>m_type := NGX_NATS_MSG_INFO\<rparr> in
      do { n \<leftarrow> scan_while (\<lambda>c. c = SP) s (length s) header_len;
        if n \<ge> length s then Some (NGX_NATS_PROTO_AGAIN, m, s)
        else if n = header_len then Some (NGX_NATS_PROTO_ERR_INVALID_MSG, m, s)
        else do {
          e \<leftarrow> scan_while (\<lambda>c. c \<noteq> CR) s (length s) (n + 1);
          if e \<ge> usub (length s) 1 then Some (NGX_NATS_PROTO_AGAIN, m\<lparr>m_bstart := n\<rparr>, s)
          else do { d \<leftarrow> rd s (e + 1);
            if d \<noteq> LF then Some (NGX_NATS_PROTO_ERR_INVALID_MSG, m\<lparr>m_bstart := n\<rparr>, s)
            else do {
              s' \<leftarrow> wr s e NUL;
              Some (int (e + 2), m\<lparr>m_bstart := n, m_bend := e\<rparr>, s') } } } })"

section \<open>MSG\<close>

text \<open>
  \<open>ngx_nats_parse_msg\<close> in parts. \<open>msg_last\<close> is what follows the third token \<open>ns..ne\<close>, which ends
  at \<open>n\<close>: when the line goes on, a fourth token makes the third one the reply-to, and nothing may
  follow it. It gives the message and the token that holds the length; the inner \<open>None\<close> is the
  return of \<open>INVALID_MSG\<close>.
\<close>

definition msg_last ::
  "bytes \<Rightarrow> nat \<Rightarrow> nat \<Rightarrow> ngx_nats_msg \<Rightarrow> nat \<Rightarrow> nat \<Rightarrow> (ngx_nats_msg \<times> nat \<times> nat) option option" where
  "msg_last s n lim m ns ne =
     (if n < lim
      then do {
        (n4, ns2, ne2) \<leftarrow> nats_token s n lim;
        if n4 = None then Some None
        else do {
          (n5, ns3, ne3) \<leftarrow> nats_token s (the n4) lim;
          if n5 = None \<or> the n5 < lim \<or> ns3 < ne3 then Some None
          else if ns2 < ne2
          then Some (Some (m\<lparr>m_replyto := \<lparr>s_off = ns, s_len = ne - ns\<rparr>\<rparr>, ns2, ne2))
          else Some (Some (m, ns, ne)) } }
      else Some (Some (m, ns, ne)))"

text \<open>
  \<open>msg_fields\<close>: the tokens between the header and the end of the line at \<open>lim\<close>, giving the message
  with subject, sid, reply-to and length. (On an error the caller does not look at \<open>*m\<close>; the model
  then returns it as it was before the tokens were read.)
\<close>

definition msg_fields :: "bytes \<Rightarrow> nat \<Rightarrow> nat \<Rightarrow> ngx_nats_msg \<Rightarrow> ngx_nats_msg option option" where
  "msg_fields s header_len lim m0 =
     do { (n1, ns, ne) \<leftarrow> nats_token s header_len lim;
       if n1 = None \<or> n1 = Some lim \<or> ns \<ge> ne then Some None
       else do {
       let m1 = m0\<lparr>m_subject := \<lparr>s_off = ns, s_len = ne - ns\<rparr>\<rparr>;
       (n2, ns, ne) \<leftarrow> nats_token s (the n1) lim;
       if n2 = None \<or> n2 = Some lim \<or> ns \<ge> ne then Some None
       else do {
       sid \<leftarrow> nats_atoi s ns (ne - ns);
       if sid = None then Some None
       else do {
       let m2 = m1\<lparr>m_sid := the sid\<rparr>;
       (n3, ns, ne) \<leftarrow> nats_token s (the n2) lim;
       if n3 = None \<or> ns \<ge> ne then Some None
       else do {
       r \<leftarrow> msg_last s (the n3) lim m2 ns ne;
       case r of None \<Rightarrow> Some None
       | Some (m3, ns, ne) \<Rightarrow> do {
         len \<leftarrow> nats_atoi s ns (ne - ns);
         if len = None then Some None
         else Some (Some (m3\<lparr>m_len := the len\<rparr>)) } } } } } }"

text \<open>The zero bytes written after the subject, the reply-to and the payload.\<close>

definition put_nuls :: "ngx_nats_msg \<Rightarrow> bytes \<Rightarrow> bytes option" where
  "put_nuls m s =
     do { s1 \<leftarrow> wr s (s_off (m_subject m) + s_len (m_subject m)) NUL;
          s2 \<leftarrow> (if s_len (m_replyto m) > 0
                then wr s1 (s_off (m_replyto m) + s_len (m_replyto m)) NUL else Some s1);
          wr s2 (m_bend m) NUL }"

text \<open>
  The end of \<open>ngx_nats_parse_msg\<close>: the payload that starts at \<open>ns\<close>. The sums are on \<open>size_t\<close>
  (\<open>m->len\<close> is converted), hence \<open>u64\<close>; the return value is converted back, hence \<open>s64\<close>.
\<close>

definition msg_payload :: "bytes \<Rightarrow> nat \<Rightarrow> ngx_nats_msg \<Rightarrow> parsed option" where
  "msg_payload s ns m =
     (let a = u64 (int ns + m_len m); a1 = u64 (int ns + m_len m + 1);
          a2 = u64 (int ns + m_len m + 2); m' = m\<lparr>m_bstart := ns, m_bend := a\<rparr> in
      if a2 > length s then Some (NGX_NATS_PROTO_AGAIN, m, s)
      else do { c \<leftarrow> rd s a;
        if c \<noteq> CR then Some (NGX_NATS_PROTO_ERR_INVALID_MSG, m, s)
        else do { d \<leftarrow> rd s a1;
          if d \<noteq> LF then Some (NGX_NATS_PROTO_ERR_INVALID_MSG, m, s)
          else do { s' \<leftarrow> put_nuls m' s; Some (s64 (int a2), m', s') } } })"

definition ngx_nats_parse_msg :: "bytes \<Rightarrow> nat \<Rightarrow> ngx_nats_msg \<Rightarrow> parsed option" where
  "ngx_nats_parse_msg s header_len m0 =
     (let m = m0\<lparr>m_type := NGX_NATS_MSG_MSG\<rparr> in
      do { c \<leftarrow> rd s header_len;
        if c \<noteq> SP then Some (NGX_NATS_PROTO_ERR_INVALID_MSG, m, s)
        else do {
          n \<leftarrow> scan_while (\<lambda>c. c \<noteq> CR) s (usub (length s) 1) header_len;
          if n \<ge> usub (length s) 1 then Some (NGX_NATS_PROTO_AGAIN, m, s)
          else do {
            d \<leftarrow> rd s (n + 1);
            if d \<noteq> LF then Some (NGX_NATS_PROTO_ERR_INVALID_MSG, m, s)
            else do {
              r \<leftarrow> msg_fields s header_len n m;
              case r of None \<Rightarrow> Some (NGX_NATS_PROTO_ERR_INVALID_MSG, m, s)
              | Some m' \<Rightarrow> msg_payload s (n + 2) m' } } } })"

section \<open>The top level\<close>

text \<open>The header loop: \<open>Inl\<close> is the return of \<open>INVALID_HEADER\<close>, \<open>Inr\<close> the final \<open>p\<close>.\<close>

function header_loop :: "bytes \<Rightarrow> nat \<Rightarrow> (int + nat) option" where
  "header_loop s p =
     (if p < length s
      then do { c \<leftarrow> rd s p;
                if c = LF then Some (Inl NGX_NATS_PROTO_ERR_INVALID_HEADER)
                else if c = SP \<or> c = CR then Some (Inr p)
                else header_loop s (p + 1) }
      else Some (Inr p))"
  by pat_completeness auto
termination
  by (relation "measure (\<lambda>(s, p). length s - p)") auto

declare header_loop.simps [simp del]

definition ngx_nats_parse :: "(bytes \<Rightarrow> bytes \<Rightarrow> bool) \<Rightarrow> bytes \<Rightarrow> parsed option" where
  "ngx_nats_parse ceq s =
     do { h \<leftarrow> header_loop s 0;
       case h of Inl rc \<Rightarrow> Some (rc, msg_zero, s)
       | Inr p \<Rightarrow>
         (if p \<ge> length s then Some (NGX_NATS_PROTO_AGAIN, msg_zero, s)
          else if p = 3 then
            (if ceq (take 3 s) ''+OK'' then ngx_nats_parse_ok s p msg_zero
             else if ceq (take 3 s) ''MSG'' then ngx_nats_parse_msg s p msg_zero
             else Some (NGX_NATS_PROTO_ERR_INVALID_HEADER, msg_zero, s))
          else if p = 4 then
            (if ceq (take 4 s) ''-ERR'' then ngx_nats_parse_err s p msg_zero
             else if ceq (take 4 s) ''PING'' then ngx_nats_parse_ping s p msg_zero
             else if ceq (take 4 s) ''PONG'' then ngx_nats_parse_pong s p msg_zero
             else if ceq (take 4 s) ''INFO'' then ngx_nats_parse_info s p msg_zero
             else Some (NGX_NATS_PROTO_ERR_INVALID_HEADER, msg_zero, s))
          else Some (NGX_NATS_PROTO_ERR_INVALID_HEADER, msg_zero, s)) }"

end
