(* ===== verification/Nats_Protocol_Safe.thy ===== *)
theory Nats_Protocol_Safe
  imports Nats_Protocol
begin

text \<open>
  Memory safety of the protocol parser: every function returns on every input, except for the
  payload of a MSG whose length field overflows 64 bits. With the length fields short enough
  not to overflow the parser is safe on every input, and what it returns is well formed.
\<close>

section \<open>Numbers\<close>

lemma nats_atoi_loop_total:
  "i + n \<le> length s \<Longrightarrow> \<exists>r. nats_atoi_loop s i n v = Some r
     \<and> (r \<noteq> None \<longrightarrow> list_all is_digit (slice s i (i + n)))"
proof (induction n arbitrary: i v)
  case 0
  then show ?case by (simp add: slice_def)
next
  case (Suc n)
  then have i: "i < length s" "i + 1 + n \<le> length s" by auto
  let ?v = "s64 (v * 10 + (code (s ! i) - 48))"
  obtain r where r: "nats_atoi_loop s (i + 1) n ?v = Some r"
    "r \<noteq> None \<longrightarrow> list_all is_digit (slice s (i + 1) (i + 1 + n))"
    using Suc.IH [OF i(2), of ?v] by blast
  have "slice s i (i + Suc n) = s ! i # slice s (i + 1) (i + 1 + n)"
    using i by (simp add: slice_def Cons_nth_drop_Suc [symmetric])
  with r i show ?case by (auto simp: is_digit_def [of "s ! i"])
qed

lemma nats_atoi_total:
  assumes "i + n \<le> length s"
  shows "\<exists>r. nats_atoi s i n = Some r \<and> (r \<noteq> None \<longrightarrow> 0 < n \<and> list_all is_digit (slice s i (i + n)))"
  using nats_atoi_loop_total [OF assms, of 0] by (auto simp: nats_atoi_def)

text \<open>The unchecked arithmetic is exact when the number fits.\<close>

lemma nats_atoi_loop_exact:
  assumes "i + n \<le> length s" and "list_all is_digit (slice s i (i + n))"
    and "0 \<le> v" and "dval v (slice s i (i + n)) < 2 ^ 63"
  shows "nats_atoi_loop s i n v = Some (Some (dval v (slice s i (i + n))))"
  using assms
proof (induction n arbitrary: i v)
  case 0
  then show ?case by (simp add: slice_def)
next
  case (Suc n)
  then have i: "i < length s" "i + 1 + n \<le> length s" by auto
  have sl: "slice s i (i + Suc n) = s ! i # slice s (i + 1) (i + 1 + n)"
    using i by (simp add: slice_def Cons_nth_drop_Suc [symmetric])
  let ?w = "v * 10 + (code (s ! i) - 48)"
  have d: "48 \<le> code (s ! i)" "code (s ! i) \<le> 57" and ds: "list_all is_digit (slice s (i + 1) (i + 1 + n))"
    using Suc.prems(2) unfolding sl by (auto simp: is_digit_def [of "s ! i"])
  have w0: "0 \<le> ?w" using d Suc.prems(3) by simp
  have w: "dval ?w (slice s (i + 1) (i + 1 + n)) < 2 ^ 63" using Suc.prems(4) unfolding sl by simp
  then have "?w < 2 ^ 63" using dval_bounds [OF ds w0] by linarith
  then have "s64 ?w = ?w" using w0 by (intro s64_id) auto
  then show ?case using Suc.IH [OF i(2) ds w0 w] d i by (simp add: sl [simplified])
qed

lemma nats_atoi_value:
  assumes "0 < n" and "i + n \<le> length s" and "list_all is_digit (slice s i (i + n))"
    and "dval 0 (slice s i (i + n)) < 2 ^ 63"
  shows "nats_atoi s i n = Some (Some (dval 0 (slice s i (i + n))))"
  using nats_atoi_loop_exact [OF assms(2,3) _ assms(4)] assms(1) by (simp add: nats_atoi_def)

lemma nats_atoi_exact:
  assumes "nats_atoi s i n = Some (Some v)" and "i + n \<le> length s" and "n \<le> 18"
  shows "v = dval 0 (slice s i (i + n)) \<and> 0 \<le> v \<and> v < 10 ^ 18"
proof -
  have n: "0 < n" "list_all is_digit (slice s i (i + n))"
    using nats_atoi_total [OF assms(2)] assms(1) by auto
  have p: "(10 :: int) ^ n \<le> 10 ^ 18" using assms(3) by (intro power_increasing) auto
  have "length (slice s i (i + n)) = n" using assms(2) by simp
  then have b: "0 \<le> dval 0 (slice s i (i + n)) \<and> dval 0 (slice s i (i + n)) < 10 ^ 18"
    using dval_bounds [OF n(2), of 0] p by simp
  then have "dval 0 (slice s i (i + n)) < 2 ^ 63" by simp
  from nats_atoi_value [OF n(1) assms(2) n(2) this] assms(1) b show ?thesis by simp
qed

section \<open>Tokens\<close>

text \<open>The line \<open>s[..lim]\<close> whose end \<open>lim\<close> holds a carriage return inside the input.\<close>

definition line_end :: "bytes \<Rightarrow> nat \<Rightarrow> bool" where
  "line_end s lim \<longleftrightarrow> 0 < lim \<and> lim < length s \<and> s ! lim = CR"

lemma nats_token_quoted_total:
  assumes "line_end s lim" and "q \<noteq> CR" and "pos \<le> lim"
  shows "\<exists>r. nats_token_quoted s lim q pos = Some r \<and> (\<forall>p. r = Some p \<longrightarrow> pos < p \<and> p \<le> lim)"
  using assms
proof (induction s lim q pos rule: nats_token_quoted.induct)
  case (1 s lim q pos)
  then have rd: "rd s pos = Some (s ! pos)" "usub lim 1 = lim - 1" by (auto simp: line_end_def)
  have end_cr: "pos = lim \<Longrightarrow> s ! pos = CR" using "1.prems" by (simp add: line_end_def)
  show ?case
  proof (cases "lim - 1 \<le> pos")
    case True
    then show ?thesis unfolding nats_token_quoted.simps [of s lim q pos]
      using rd end_cr "1.prems" by (cases "pos = lim") auto
  next
    case False
    with "1.prems" have "pos + 2 \<le> lim" "pos + 1 \<le> lim" by auto
    with False rd "1.IH" [OF rd(1)] "1.prems"
    have esc: "s ! pos = CHR 0x5C \<Longrightarrow> ?thesis" and plain: "s ! pos \<noteq> CHR 0x5C \<Longrightarrow> s ! pos \<noteq> q \<Longrightarrow> ?thesis"
      unfolding nats_token_quoted.simps [of s lim q pos] by force+
    have "s ! pos \<noteq> CHR 0x5C \<Longrightarrow> s ! pos = q \<Longrightarrow> ?thesis"
      using rd \<open>pos + 1 \<le> lim\<close> by (simp add: nats_token_quoted.simps [of s lim q pos])
    with esc plain show ?thesis by blast
  qed
qed

lemma nats_token_total:
  assumes le: "line_end s lim" and pos: "pos \<le> lim"
  shows "\<exists>r ns ne. nats_token s pos lim = Some (r, ns, ne) \<and> pos \<le> ns \<and> ns \<le> lim \<and> ne \<le> lim
     \<and> (\<forall>n. r = Some n \<longrightarrow> ns \<le> n \<and> n \<le> lim \<and> (ns < ne \<longrightarrow> ne = n))"
proof -
  from le have l: "lim \<le> length s" "0 < lim" "usub lim 1 = lim - 1" by (auto simp: line_end_def)
  obtain p where p: "scan_while (\<lambda>c. c = SP) s lim pos = Some p" "pos \<le> p" "p \<le> lim"
    using scan_while_total [OF l(1), of "\<lambda>c. c = SP" pos] pos by (auto simp: max_def)
  consider "p = lim" | "p < lim" "s ! p = CHR 0x27 \<or> s ! p = CHR 0x22"
    | "p < lim" "s ! p \<noteq> CHR 0x27" "s ! p \<noteq> CHR 0x22" using p by fastforce
  then show ?thesis
  proof cases
    case 1
    with p show ?thesis by (auto simp: nats_token_def)
  next
    case 2
    let ?q = "s ! p"
    obtain r where r: "nats_token_quoted s lim ?q (p + 1) = Some r"
      "\<forall>n. r = Some n \<longrightarrow> p + 1 < n \<and> n \<le> lim"
      using nats_token_quoted_total [OF le, of ?q "p + 1"] 2 by auto
    have "rd s p = Some ?q" using 2 l by simp
    with 2 p l r show ?thesis by (cases r) (auto simp: nats_token_def)
  next
    case 3
    obtain n where n: "scan_while (\<lambda>c. c \<noteq> SP \<and> c \<noteq> CR) s lim p = Some n" "p \<le> n" "n \<le> lim"
      "n < lim \<longrightarrow> \<not> (s ! n \<noteq> SP \<and> s ! n \<noteq> CR)"
      using scan_while_total [OF l(1), of "\<lambda>c. c \<noteq> SP \<and> c \<noteq> CR" p] 3 by (auto simp: max_def)
    have "rd s p = Some (s ! p)" using 3 l by simp
    with 3 p l n show ?thesis by (auto simp: nats_token_def)
  qed
qed

section \<open>The fields of a MSG line\<close>

text \<open>What is known of the message once its line has been read up to \<open>lim\<close>.\<close>

definition number_at :: "bytes \<Rightarrow> nat \<Rightarrow> int \<Rightarrow> bool" where
  "number_at s lim v \<longleftrightarrow> (\<exists>i n. i + n \<le> lim \<and> nats_atoi s i n = Some (Some v))"

definition fields_ok :: "bytes \<Rightarrow> nat \<Rightarrow> nat \<Rightarrow> ngx_nats_msg \<Rightarrow> ngx_nats_msg \<Rightarrow> bool" where
  "fields_ok s h lim m m' \<longleftrightarrow> m_type m' = m_type m
     \<and> h \<le> s_off (m_subject m') \<and> 0 < s_len (m_subject m')
     \<and> s_off (m_subject m') + s_len (m_subject m') < lim
     \<and> (m_replyto m' = m_replyto m
        \<or> h \<le> s_off (m_replyto m') \<and> s_off (m_replyto m') + s_len (m_replyto m') \<le> lim)
     \<and> number_at s lim (m_sid m') \<and> number_at s lim (m_len m')"

lemma post_nats_token [wp]:
  assumes "line_end s lim" and "pos \<le> lim"
    and "\<And>r ns ne. pos \<le> ns \<Longrightarrow> ns \<le> lim \<Longrightarrow> ne \<le> lim \<Longrightarrow>
      (\<And>n. r = Some n \<Longrightarrow> ns \<le> n \<and> n \<le> lim \<and> (ns < ne \<longrightarrow> ne = n)) \<Longrightarrow> post (f (r, ns, ne)) P"
  shows "post (Option.bind (nats_token s pos lim) f) P"
proof -
  obtain r ns ne where "nats_token s pos lim = Some (r, ns, ne)" "pos \<le> ns" "ns \<le> lim" "ne \<le> lim"
    "\<forall>n. r = Some n \<longrightarrow> ns \<le> n \<and> n \<le> lim \<and> (ns < ne \<longrightarrow> ne = n)"
    using nats_token_total [OF assms(1,2)] by blast
  with assms(3) [of ns ne r] show ?thesis by simp
qed

lemma post_nats_atoi [wp]:
  assumes "line_end s lim" and "i + n \<le> lim"
    and "post (f None) P" and "\<And>v. number_at s lim v \<Longrightarrow> post (f (Some v)) P"
  shows "post (Option.bind (nats_atoi s i n) f) P"
proof -
  from assms(1,2) obtain r where r: "nats_atoi s i n = Some r"
    using nats_atoi_total [of i n s] by (auto simp: line_end_def)
  have "number_at s lim v" if "r = Some v" for v
    using r that assms(2) by (auto simp: number_at_def)
  with assms(3,4) r show ?thesis by (cases r) auto
qed

definition last_ok :: "nat \<Rightarrow> nat \<Rightarrow> ngx_nats_msg \<Rightarrow> (ngx_nats_msg \<times> nat \<times> nat) option \<Rightarrow> bool" where
  "last_ok h lim m r \<longleftrightarrow> (\<forall>m' i j. r = Some (m', i, j) \<longrightarrow> i \<le> j \<and> j \<le> lim
     \<and> (m' = m \<or> (\<exists>w. m' = m\<lparr>m_replyto := w\<rparr> \<and> h \<le> s_off w \<and> s_off w + s_len w \<le> lim)))"

lemma msg_last_post:
  assumes "line_end s lim" and "n \<le> lim" and "h \<le> ns" "ns < ne" "ne \<le> lim"
  shows "post (msg_last s n lim m ns ne) (last_ok h lim m)"
  unfolding msg_last_def
  by (intro wp) (use assms in \<open>auto simp: last_ok_def\<close>)

lemma post_msg_last:
  assumes "line_end s lim" and "n \<le> lim" and "h \<le> ns" "ns < ne" "ne \<le> lim"
    and "\<And>r. last_ok h lim m r \<Longrightarrow> post (f r) P"
  shows "post (Option.bind (msg_last s n lim m ns ne) f) P"
  using msg_last_post [OF assms(1-5), of m] assms(6) by (rule post_bind)

lemma msg_fields_post:
  assumes "line_end s lim" and "h \<le> lim"
  shows "post (msg_fields s h lim m) (\<lambda>r. \<forall>m'. r = Some m' \<longrightarrow> fields_ok s h lim m m')"
  unfolding msg_fields_def
  by (intro wp post_msg_last [where h = h])
    (use assms in \<open>auto simp: last_ok_def fields_ok_def\<close>)

section \<open>Short numbers\<close>

text \<open>\<open>digit_runs_le k 0 s\<close>: no run of consecutive digits in \<open>s\<close> is longer than \<open>k\<close>.\<close>

fun digit_runs_le :: "nat \<Rightarrow> nat \<Rightarrow> bytes \<Rightarrow> bool" where
  "digit_runs_le k r [] = True"
| "digit_runs_le k r (c # cs) =
     (if is_digit c then r < k \<and> digit_runs_le k (r + 1) cs else digit_runs_le k 0 cs)"

lemma digit_runs_le_prefix:
  "digit_runs_le k r s \<Longrightarrow> r \<le> k \<Longrightarrow> n \<le> length s \<Longrightarrow> list_all is_digit (take n s) \<Longrightarrow> r + n \<le> k"
proof (induction s arbitrary: r n)
  case Nil
  then show ?case by simp
next
  case (Cons c cs)
  then show ?case using Cons.IH [of "r + 1" "n - 1"] by (cases n) auto
qed

lemma digit_runs_le_drop: "digit_runs_le k r s \<Longrightarrow> r \<le> k \<Longrightarrow> \<exists>r' \<le> k. digit_runs_le k r' (drop i s)"
proof (induction s arbitrary: r i)
  case Nil
  then show ?case by auto
next
  case (Cons c cs)
  show ?case
  proof (cases i)
    case 0
    with Cons.prems show ?thesis by auto
  next
    case (Suc j)
    with Cons show ?thesis by (cases "is_digit c") auto
  qed
qed

lemma digit_runs_le_slice:
  assumes "digit_runs_le k 0 s" and "i + n \<le> length s" and "list_all is_digit (slice s i (i + n))"
  shows "n \<le> k"
proof -
  obtain r where r: "r \<le> k" "digit_runs_le k r (drop i s)"
    using digit_runs_le_drop [OF assms(1)] by auto
  have "n \<le> length (drop i s)" using assms(2) by simp
  from digit_runs_le_prefix [OF r(2,1) this] assms(3) show ?thesis by (simp add: slice_def)
qed

lemma short_number_at:
  assumes "digit_runs_le 18 0 s" and "number_at s lim v" and "lim \<le> length s"
  shows "0 \<le> v \<and> v < 10 ^ 18"
proof -
  obtain i n where n: "i + n \<le> lim" "nats_atoi s i n = Some (Some v)"
    using assms(2) by (auto simp: number_at_def)
  with assms(3) have len: "i + n \<le> length s" by simp
  then have "n \<le> 18"
    using nats_atoi_total [OF len] n(2) digit_runs_le_slice [OF assms(1) len] by auto
  with nats_atoi_exact [OF n(2) len] show ?thesis by simp
qed

lemma digit_runs_le_append: "digit_runs_le k r (s @ t) \<Longrightarrow> digit_runs_le k r s"
  by (induction s arbitrary: r) (auto split: if_splits)

lemma digit_runs_le_mono: "digit_runs_le k r s \<Longrightarrow> r' \<le> r \<Longrightarrow> digit_runs_le k r' s"
  by (induction s arbitrary: r r') (auto split: if_splits)

lemma digit_runs_le_suffix: "digit_runs_le k 0 s \<Longrightarrow> digit_runs_le k 0 (drop i s)"
  using digit_runs_le_drop [of k 0 s i] digit_runs_le_mono [of k _ "drop i s" 0] by auto

section \<open>The parser\<close>

text \<open>What the caller may rely on. A negative result leaves the memory as it was. A positive result
  is the length of a message that lies inside the input and ends with a line break; the parser has
  written zero bytes only before that line break's last byte, never inside the body; the body and
  the strings of a MSG lie in the message in the documented order.\<close>

definition str_in :: "bytes \<Rightarrow> ngx_str \<Rightarrow> nat \<Rightarrow> bool" where
  "str_in s w lim \<longleftrightarrow> s_off w + s_len w \<le> lim \<and> s ! (s_off w + s_len w) = NUL"

definition parsed_ok :: "bytes \<Rightarrow> parsed \<Rightarrow> bool" where
  "parsed_ok s = (\<lambda>(rc, m, s').
     length s' = length s
     \<and> (rc < 0 \<longrightarrow> s' = s \<and> rc \<in> {NGX_NATS_PROTO_AGAIN, NGX_NATS_PROTO_ERR_INVALID_HEADER,
                                NGX_NATS_PROTO_ERR_INVALID_MSG})
     \<and> (0 \<le> rc \<longrightarrow> 5 \<le> rc \<and> nat rc \<le> length s
          \<and> s ! (nat rc - 2) = CR \<and> s ! (nat rc - 1) = LF
          \<and> drop (nat rc - 1) s' = drop (nat rc - 1) s
          \<and> slice s' (m_bstart m) (m_bend m) = slice s (m_bstart m) (m_bend m)
          \<and> (m_type m \<in> {NGX_NATS_MSG_OK, NGX_NATS_MSG_PING, NGX_NATS_MSG_PONG} \<and> s' = s
             \<or> m_type m \<in> {NGX_NATS_MSG_ERR, NGX_NATS_MSG_INFO, NGX_NATS_MSG_MSG}
               \<and> 4 \<le> m_bstart m \<and> m_bstart m \<le> m_bend m \<and> m_bend m = nat rc - 2
               \<and> s' ! m_bend m = NUL)
          \<and> (m_type m = NGX_NATS_MSG_MSG \<longrightarrow>
               m_len m = int (m_bend m - m_bstart m)
               \<and> 0 < s_len (m_subject m) \<and> str_in s' (m_subject m) (m_bstart m - 2)
               \<and> (0 < s_len (m_replyto m) \<longrightarrow> str_in s' (m_replyto m) (m_bstart m - 2)))))"

lemmas parsed_simps = parsed_ok_def proto_codes msg_types str_in_def

lemma parse_ok_post:
  "h = 3 \<Longrightarrow> h < length s \<Longrightarrow> post (ngx_nats_parse_ok s h msg_zero) (parsed_ok s)"
  unfolding ngx_nats_parse_ok_def Let_def
  by (intro wp) (auto simp: parsed_simps msg_zero_def)

lemma parse_ping_post:
  "h = 4 \<Longrightarrow> h < length s \<Longrightarrow> post (ngx_nats_parse_ping s h msg_zero) (parsed_ok s)"
  unfolding ngx_nats_parse_ping_def Let_def
  by (intro wp) (auto simp: parsed_simps msg_zero_def)

lemma parse_pong_post:
  "h = 4 \<Longrightarrow> h < length s \<Longrightarrow> post (ngx_nats_parse_pong s h msg_zero) (parsed_ok s)"
  unfolding ngx_nats_parse_pong_def Let_def
  by (intro wp) (auto simp: parsed_simps msg_zero_def)

lemma parse_err_post:
  "h = 4 \<Longrightarrow> h < length s \<Longrightarrow> post (ngx_nats_parse_err s h msg_zero) (parsed_ok s)"
  unfolding ngx_nats_parse_err_def Let_def
  by (intro wp) (auto simp: parsed_simps msg_zero_def nat_add_distrib slice_update_above)

lemma parse_info_post:
  "h = 4 \<Longrightarrow> h < length s \<Longrightarrow> post (ngx_nats_parse_info s h msg_zero) (parsed_ok s)"
  unfolding ngx_nats_parse_info_def Let_def
  by (intro wp) (auto simp: parsed_simps msg_zero_def nat_add_distrib slice_update_above)

text \<open>The memory after the zero bytes are written.\<close>

definition with_nuls :: "ngx_nats_msg \<Rightarrow> bytes \<Rightarrow> bytes" where
  "with_nuls m s =
     (let s1 = s[s_off (m_subject m) + s_len (m_subject m) := NUL];
          s2 = (if 0 < s_len (m_replyto m)
                then s1[s_off (m_replyto m) + s_len (m_replyto m) := NUL] else s1)
      in s2[m_bend m := NUL])"

lemma put_nuls_eq:
  assumes "s_off (m_subject m) + s_len (m_subject m) < length s"
    and "s_off (m_replyto m) + s_len (m_replyto m) < length s" and "m_bend m < length s"
  shows "put_nuls m s = Some (with_nuls m s)"
  using assms by (simp add: put_nuls_def with_nuls_def Let_def)

lemma length_with_nuls [simp]: "length (with_nuls m s) = length s"
  by (simp add: with_nuls_def Let_def)

text \<open>The payload check for a length that is not negative and does not overflow.\<close>

lemma msg_payload_run:
  assumes k: "m_len m = int k" and fit: "lim + 4 + k < 2 ^ 63"
    and subj: "s_off (m_subject m) + s_len (m_subject m) \<le> lim"
    and repl: "s_off (m_replyto m) + s_len (m_replyto m) \<le> lim"
    and m': "m' = m\<lparr>m_bstart := lim + 2, m_bend := lim + 2 + k\<rparr>"
  shows "msg_payload s (lim + 2) m =
    (if lim + 4 + k > length s then Some (NGX_NATS_PROTO_AGAIN, m, s)
     else if s ! (lim + 2 + k) \<noteq> CR \<or> s ! (lim + 3 + k) \<noteq> LF
     then Some (NGX_NATS_PROTO_ERR_INVALID_MSG, m, s)
     else Some (int (lim + 4 + k), m', with_nuls m' s))"
proof -
  have u: "u64 (int (lim + 2) + m_len m) = lim + 2 + k"
    "u64 (int (lim + 2) + m_len m + 1) = lim + 3 + k"
    "u64 (int (lim + 2) + m_len m + 2) = lim + 4 + k"
    using fit k by (simp_all add: u64_def nat_mod_as_int [symmetric])
  have put: "put_nuls m' s = Some (with_nuls m' s)" if "lim + 2 + k < length s"
    using subj repl that m' by (intro put_nuls_eq) auto
  have "s64 (int (lim + 4 + k)) = int (lim + 4 + k)" using fit by (rule s64_of_nat)
  then show ?thesis
    unfolding msg_payload_def u Let_def m' [symmetric] using put by simp
qed

lemma msg_payload_post:
  assumes f: "fields_ok s h lim m0 m" and h: "3 \<le> h" "m_replyto m0 = \<lparr>s_off = 0, s_len = 0\<rparr>"
    and lim: "lim + 1 < length s" and len: "0 \<le> m_len m" "m_len m < 10 ^ 18"
    and s: "length s < 2 ^ 62" and type: "m_type m = NGX_NATS_MSG_MSG"
  shows "post (msg_payload s (lim + 2) m) (parsed_ok s)"
proof -
  obtain k where k: "m_len m = int k" "k < 10 ^ 18"
    using len by (metis nonneg_int_cases of_nat_less_numeral_power_cancel_iff)
  let ?so = "s_off (m_subject m) + s_len (m_subject m)"
  let ?ro = "s_off (m_replyto m) + s_len (m_replyto m)"
  have subj: "?so < lim" "4 \<le> ?so" "0 < s_len (m_subject m)"
    and repl: "?ro \<le> lim"
    using f h by (auto simp: fields_ok_def)
  let ?e = "lim + 2 + k"
  define m' where "m' = m\<lparr>m_bstart := lim + 2, m_bend := ?e\<rparr>"
  define s3 where "s3 = with_nuls m' s"
  have fit: "lim + 4 + k < 2 ^ 63" using lim s k by simp
  note run = msg_payload_run [OF k(1) fit _ repl m'_def, of s, folded s3_def]
  have s3: "drop (lim + 3 + k) s3 = drop (lim + 3 + k) s"
    "slice s3 (lim + 2) ?e = slice s (lim + 2) ?e" "length s3 = length s"
    using subj repl unfolding s3_def
    by (simp_all add: with_nuls_def Let_def m'_def slice_update_above slice_update_below)
  have nul: "s3 ! ?so = NUL" "0 < s_len (m_replyto m) \<Longrightarrow> s3 ! ?ro = NUL"
    "?e < length s \<Longrightarrow> s3 ! ?e = NUL"
    using subj repl lim by (auto simp: s3_def with_nuls_def Let_def m'_def nth_list_update)
  have "parsed_ok s (int (lim + 4 + k), m', s3)"
    if "lim + 4 + k \<le> length s" "s ! (lim + 2 + k) = CR" "s ! (lim + 3 + k) = LF"
    using s3 nul subj repl k lim type that
    by (auto simp: parsed_simps m'_def nat_add_distrib ac_simps)
  then show ?thesis
    unfolding post_def run [OF less_imp_le [OF subj(1)]] by (simp add: parsed_simps)
qed

lemma parse_msg_post:
  assumes h: "h = 3" "h < length s" and len: "length s < 2 ^ 62" and runs: "digit_runs_le 18 0 s"
  shows "post (ngx_nats_parse_msg s h msg_zero) (parsed_ok s)"
proof -
  have fields: "post (Option.bind (msg_fields s 3 n m) f) (parsed_ok s)"
    if "line_end s n" "3 \<le> n" "n + 1 < length s" "m = msg_zero\<lparr>m_type := NGX_NATS_MSG_MSG\<rparr>"
      "post (f None) (parsed_ok s)" "\<And>m'. f (Some m') = msg_payload s (n + 2) m'" for n m f
  proof (rule post_bind [OF msg_fields_post])
    fix r
    assume r: "\<forall>m'. r = Some m' \<longrightarrow> fields_ok s 3 n m m'"
    show "post (f r) (parsed_ok s)"
    proof (cases r)
      case None
      with that show ?thesis by simp
    next
      case (Some m')
      with r have f: "fields_ok s 3 n m m'" by simp
      then have "0 \<le> m_len m' \<and> m_len m' < 10 ^ 18"
        using short_number_at [OF runs, of n "m_len m'"] that(3) by (simp add: fields_ok_def)
      with msg_payload_post [OF f _ _ that(3) _ _ len] f that Some
      show ?thesis by (simp add: fields_ok_def msg_zero_def)
    qed
  qed (use that in auto)
  show ?thesis
    unfolding ngx_nats_parse_msg_def Let_def h(1)
    by (intro wp fields) (use assms in \<open>auto simp: line_end_def parsed_simps\<close>)
qed

lemma header_loop_post:
  "p \<le> length s \<Longrightarrow> post (header_loop s p) (\<lambda>r. r = Inl NGX_NATS_PROTO_ERR_INVALID_HEADER
     \<or> (\<exists>q. r = Inr q \<and> p \<le> q \<and> q \<le> length s \<and> (q < length s \<longrightarrow> s ! q \<in> {SP, CR})))"
proof (induction s p rule: header_loop.induct)
  case (1 s p)
  show ?case
  proof (cases "p < length s")
    case True
    show ?thesis
      unfolding header_loop.simps [of s p]
      using True "1.IH" [OF True, of "s ! p"] by (auto simp: post_def)
  next
    case False
    then show ?thesis unfolding header_loop.simps [of s p]
      using "1.prems" by (simp add: post_def)
  qed
qed

lemma parse_post:
  assumes "digit_runs_le 18 0 s" and "length s < 2 ^ 62"
  shows "post (ngx_nats_parse ceq s) (parsed_ok s)"
proof -
  have err: "post (Some (rc, msg_zero, s)) (parsed_ok s)"
    if "rc \<in> {NGX_NATS_PROTO_AGAIN, NGX_NATS_PROTO_ERR_INVALID_HEADER}" for rc
    using that by (auto simp: post_def parsed_simps)
  show ?thesis
    unfolding ngx_nats_parse_def
    by (intro post_bind [OF header_loop_post] post_sum post_if err parse_ok_post parse_msg_post
        parse_err_post parse_ping_post parse_pong_post parse_info_post) (use assms in auto)
qed

text \<open>
  C15: \<open>ngx_nats_parse\<close> is memory safe and total on every input in which no run of decimal digits is longer
  than 18. The condition is on the whole input, subjects and payloads included, and not only on
  the length fields, where it keeps \<open>_nats_atoi\<close> from overflowing. The result is one the caller can
  rely on: a documented error code with the input untouched, or the length of a complete message
  inside the input whose body, subject and reply-to are where the message says, terminated by zero
  bytes, with everything from the final line feed on untouched.
\<close>

theorem parse_safe:
  assumes "digit_runs_le 18 0 s" and "length s < 2 ^ 62"
  shows "\<exists>r. ngx_nats_parse ceq s = Some r \<and> parsed_ok s r"
  using parse_post [OF assms, of ceq] by (auto simp: post_def)

theorem parse_safe_witness:
  "\<exists>r. ngx_nats_parse casecmp (''MSG a 1 2'' @ [CR, LF] @ ''hi'' @ [CR, LF]) = Some r
     \<and> parsed_ok (''MSG a 1 2'' @ [CR, LF] @ ''hi'' @ [CR, LF]) r"
proof -
  have "digit_runs_le 18 0 (''MSG a 1 2'' @ [CR, LF] @ ''hi'' @ [CR, LF])" by code_simp
  then show ?thesis by (rule parse_safe) simp
qed

end
