(* ===== verification/Nats_Protocol_Stream.thy ===== *)
theory Nats_Protocol_Stream
  imports Nats_Protocol_Safe
begin

text \<open>
  The parser as a decoder of a byte stream: a verdict other than "incomplete" does not change
  when more bytes arrive, and therefore the messages found do not depend on how the stream is
  cut into reads. The contract of such a decoder is the locale \<open>framed_parser\<close>; the
  interpretation \<open>nats\<close> is on \<open>ngx_nats_parse\<close>.
\<close>

section \<open>Reading functions are monotone in the input\<close>

lemma nats_atoi_loop_ext: "opt_le (nats_atoi_loop s i n v) (nats_atoi_loop (s @ t) i n v)"
  by (induction n arbitrary: i v) (auto intro!: ext_intros)

lemma nats_atoi_ext [ext_intros]: "opt_le (nats_atoi s i n) (nats_atoi (s @ t) i n)"
  by (auto simp: nats_atoi_def intro: opt_le_refl nats_atoi_loop_ext)

lemma nats_token_quoted_ext [ext_intros]:
  "opt_le (nats_token_quoted s lim q pos) (nats_token_quoted (s @ t) lim q pos)"
proof (induction s lim q pos rule: nats_token_quoted.induct)
  case (1 s lim q pos)
  show ?case
  proof (cases "rd s pos")
    case None
    then show ?thesis by (auto simp: nats_token_quoted.simps [of s lim q pos] opt_le_def)
  next
    case (Some c)
    with "1.IH" [OF Some] rd_append [OF Some, of t] show ?thesis
      by (auto simp: nats_token_quoted.simps [of s lim q pos]
          nats_token_quoted.simps [of "s @ t" lim q pos] intro: opt_le_refl)
  qed
qed

lemma nats_token_ext [ext_intros]: "opt_le (nats_token s pos lim) (nats_token (s @ t) pos lim)"
  unfolding nats_token_def by (intro ext_intros)

lemma msg_last_ext [ext_intros]:
  "opt_le (msg_last s n lim m ns ne) (msg_last (s @ t) n lim m ns ne)"
  unfolding msg_last_def by (intro ext_intros)

lemma msg_fields_ext [ext_intros]: "opt_le (msg_fields s h lim m) (msg_fields (s @ t) h lim m)"
  unfolding msg_fields_def by (intro ext_intros)

section \<open>Verdicts are stable\<close>

lemma parse_ok_stable:
  "ngx_nats_parse_ok s h m = Some (rc, m', s') \<Longrightarrow> rc \<noteq> NGX_NATS_PROTO_AGAIN \<Longrightarrow>
     ngx_nats_parse_ok (s @ t) h m = Some (rc, m', s' @ t)"
  by (auto simp: ngx_nats_parse_ok_def Let_def nth_append split: if_splits)

lemma parse_ping_stable:
  "ngx_nats_parse_ping s h m = Some (rc, m', s') \<Longrightarrow> rc \<noteq> NGX_NATS_PROTO_AGAIN \<Longrightarrow>
     ngx_nats_parse_ping (s @ t) h m = Some (rc, m', s' @ t)"
  by (auto simp: ngx_nats_parse_ping_def Let_def nth_append split: if_splits)

lemma parse_pong_stable:
  "ngx_nats_parse_pong s h m = Some (rc, m', s') \<Longrightarrow> rc \<noteq> NGX_NATS_PROTO_AGAIN \<Longrightarrow>
     ngx_nats_parse_pong (s @ t) h m = Some (rc, m', s' @ t)"
  by (auto simp: ngx_nats_parse_pong_def Let_def nth_append split: if_splits)

text \<open>A scan that stops before the end of the input stops there in every longer input.\<close>

lemma scan_stable:
  assumes "scan_while P s (length s) pos = Some n" and "n < length s"
  shows "scan_while P (s @ t) (length (s @ t)) pos = Some n"
  using scan_while_append [OF assms, of "length (s @ t)" t] by simp

lemma parse_err_stable:
  assumes "ngx_nats_parse_err s h m = Some (rc, m', s')" and "rc \<noteq> NGX_NATS_PROTO_AGAIN"
  shows "ngx_nats_parse_err (s @ t) h m = Some (rc, m', s' @ t)"
proof -
  from assms obtain n where n: "scan_while (\<lambda>c. c = SP) s (length s) h = Some n" "n < length s"
    by (auto simp: ngx_nats_parse_err_def Let_def bind_eq_Some_conv split: if_splits)
  note nt = scan_stable [OF n, of t]
  show ?thesis
  proof (cases "n = h")
    case True
    with assms n nt show ?thesis
      by (auto simp: ngx_nats_parse_err_def Let_def bind_eq_Some_conv list_update_append nth_append
          split: if_splits)
  next
    case False
    with assms n obtain e where e: "scan_while (\<lambda>c. c \<noteq> CR) s (length s) (n + 1) = Some e"
      "e < length s - 1"
      by (auto simp: ngx_nats_parse_err_def Let_def bind_eq_Some_conv split: if_splits)
    have "scan_while (\<lambda>c. c \<noteq> CR) (s @ t) (length (s @ t)) (n + 1) = Some e"
      using e by (intro scan_stable) auto
    with False assms n nt e show ?thesis
      by (auto simp: ngx_nats_parse_err_def Let_def bind_eq_Some_conv list_update_append nth_append
          split: if_splits)
  qed
qed

lemma parse_info_stable:
  assumes "ngx_nats_parse_info s h m = Some (rc, m', s')" and "rc \<noteq> NGX_NATS_PROTO_AGAIN"
  shows "ngx_nats_parse_info (s @ t) h m = Some (rc, m', s' @ t)"
proof -
  from assms obtain n where n: "scan_while (\<lambda>c. c = SP) s (length s) h = Some n" "n < length s"
    by (auto simp: ngx_nats_parse_info_def Let_def bind_eq_Some_conv split: if_splits)
  note nt = scan_stable [OF n, of t]
  show ?thesis
  proof (cases "n = h")
    case True
    with assms n nt show ?thesis by (auto simp: ngx_nats_parse_info_def Let_def)
  next
    case False
    with assms n obtain e where e: "scan_while (\<lambda>c. c \<noteq> CR) s (length s) (n + 1) = Some e"
      "e < length s - 1"
      by (auto simp: ngx_nats_parse_info_def Let_def bind_eq_Some_conv split: if_splits)
    have "scan_while (\<lambda>c. c \<noteq> CR) (s @ t) (length (s @ t)) (n + 1) = Some e"
      using e by (intro scan_stable) auto
    with False assms n nt e show ?thesis
      by (auto simp: ngx_nats_parse_info_def Let_def bind_eq_Some_conv list_update_append nth_append
          split: if_splits)
  qed
qed

lemma put_nuls_stable: "put_nuls m s = Some s' \<Longrightarrow> put_nuls m (s @ t) = Some (s' @ t)"
  unfolding put_nuls_def
  by (auto simp: bind_eq_Some_conv wr_append split: if_splits)

lemma msg_payload_stable:
  assumes "msg_payload s ns m = Some (rc, m', s')" and "rc \<noteq> NGX_NATS_PROTO_AGAIN"
  shows "msg_payload (s @ t) ns m = Some (rc, m', s' @ t)"
proof -
  define a a1 a2 where a: "a = u64 (int ns + m_len m)" "a1 = u64 (int ns + m_len m + 1)"
    "a2 = u64 (int ns + m_len m + 2)"
  note eq = msg_payload_def [of _ ns m, folded a, unfolded Let_def]
  note run = assms(1) [unfolded eq]
  from run assms(2) have len: "\<not> a2 > length s" "\<not> a2 > length (s @ t)"
    by (auto split: if_splits)
  with run obtain c where c: "rd s a = Some c" by (auto simp: bind_eq_Some_conv)
  show ?thesis
  proof (cases "c = CR")
    case False
    then show ?thesis unfolding eq using run len c rd_append [OF c, of t] by simp
  next
    case cr: True
    with run len c obtain d where d: "rd s a1 = Some d" by (auto simp: bind_eq_Some_conv)
    show ?thesis unfolding eq
      using run len c cr d rd_append [OF c, of t] rd_append [OF d, of t]
      by (cases "d = LF") (auto simp: bind_eq_Some_conv put_nuls_stable)
  qed
qed

lemma parse_msg_stable:
  assumes "ngx_nats_parse_msg s h m = Some (rc, m', s')" and "rc \<noteq> NGX_NATS_PROTO_AGAIN"
  shows "ngx_nats_parse_msg (s @ t) h m = Some (rc, m', s' @ t)"
proof -
  from assms(1) obtain c where c: "rd s h = Some c"
    by (auto simp: ngx_nats_parse_msg_def Let_def bind_eq_Some_conv)
  note ct = rd_append [OF c, of t]
  show ?thesis
  proof (cases "c = SP")
    case False
    with assms c ct show ?thesis by (simp add: ngx_nats_parse_msg_def Let_def)
  next
    case True
    from c have len: "usub (length s) 1 = length s - 1" "usub (length (s @ t)) 1 = length (s @ t) - 1"
      by (auto simp: rd_eq_Some)
    from True assms c len obtain n d where
      n: "scan_while (\<lambda>c. c \<noteq> CR) s (length s - 1) h = Some n" "n < length s - 1"
      and d: "rd s (n + 1) = Some d"
      by (auto simp: ngx_nats_parse_msg_def Let_def bind_eq_Some_conv split: if_splits)
    have nt: "scan_while (\<lambda>c. c \<noteq> CR) (s @ t) (length (s @ t) - 1) h = Some n"
      using scan_while_append [OF n, of "length (s @ t) - 1" t] by simp
    show ?thesis
    proof (cases "d = LF")
      case False
      with True assms c ct len n nt d rd_append [OF d, of t] show ?thesis
        by (simp add: ngx_nats_parse_msg_def Let_def)
    next
      case lf: True
      from True assms c len n d lf obtain r where
        r: "msg_fields s h n (m\<lparr>m_type := NGX_NATS_MSG_MSG\<rparr>) = Some r"
        by (auto simp: ngx_nats_parse_msg_def Let_def bind_eq_Some_conv)
      note rt = opt_leD [OF msg_fields_ext r, of t]
      show ?thesis
        using True assms c ct len n nt d rd_append [OF d, of t] lf r rt
        by (cases r) (auto simp: ngx_nats_parse_msg_def Let_def msg_payload_stable)
    qed
  qed
qed

lemma header_loop_stable:
  "header_loop s p = Some r \<Longrightarrow> r \<noteq> Inr (length s) \<Longrightarrow> p \<le> length s \<Longrightarrow>
     header_loop (s @ t) p = Some r"
proof (induction s p rule: header_loop.induct)
  case (1 s p)
  show ?case
  proof (cases "p < length s")
    case True
    then show ?thesis
      using "1.IH" [OF True, of "s ! p"] "1.prems"
      by (auto simp: header_loop.simps [of s p] header_loop.simps [of "s @ t" p] nth_append
          split: if_splits)
  next
    case False
    with "1.prems" show ?thesis by (simp add: header_loop.simps [of s p])
  qed
qed

lemma header_loop_bound: "header_loop s p = Some (Inr q) \<Longrightarrow> p \<le> length s \<Longrightarrow> q \<le> length s"
proof (induction s p rule: header_loop.induct)
  case (1 s p)
  then show ?case
    by (cases "p < length s") (auto simp: header_loop.simps [of s p] split: if_splits)
qed

lemma parse_stable:
  assumes "ngx_nats_parse ceq s = Some (rc, m, s')" and "rc \<noteq> NGX_NATS_PROTO_AGAIN"
  shows "ngx_nats_parse ceq (s @ t) = Some (rc, m, s' @ t)"
proof -
  from assms(1) obtain r where r: "header_loop s 0 = Some r"
    by (auto simp: ngx_nats_parse_def bind_eq_Some_conv)
  show ?thesis
  proof (cases r)
    case (Inl e)
    with assms r header_loop_stable [OF r, of t] show ?thesis by (simp add: ngx_nats_parse_def)
  next
    case (Inr p)
    with assms r have p: "p < length s" by (auto simp: ngx_nats_parse_def split: if_splits)
    with Inr r have rt: "header_loop (s @ t) 0 = Some (Inr p)"
      using header_loop_stable [OF r, of t] by simp
    have "take p (s @ t) = take p s" using p by simp
    with assms Inr r rt p show ?thesis
      by (auto simp: ngx_nats_parse_def parse_ok_stable parse_msg_stable parse_err_stable
          parse_ping_stable parse_pong_stable parse_info_stable split: if_splits)
  qed
qed

section \<open>Decoding a stream\<close>

datatype 'm verdict = More | Bad int | Frame 'm nat | Crash

datatype 'a status = Pending "'a list" | Failed int | Crashed

text \<open>All complete messages of the bytes at hand, and what is left.\<close>

function drain :: "('a list \<Rightarrow> 'm verdict) \<Rightarrow> 'a list \<Rightarrow> 'm list \<times> 'a status" where
  "drain parse s =
     (case parse s of
        More \<Rightarrow> ([], Pending s)
      | Bad e \<Rightarrow> ([], Failed e)
      | Crash \<Rightarrow> ([], Crashed)
      | Frame m n \<Rightarrow>
          (if n = 0 \<or> s = [] then ([m], Crashed)
           else case drain parse (drop n s) of (ms, st) \<Rightarrow> (m # ms, st)))"
  by pat_completeness auto
termination
  by (relation "measure (\<lambda>(parse, s). length s)") auto

declare drain.simps [simp del]

text \<open>The same with the stream arriving in pieces: the incomplete rest is kept for the next one.\<close>

fun feed :: "('a list \<Rightarrow> 'm verdict) \<Rightarrow> 'a list \<Rightarrow> 'a list list \<Rightarrow> 'm list \<times> 'a status" where
  "feed parse p [] = ([], Pending p)"
| "feed parse p (c # cs) =
     (case drain parse (p @ c) of
        (ms, Pending q) \<Rightarrow> (case feed parse q cs of (ms', st) \<Rightarrow> (ms @ ms', st))
      | (ms, st) \<Rightarrow> (ms, st))"

locale framed_parser =
  fixes ok :: "'a list \<Rightarrow> bool"
    and parse :: "'a list \<Rightarrow> 'm verdict"
  assumes ok_prefix: "ok (s @ t) \<Longrightarrow> ok s"
    and ok_suffix: "ok s \<Longrightarrow> ok (drop n s)"
    and no_crash: "ok s \<Longrightarrow> parse s \<noteq> Crash"
    and frame_bound: "ok s \<Longrightarrow> parse s = Frame m n \<Longrightarrow> 0 < n \<and> n \<le> length s"
    and frame_stable: "ok (s @ t) \<Longrightarrow> parse s = Frame m n \<Longrightarrow> parse (s @ t) = Frame m n"
    and bad_stable: "ok (s @ t) \<Longrightarrow> parse s = Bad e \<Longrightarrow> parse (s @ t) = Bad e"
begin

lemma drain_append:
  "ok (s @ t) \<Longrightarrow> drain parse s = (ms, st) \<Longrightarrow>
     (\<exists>q. st = Pending q \<and> parse q = More \<and> ok (q @ t)
        \<and> drain parse (s @ t) = (case drain parse (q @ t) of (ms', st') \<Rightarrow> (ms @ ms', st')))
     \<or> (\<exists>e. st = Failed e \<and> drain parse (s @ t) = (ms, st))"
proof (induction "length s" arbitrary: s ms st rule: less_induct)
  case less
  note ok = ok_prefix [OF less.prems(1)]
  show ?case
  proof (cases "parse s")
    case More
    with less.prems show ?thesis
      by (auto simp: drain.simps [of parse s] split: prod.split)
  next
    case (Bad e)
    with less.prems bad_stable [OF less.prems(1) Bad] show ?thesis
      by (auto simp: drain.simps [of parse s] drain.simps [of parse "s @ t"])
  next
    case Crash
    with no_crash [OF ok] show ?thesis by simp
  next
    case (Frame m n)
    note n = frame_bound [OF ok Frame] and ft = frame_stable [OF less.prems(1) Frame]
    obtain ms1 st1 where d: "drain parse (drop n s) = (ms1, st1)" by fastforce
    have ms: "ms = m # ms1" "st = st1"
      using less.prems(2) Frame n d by (auto simp: drain.simps [of parse s] split: if_splits)
    have "ok (drop n (s @ t))" by (rule ok_suffix [OF less.prems(1)])
    with n have okd: "ok (drop n s @ t)" by simp
    have "drain parse (s @ t) = (case drain parse (drop n s @ t) of (xs, r) \<Rightarrow> (m # xs, r))"
      using ft n by (auto simp: drain.simps [of parse "s @ t"])
    moreover have "length (drop n s) < length s" using n by (simp, linarith)
    note less.hyps [OF this okd d]
    ultimately show ?thesis unfolding ms by (elim disjE exE conjE) (auto split: prod.split)
  qed
qed

text \<open>How the stream is cut does not matter.\<close>

lemma feed_drain:
  "ok (p @ concat cs) \<Longrightarrow> parse p = More \<Longrightarrow> feed parse p cs = drain parse (p @ concat cs)"
proof (induction cs arbitrary: p)
  case Nil
  then show ?case by (simp add: drain.simps [of parse p])
next
  case (Cons c cs)
  obtain ms st where d: "drain parse (p @ c) = (ms, st)" by fastforce
  have "ok ((p @ c) @ concat cs)" using Cons.prems by simp
  from drain_append [OF this d] show ?case
  proof (elim disjE exE conjE)
    fix q
    assume "st = Pending q" "parse q = More" "ok (q @ concat cs)" and
      "drain parse ((p @ c) @ concat cs) =
        (case drain parse (q @ concat cs) of (ms', st') \<Rightarrow> (ms @ ms', st'))"
    with Cons.IH [of q] d show ?thesis by simp
  next
    fix e
    assume "st = Failed e" "drain parse ((p @ c) @ concat cs) = (ms, st)"
    with d show ?thesis by simp
  qed
qed

text \<open>A proper prefix of a message is incomplete, neither an error nor another message.\<close>

lemma prefix_more:
  assumes "ok (s @ t)" and "parse (s @ t) = Frame m (length (s @ t))" and "t \<noteq> []"
  shows "parse s = More"
proof (cases "parse s")
  case (Bad e)
  with bad_stable [OF assms(1)] assms(2) show ?thesis by simp
next
  case (Frame m' n)
  with frame_stable [OF assms(1) Frame] assms(2) have "n = length (s @ t)" by simp
  with frame_bound [OF ok_prefix [OF assms(1)] Frame] assms(3) show ?thesis by simp
next
  case Crash
  with no_crash ok_prefix [OF assms(1)] show ?thesis by simp
qed

end

section \<open>The NATS parser decodes a stream\<close>

text \<open>The caller's reading of the result: \<open>rc <= 0\<close> other than \<open>AGAIN\<close> is an error, a positive
  \<open>rc\<close> the length of the message. The frame is the message with the bytes it refers to.\<close>

definition nats_verdict ::
  "(bytes \<Rightarrow> bytes \<Rightarrow> bool) \<Rightarrow> bytes \<Rightarrow> (ngx_nats_msg \<times> bytes) verdict" where
  "nats_verdict ceq s =
     (case ngx_nats_parse ceq s of
        None \<Rightarrow> Crash
      | Some (rc, m, s') \<Rightarrow>
          (if rc = NGX_NATS_PROTO_AGAIN then More
           else if rc \<le> 0 then Bad rc
           else Frame (m, take (nat rc) s') (nat rc)))"

definition stream_ok :: "bytes \<Rightarrow> bool" where
  "stream_ok s \<longleftrightarrow> digit_runs_le 18 0 s \<and> length s < 2 ^ 62"

lemma nats_verdict_ok:
  assumes "stream_ok s"
  obtains rc m s' where "ngx_nats_parse ceq s = Some (rc, m, s')" "parsed_ok s (rc, m, s')"
  using parse_post [of s ceq] assms by (fastforce simp: stream_ok_def post_def)

lemma nats_verdict_frame:
  assumes "stream_ok s" and "nats_verdict ceq s = Frame f n"
  obtains rc m s' where "ngx_nats_parse ceq s = Some (rc, m, s')" "rc \<noteq> NGX_NATS_PROTO_AGAIN"
    "f = (m, take n s')" "n = nat rc" "0 < n" "n \<le> length s" "length s' = length s"
proof -
  obtain rc m s' where p: "ngx_nats_parse ceq s = Some (rc, m, s')" "parsed_ok s (rc, m, s')"
    using nats_verdict_ok [OF assms(1)] by blast
  with assms(2) have rc: "rc \<noteq> NGX_NATS_PROTO_AGAIN" "0 < rc" "f = (m, take n s')" "n = nat rc"
    by (auto simp: nats_verdict_def split: if_splits)
  from p(2) have "length s' = length s" "0 \<le> rc \<longrightarrow> nat rc \<le> length s"
    by (simp_all add: parsed_ok_def)
  with p(1) rc show ?thesis by (intro that [of rc m s']) auto
qed

interpretation nats: framed_parser stream_ok "nats_verdict ceq" for ceq
proof unfold_locales
  fix s t :: bytes and n e f
  show "stream_ok (s @ t) \<Longrightarrow> stream_ok s"
    by (auto simp: stream_ok_def dest: digit_runs_le_append)
  show "stream_ok s \<Longrightarrow> stream_ok (drop n s)"
    by (auto simp: stream_ok_def digit_runs_le_suffix)
  show "nats_verdict ceq s \<noteq> Crash" if "stream_ok s"
    by (rule nats_verdict_ok [OF that, of ceq]) (simp add: nats_verdict_def)
  show "0 < n \<and> n \<le> length s" if "stream_ok s" "nats_verdict ceq s = Frame f n"
    by (rule nats_verdict_frame [OF that]) simp
  assume ok: "stream_ok (s @ t)"
  then have oks: "stream_ok s" by (auto simp: stream_ok_def dest: digit_runs_le_append)
  show "nats_verdict ceq (s @ t) = Frame f n" if fr: "nats_verdict ceq s = Frame f n"
  proof -
    obtain rc m s' where p: "ngx_nats_parse ceq s = Some (rc, m, s')" "rc \<noteq> NGX_NATS_PROTO_AGAIN"
      "f = (m, take n s')" "n = nat rc" "0 < n" "n \<le> length s" "length s' = length s"
      using nats_verdict_frame [OF oks fr] by blast
    then show ?thesis using parse_stable [OF p(1,2), of t] by (simp add: nats_verdict_def)
  qed
  show "nats_verdict ceq (s @ t) = Bad e" if "nats_verdict ceq s = Bad e"
  proof -
    obtain rc m s' where p: "ngx_nats_parse ceq s = Some (rc, m, s')"
      using nats_verdict_ok [OF oks] by blast
    with that have "rc \<noteq> NGX_NATS_PROTO_AGAIN" "rc \<le> 0" "e = rc"
      by (auto simp: nats_verdict_def split: if_splits)
    with parse_stable [OF p, of t] show ?thesis by (simp add: nats_verdict_def)
  qed
qed

text \<open>
  C9: for a server byte stream in which no run of decimal digits, in subjects and payloads too, is longer
  than 18 (and which is shorter than \<open>2 ^ 62\<close> bytes), the messages decoded from it, the incomplete rest
  that is kept and the error, if any, do not depend on how the stream is cut into reads: feeding
  the pieces one after the other gives exactly what parsing the whole stream at once gives.
\<close>

theorem parse_chunking:
  assumes "digit_runs_le 18 0 (concat chunks)" and "length (concat chunks) < 2 ^ 62"
  shows "feed (nats_verdict ceq) [] chunks = drain (nats_verdict ceq) (concat chunks)"
proof -
  have "nats_verdict ceq [] = More"
    by (simp add: nats_verdict_def ngx_nats_parse_def header_loop.simps)
  then show ?thesis
    using nats.feed_drain [of "[]" chunks ceq] assms by (simp add: stream_ok_def)
qed

theorem parse_chunking_witness:
  "feed (nats_verdict casecmp) [] [''PI'', ''NG'' @ [CR], [LF] @ ''MS''] =
     drain (nats_verdict casecmp) (''PING'' @ [CR, LF] @ ''MS'')"
proof -
  have "digit_runs_le 18 0 (concat [''PI'', ''NG'' @ [CR], [LF] @ ''MS''])" by code_simp
  from parse_chunking [OF this, of casecmp] show ?thesis by simp
qed

end
