(* ===== verification/Nats_Protocol_Roundtrip.thy ===== *)
theory Nats_Protocol_Roundtrip
  imports Nats_Protocol_Stream
begin

text \<open>
  The parser against the text of the NATS protocol. \<open>msg_text\<close> is the text of a MSG as the protocol
  defines it; the parser returns its fields, whatever follows it in the buffer, and asks for more
  input on every proper prefix of it. The last section shows what the unchecked arithmetic of
  \<open>_nats_atoi\<close> does with a length field of twenty digits.
\<close>

section \<open>The text of a MSG\<close>

definition token_ok :: "bytes \<Rightarrow> bool" where
  "token_ok w \<longleftrightarrow> w \<noteq> [] \<and> list_all (\<lambda>c. c \<noteq> SP \<and> c \<noteq> CR) w
     \<and> hd w \<noteq> CHR 0x27 \<and> hd w \<noteq> CHR 0x22"

definition msg_text :: "bytes \<Rightarrow> nat \<Rightarrow> bytes option \<Rightarrow> bytes \<Rightarrow> bytes" where
  "msg_text subject sid reply payload =
     ''MSG '' @ subject @ [SP] @ dec sid
       @ (case reply of None \<Rightarrow> [] | Some r \<Rightarrow> [SP] @ r)
       @ [SP] @ dec (length payload) @ [CR, LF] @ payload @ [CR, LF]"

lemma token_ok_digits: "list_all is_digit ds \<Longrightarrow> ds \<noteq> [] \<Longrightarrow> token_ok ds"
  by (cases ds) (auto simp: token_ok_def is_digit_def list_all_iff)

lemma token_ok_dec [simp]: "token_ok (dec n)"
  by (simp add: token_ok_digits dec_digits)

section \<open>Tokens\<close>

text \<open>A token preceded by one space is found, and ends at the next space or at the end of the line.\<close>

lemma nats_token_at:
  assumes w: "token_ok w" "slice s (p + 1) e = w" "e = p + 1 + length w"
    and s: "s ! p = SP" "e \<le> lim" "lim \<le> length s" "e < lim \<Longrightarrow> s ! e = SP"
  shows "nats_token s p lim = Some (Some e, p + 1, e)"
proof -
  have nth: "s ! i = w ! (i - (p + 1))" if "p + 1 \<le> i" "i < e" for i
    using slice_nth [of "i - (p + 1)" e "p + 1" s] that w s by simp
  have e: "p + 1 < e" using w by (cases w) (auto simp: token_ok_def)
  have ok: "s ! i \<noteq> SP \<and> s ! i \<noteq> CR" if "p + 1 \<le> i" "i < e" for i
    using nth [OF that] w that by (auto simp: token_ok_def list_all_length)
  have hd: "s ! (p + 1) \<noteq> CHR 0x27" "s ! (p + 1) \<noteq> CHR 0x22"
    using nth [of "p + 1"] e w by (auto simp: token_ok_def hd_conv_nth)
  have skip: "scan_while (\<lambda>c. c = SP) s lim p = Some (p + 1)"
  proof (rule scan_while_eqI)
    show "s ! i = SP" if "p \<le> i" "i < p + 1" for i using that s by (cases "i = p") auto
    show "p + 1 < lim \<Longrightarrow> s ! (p + 1) \<noteq> SP" using ok [of "p + 1"] e by blast
  qed (use e s in auto)
  have word: "scan_while (\<lambda>c. c \<noteq> SP \<and> c \<noteq> CR) s lim (p + 1) = Some e"
    using ok e s by (intro scan_while_eqI) auto
  show ?thesis using skip word hd e s by (simp add: nats_token_def)
qed

lemma nats_token_end: "lim \<le> length s \<Longrightarrow> nats_token s lim lim = Some (Some lim, lim, lim)"
  by (simp add: nats_token_def scan_while.simps)

text \<open>A decimal number is read modulo \<open>2 ^ 64\<close>.\<close>

lemma s64_step: "s64 (s64 v * 10 + d) = s64 (v * 10 + d)"
proof -
  have "s64 v = (v + 2 ^ 63) mod 2 ^ 64 - 2 ^ 63" by (simp add: s64_def)
  then have "s64 v * 10 + d + 2 ^ 63 = ((v + 2 ^ 63) mod 2 ^ 64) * 10 + (d - 9 * 2 ^ 63)" by simp
  moreover have "(((v + 2 ^ 63) mod 2 ^ 64) * 10 + (d - 9 * 2 ^ 63)) mod 2 ^ 64 =
      ((v + 2 ^ 63) * 10 + (d - 9 * 2 ^ 63)) mod (2 ^ 64 :: int)"
    by (metis mod_add_left_eq mod_mult_left_eq)
  moreover have "(v + 2 ^ 63) * 10 + (d - 9 * 2 ^ 63) = v * 10 + d + (2 :: int) ^ 63" by simp
  ultimately show ?thesis by (simp only: s64_def)
qed

lemma nats_atoi_loop_wraps:
  assumes "i + n \<le> length s" and "list_all is_digit (slice s i (i + n))"
  shows "nats_atoi_loop s i n (s64 v) = Some (Some (s64 (dval v (slice s i (i + n)))))"
  using assms
proof (induction n arbitrary: i v)
  case 0
  then show ?case by (simp add: slice_def)
next
  case (Suc n)
  then have i: "i < length s" "i + 1 + n \<le> length s" by auto
  have sl: "slice s i (i + Suc n) = s ! i # slice s (i + 1) (i + 1 + n)"
    using i by (simp add: slice_def Cons_nth_drop_Suc [symmetric])
  have "is_digit (s ! i)" and ds: "list_all is_digit (slice s (i + 1) (i + 1 + n))"
    using Suc.prems(2) unfolding sl by simp_all
  with Suc.IH [OF i(2) ds] i show ?case
    unfolding sl by (simp add: is_digit_def [of "s ! i"] s64_step)
qed

lemma nats_atoi_dec:
  assumes "slice s i e = dec n" and "e = i + length (dec n)" and "e \<le> length s"
  shows "nats_atoi s i (e - i) = Some (Some (s64 (int n)))"
proof -
  have "nats_atoi_loop s i (length (dec n)) (s64 0) = Some (Some (s64 (dval 0 (slice s i e))))"
    using nats_atoi_loop_wraps [of i "length (dec n)" s 0] assms by (simp add: dec_digits)
  then show ?thesis using assms by (simp add: nats_atoi_def dval_dec s64_def)
qed

section \<open>The line of a MSG\<close>

text \<open>The layout of the line: where each token ends.\<close>

definition line_layout ::
  "bytes \<Rightarrow> bytes \<Rightarrow> nat \<Rightarrow> bytes option \<Rightarrow> nat \<Rightarrow> nat \<Rightarrow> nat \<Rightarrow> nat \<Rightarrow> nat \<Rightarrow> bool" where
  "line_layout s subject sid reply k a b c lim \<longleftrightarrow>
     lim < length s \<and> s ! 3 = SP \<and> s ! a = SP \<and> s ! b = SP \<and> s ! c = SP
     \<and> a = 4 + length subject \<and> slice s 4 a = subject
     \<and> b = a + 1 + length (dec sid) \<and> slice s (a + 1) b = dec sid
     \<and> c = b + (case reply of None \<Rightarrow> 0 | Some r \<Rightarrow> 1 + length r)
     \<and> (case reply of None \<Rightarrow> True | Some r \<Rightarrow> slice s (b + 1) c = r)
     \<and> lim = c + 1 + length (dec k) \<and> slice s (c + 1) lim = dec k"

definition msg_with :: "ngx_nats_msg \<Rightarrow> nat \<Rightarrow> bytes option \<Rightarrow> nat \<Rightarrow> nat \<Rightarrow> nat \<Rightarrow> ngx_nats_msg" where
  "msg_with m sid reply k a b =
     m\<lparr>m_subject := \<lparr>s_off = 4, s_len = a - 4\<rparr>, m_sid := s64 (int sid),
       m_replyto := (case reply of None \<Rightarrow> m_replyto m
                     | Some r \<Rightarrow> \<lparr>s_off = b + 1, s_len = length r\<rparr>), m_len := s64 (int k)\<rparr>"

lemma msg_fields_layout:
  assumes l: "line_layout s subject sid reply k a b c lim" and "token_ok subject"
    and r: "\<And>r. reply = Some r \<Longrightarrow> token_ok r"
  shows "msg_fields s 3 lim m = Some (Some (msg_with m sid reply k a b))"
proof -
  note L = l [unfolded line_layout_def]
  have ord: "4 \<le> a" "a < b" "b \<le> c" "c < lim" "lim < length s" using L by (auto split: option.splits)
  have "nats_token s 3 lim = Some (Some a, 3 + 1, a)"
    by (rule nats_token_at [of subject s 3 a lim]) (use L ord assms(2) in auto)
  then have t1: "nats_token s 3 lim = Some (Some a, 4, a)" by simp
  have t2: "nats_token s a lim = Some (Some b, a + 1, b)"
    by (rule nats_token_at [of "dec sid" s a b lim]) (use L ord in auto)
  have sid: "nats_atoi s (a + 1) (b - (a + 1)) = Some (Some (s64 (int sid)))"
    by (rule nats_atoi_dec [of s "a + 1" b sid]) (use L ord in auto)
  have t4: "nats_token s c lim = Some (Some lim, c + 1, lim)"
    by (rule nats_token_at [of "dec k" s c lim lim]) (use L ord in auto)
  have len: "nats_atoi s (c + 1) (lim - (c + 1)) = Some (Some (s64 (int k)))"
    by (rule nats_atoi_dec [of s "c + 1" lim k]) (use L ord in auto)
  have k: "c + 1 < lim" "a + 1 < b" "4 < a"
    using L assms(2) by (auto simp: token_ok_def)
  show ?thesis
  proof (cases reply)
    case None
    with L have c: "c = b" by simp
    show ?thesis using t1 t2 sid t4 len ord k None c
      by (simp add: msg_fields_def msg_last_def msg_with_def)
  next
    case (Some r)
    then have c: "c = b + 1 + length r" "slice s (b + 1) c = r" "token_ok r" using L r by auto
    then have t3: "nats_token s b lim = Some (Some c, b + 1, c)"
      by (intro nats_token_at [of r s b c lim]) (use L ord in auto)
    have "b + 1 < c" using c by (auto simp: token_ok_def)
    then show ?thesis
      using t1 t2 sid t3 t4 len ord k Some c nats_token_end [of lim s]
      by (simp add: msg_fields_def msg_last_def msg_with_def)
  qed
qed

section \<open>The layout of the text\<close>

lemma slice_mid: "length u = i \<Longrightarrow> length w = j - i \<Longrightarrow> slice (u @ w @ v) i j = w"
  by (auto simp: slice_def)

definition head_text :: "bytes \<Rightarrow> nat \<Rightarrow> bytes option \<Rightarrow> bytes" where
  "head_text subject sid reply =
     ''MSG '' @ subject @ [SP] @ dec sid @ (case reply of None \<Rightarrow> [] | Some r \<Rightarrow> [SP] @ r)"

definition line_text :: "bytes \<Rightarrow> nat \<Rightarrow> bytes option \<Rightarrow> nat \<Rightarrow> bytes" where
  "line_text subject sid reply k = head_text subject sid reply @ [SP] @ dec k @ [CR, LF]"

lemma msg_text_line:
  "msg_text subject sid reply payload =
     line_text subject sid reply (length payload) @ payload @ [CR, LF]"
  by (simp add: msg_text_def line_text_def head_text_def)

text \<open>The parts of the line as slices of the text.\<close>

lemma line_text_layout:
  assumes s: "s = line_text subject sid reply k @ rest"
    and a: "a = 4 + length subject" and b: "b = a + 1 + length (dec sid)"
    and c: "c = length (head_text subject sid reply)"
    and lim: "lim = c + 1 + length (dec k)"
  shows "line_layout s subject sid reply k a b c lim"
proof -
  let ?k = "dec k" and ?d = "dec sid"
  let ?r = "case reply of None \<Rightarrow> [] | Some r \<Rightarrow> [SP] @ r"
  let ?tail = "[SP] @ ?k @ [CR, LF] @ rest"
  have len: "length (head_text subject sid reply) = b + length ?r"
    using a b by (simp add: head_text_def)
  have s1: "s = ''MSG '' @ subject @ ([SP] @ ?d @ ?r @ ?tail)"
    and s2: "s = (''MSG '' @ subject @ [SP]) @ ?d @ (?r @ ?tail)"
    and s3: "s = head_text subject sid reply @ ?tail"
    and s4: "s = (head_text subject sid reply @ [SP]) @ ?k @ [CR, LF] @ rest"
    using s by (simp_all add: line_text_def head_text_def)
  have "s ! a = SP" unfolding s1 using a by (simp add: nth_append)
  moreover have "s ! c = SP" unfolding s3 using c by (simp add: nth_append)
  moreover have "s ! b = SP"
  proof (cases reply)
    case None
    then show ?thesis unfolding s3 using len by (simp add: nth_append)
  next
    case (Some r)
    then show ?thesis unfolding s2 using a b by (simp add: nth_append)
  qed
  moreover have "slice s 4 a = subject" unfolding s1 using a by (intro slice_mid) simp_all
  moreover have "slice s (a + 1) b = ?d" unfolding s2 using a b by (intro slice_mid) simp_all
  moreover have "slice s (c + 1) lim = ?k" unfolding s4 using c lim by (intro slice_mid) simp_all
  moreover have "case reply of None \<Rightarrow> True | Some r \<Rightarrow> slice s (b + 1) c = r"
  proof (cases reply)
    case (Some r)
    then have s5: "s = (''MSG '' @ subject @ [SP] @ ?d @ [SP]) @ r @ ?tail" using s1 by simp
    have "slice s (b + 1) c = r"
      unfolding s5 using a b c len Some by (intro slice_mid) simp_all
    with Some show ?thesis by simp
  qed simp
  moreover have "s ! 3 = SP" unfolding s1 by simp
  moreover have "c = b + (case reply of None \<Rightarrow> 0 | Some r \<Rightarrow> 1 + length r)"
    using c len by (simp split: option.splits)
  moreover have "lim < length s" unfolding s4 using c lim by simp
  ultimately show ?thesis unfolding line_layout_def using a b c lim by blast
qed

text \<open>The line holds no carriage return and ends with a line break.\<close>

lemma line_text_end:
  assumes s: "s = line_text subject sid reply k @ rest"
    and lim: "lim = length (head_text subject sid reply) + 1 + length (dec k)"
  shows "s ! lim = CR" and "s ! (lim + 1) = LF" and "length (line_text subject sid reply k) = lim + 2"
    and "\<And>i. token_ok subject \<Longrightarrow> (\<And>r. reply = Some r \<Longrightarrow> token_ok r) \<Longrightarrow> i < lim \<Longrightarrow> s ! i \<noteq> CR"
proof -
  let ?l = "head_text subject sid reply @ [SP] @ dec k"
  have s1: "s = ?l @ [CR, LF] @ rest" using s by (simp add: line_text_def)
  show "s ! lim = CR" "s ! (lim + 1) = LF" unfolding s1 using lim by (simp_all add: nth_append)
  show "length (line_text subject sid reply k) = lim + 2" using lim by (simp add: line_text_def)
  fix i
  assume ok: "token_ok subject" "\<And>r. reply = Some r \<Longrightarrow> token_ok r" and i: "i < lim"
  have l: "i < length ?l" using i lim by simp
  then have "s ! i = ?l ! i" unfolding s1 by (subst nth_append) simp
  then have "s ! i \<in> set ?l" using l nth_mem by metis
  moreover have "CR \<notin> set (dec n)" for n
    using token_ok_dec [of n] by (auto simp: token_ok_def list_all_iff)
  ultimately show "s ! i \<noteq> CR" using ok
    by (auto simp: head_text_def token_ok_def list_all_iff split: option.splits)
qed

lemma msg_text_body:
  assumes s: "s = msg_text subject sid reply payload @ rest"
    and lim: "lim = length (head_text subject sid reply) + 1 + length (dec (length payload))"
  shows "slice s (lim + 2) (lim + 2 + length payload) = payload"
    and "s ! (lim + 2 + length payload) = CR" and "s ! (lim + 3 + length payload) = LF"
    and "length s = lim + 4 + length payload + length rest"
proof -
  let ?l = "line_text subject sid reply (length payload)"
  have s1: "s = ?l @ payload @ [CR, LF] @ rest" using s by (simp add: msg_text_line)
  have l: "length ?l = lim + 2" using line_text_end(3) [OF refl lim] .
  show "length s = lim + 4 + length payload + length rest" unfolding s1 using l by simp
  show "slice s (lim + 2) (lim + 2 + length payload) = payload"
    unfolding s1 using l by (intro slice_mid) simp_all
  show "s ! (lim + 2 + length payload) = CR" "s ! (lim + 3 + length payload) = LF"
    unfolding s1 using l by (simp_all add: nth_append)
qed

section \<open>Parsing the text\<close>

lemma parse_MSG_header:
  assumes "casecmp_ok ceq" and "s = ''MSG '' @ v"
  shows "ngx_nats_parse ceq s = ngx_nats_parse_msg s 3 msg_zero"
proof -
  have "header_loop s 0 = Some (Inr 3)"
    using assms(2) by (simp add: header_loop.simps numeral_eq_Suc)
  moreover have "\<not> ceq (take 3 s) ''+OK''" and "ceq (take 3 s) ''MSG''"
    using assms by (auto simp: casecmp_ok_def lower_def)
  ultimately show ?thesis using assms(2) by (simp add: ngx_nats_parse_def)
qed

text \<open>Everything up to the payload: the parser reads the fields of the line and goes on with the
  payload after it, whatever the value of the length field is.\<close>

definition line_msg :: "bytes \<Rightarrow> nat \<Rightarrow> bytes option \<Rightarrow> nat \<Rightarrow> ngx_nats_msg" where
  "line_msg subject sid reply k =
     msg_with (msg_zero\<lparr>m_type := NGX_NATS_MSG_MSG\<rparr>) sid reply k
       (4 + length subject) (4 + length subject + 1 + length (dec sid))"

lemma parse_line_text:
  assumes ceq: "casecmp_ok ceq" and sub: "token_ok subject"
    and rep: "\<And>r. reply = Some r \<Longrightarrow> token_ok r" and s: "s = line_text subject sid reply k @ rest"
    and lim: "lim = length (head_text subject sid reply) + 1 + length (dec k)"
  shows "ngx_nats_parse ceq s = msg_payload s (lim + 2) (line_msg subject sid reply k)"
proof -
  note lay = line_text_layout [OF s refl refl refl lim]
  note eol = line_text_end [OF s lim]
  have L: "s ! 3 = SP" "3 \<le> lim" "lim + 2 \<le> length s" "\<not> length s - Suc 0 \<le> lim"
    using lay eol(3) s by (auto simp: line_layout_def split: option.splits)
  have cr: "i < lim \<Longrightarrow> s ! i \<noteq> CR" for i using eol(4) sub rep by blast
  have "scan_while (\<lambda>c. c \<noteq> CR) s (usub (length s) 1) 3 = Some lim"
    using cr eol(1) L by (intro scan_while_eqI) auto
  moreover have "msg_fields s 3 lim (msg_zero\<lparr>m_type := NGX_NATS_MSG_MSG\<rparr>) =
      Some (Some (line_msg subject sid reply k))"
    unfolding line_msg_def using msg_fields_layout [OF lay sub rep] by simp
  ultimately have "ngx_nats_parse_msg s 3 msg_zero = msg_payload s (lim + 2) (line_msg subject sid reply k)"
    using L eol(1,2) by (simp add: ngx_nats_parse_msg_def Let_def)
  moreover have "\<exists>v. s = ''MSG '' @ v" using s by (auto simp: line_text_def head_text_def)
  ultimately show ?thesis using parse_MSG_header [OF ceq] by auto
qed

lemma line_msg_fields:
  assumes "lim = length (head_text subject sid reply) + 1 + length (dec k)"
  shows "m_len (line_msg subject sid reply k) = s64 (int k)"
    and "m_sid (line_msg subject sid reply k) = s64 (int sid)"
    and "m_type (line_msg subject sid reply k) = NGX_NATS_MSG_MSG"
    and "m_subject (line_msg subject sid reply k) = \<lparr>s_off = 4, s_len = length subject\<rparr>"
    and "m_replyto (line_msg subject sid reply k) =
      (case reply of None \<Rightarrow> \<lparr>s_off = 0, s_len = 0\<rparr>
       | Some r \<Rightarrow> \<lparr>s_off = 4 + length subject + 1 + length (dec sid) + 1, s_len = length r\<rparr>)"
    and "4 + length subject \<le> lim"
    and "s_off (m_replyto (line_msg subject sid reply k))
      + s_len (m_replyto (line_msg subject sid reply k)) \<le> lim"
  using assms
  by (auto simp: line_msg_def msg_with_def msg_zero_def head_text_def split: option.splits)

text \<open>The message the parser returns for the text of a MSG.\<close>

definition text_msg :: "bytes \<Rightarrow> nat \<Rightarrow> bytes option \<Rightarrow> bytes \<Rightarrow> nat \<Rightarrow> ngx_nats_msg" where
  "text_msg subject sid reply payload lim =
     (line_msg subject sid reply (length payload))
     \<lparr>m_bstart := lim + 2, m_bend := lim + 2 + length payload\<rparr>"

lemma parse_msg_text:
  assumes ceq: "casecmp_ok ceq" and sub: "token_ok subject"
    and rep: "\<And>r. reply = Some r \<Longrightarrow> token_ok r"
    and s: "s = line_text subject sid reply (length payload) @ rest"
    and len: "length (msg_text subject sid reply payload) < 2 ^ 62"
    and lim: "lim = length (head_text subject sid reply) + 1 + length (dec (length payload))"
  shows "ngx_nats_parse ceq s =
    (if lim + 4 + length payload > length s
     then Some (NGX_NATS_PROTO_AGAIN, line_msg subject sid reply (length payload), s)
     else if s ! (lim + 2 + length payload) \<noteq> CR \<or> s ! (lim + 3 + length payload) \<noteq> LF
     then Some (NGX_NATS_PROTO_ERR_INVALID_MSG, line_msg subject sid reply (length payload), s)
     else Some (int (lim + 4 + length payload), text_msg subject sid reply payload lim,
          with_nuls (text_msg subject sid reply payload lim) s))"
proof -
  have "length (msg_text subject sid reply payload) = lim + 4 + length payload"
    using msg_text_body(4) [OF append_Nil2 [symmetric] lim] by simp
  then have k: "lim + 4 + length payload < 2 ^ 63" using len by simp
  note f = line_msg_fields [OF lim]
  have "m_len (line_msg subject sid reply (length payload)) = int (length payload)"
    using f(1) s64_of_nat [of "length payload"] k by simp
  note run = msg_payload_run [OF this k _ f(7) refl, of s]
  have "ngx_nats_parse ceq s = msg_payload s (lim + 2) (line_msg subject sid reply (length payload))"
    using ceq sub rep s lim by (rule parse_line_text)
  with run f(4,6) show ?thesis by (simp add: text_msg_def)
qed

lemma parse_text_back:
  assumes "casecmp_ok ceq" and "token_ok subject" and "\<forall>r. reply = Some r \<longrightarrow> token_ok r"
    and "sid < 2 ^ 63" and "length (msg_text subject sid reply payload @ rest) < 2 ^ 62"
  shows "\<exists>m s'. ngx_nats_parse ceq (msg_text subject sid reply payload @ rest) =
        Some (int (length (msg_text subject sid reply payload)), m, s')
    \<and> m_type m = NGX_NATS_MSG_MSG \<and> m_sid m = int sid \<and> m_len m = int (length payload)
    \<and> slice s' (s_off (m_subject m)) (s_off (m_subject m) + s_len (m_subject m)) = subject
    \<and> s_len (m_replyto m) = (case reply of None \<Rightarrow> 0 | Some r \<Rightarrow> length r)
    \<and> (\<forall>r. reply = Some r \<longrightarrow>
         slice s' (s_off (m_replyto m)) (s_off (m_replyto m) + s_len (m_replyto m)) = r)
    \<and> slice s' (m_bstart m) (m_bend m) = payload
    \<and> drop (length (msg_text subject sid reply payload)) s' = rest
    \<and> m_bstart m \<le> m_bend m \<and> m_bend m \<le> length s' \<and> s_len (m_subject m) = length subject
    \<and> length s' = length (msg_text subject sid reply payload @ rest)"
proof -
  define s where "s = msg_text subject sid reply payload @ rest"
  define lim where "lim = length (head_text subject sid reply) + 1 + length (dec (length payload))"
  define m where "m = text_msg subject sid reply payload lim"
  let ?a = "4 + length subject" and ?c = "length (head_text subject sid reply)"
  let ?b = "?a + 1 + length (dec sid)" and ?k = "length payload"
  have s: "s = line_text subject sid reply ?k @ payload @ [CR, LF] @ rest"
    by (simp add: s_def msg_text_line)
  note lay = line_text_layout [OF s refl refl refl lim_def, unfolded line_layout_def]
  note body = msg_text_body [OF s_def lim_def] and f = line_msg_fields [OF lim_def]
  have full: "length (msg_text subject sid reply payload) = lim + 4 + ?k"
    using body(4) s_def by simp
  have parse: "ngx_nats_parse ceq s = Some (int (lim + 4 + ?k), m, with_nuls m s)"
    using parse_msg_text [OF assms(1,2) _ s _ lim_def] assms(3,5) body
    by (simp add: m_def)
  with full have rest: "drop (lim + 4 + length payload) s = rest" unfolding s_def by simp
  have ord: "?a < ?b" "?b \<le> ?c" "?c < lim" using lay by (auto split: option.splits)
  have m: "m_subject m = \<lparr>s_off = 4, s_len = length subject\<rparr>" "m_bstart m = lim + 2"
    "m_bend m = lim + 2 + length payload" "m_sid m = int sid" "m_len m = int (length payload)"
    "m_type m = NGX_NATS_MSG_MSG"
    "reply = None \<Longrightarrow> m_replyto m = \<lparr>s_off = 0, s_len = 0\<rparr>"
    "reply = Some r \<Longrightarrow> m_replyto m = \<lparr>s_off = ?b + 1, s_len = length r\<rparr>" for r
    using f s64_of_nat [of sid] s64_of_nat [of ?k] assms(4,5) full by (simp_all add: m_def text_msg_def)
  have c: "reply = Some r \<Longrightarrow> ?c = ?b + 1 + length r \<and> slice s (?b + 1) ?c = r" for r
    using lay by auto
  have "slice (with_nuls m s) 4 ?a = subject" "slice (with_nuls m s) (lim + 2) (lim + 2 + length payload) = payload"
    "drop (lim + 4 + length payload) (with_nuls m s) = rest"
    using lay body ord rest m c
    by (auto simp: with_nuls_def Let_def slice_update_above slice_update_below split: option.splits)
  moreover have "slice (with_nuls m s) (?b + 1) ?c = r" if "reply = Some r" for r
    using c [OF that] m ord m(8) [OF that]
    by (auto simp: with_nuls_def Let_def slice_update_above slice_update_below)
  moreover have "lim + 2 + ?k \<le> length s" using full by (simp add: s_def)
  ultimately show ?thesis
    unfolding s_def [symmetric] parse full using m c by (auto split: option.splits)
qed

text \<open>
  C3: parsing is the inverse of the protocol's text. Whatever follows the text of a MSG in the
  buffer, the parser consumes exactly that text and returns its subject, its sid, its reply-to when
  it has one, and its payload, all still intact in the buffer after the terminating zero bytes are
  written, and leaves what follows alone.
\<close>

theorem parse_msg_roundtrip:
  assumes "casecmp_ok ceq" and "token_ok subject" and "\<forall>r. reply = Some r \<longrightarrow> token_ok r"
    and "sid < 2 ^ 63" and "length (msg_text subject sid reply payload @ rest) < 2 ^ 62"
  shows "\<exists>m s'. ngx_nats_parse ceq (msg_text subject sid reply payload @ rest) =
        Some (int (length (msg_text subject sid reply payload)), m, s')
    \<and> m_type m = NGX_NATS_MSG_MSG \<and> m_sid m = int sid \<and> m_len m = int (length payload)
    \<and> slice s' (s_off (m_subject m)) (s_off (m_subject m) + s_len (m_subject m)) = subject
    \<and> s_len (m_replyto m) = (case reply of None \<Rightarrow> 0 | Some r \<Rightarrow> length r)
    \<and> (\<forall>r. reply = Some r \<longrightarrow>
         slice s' (s_off (m_replyto m)) (s_off (m_replyto m) + s_len (m_replyto m)) = r)
    \<and> slice s' (m_bstart m) (m_bend m) = payload
    \<and> drop (length (msg_text subject sid reply payload)) s' = rest"
  using parse_text_back [OF assms] by blast

theorem parse_msg_roundtrip_witness:
  "\<exists>m s'. ngx_nats_parse casecmp (msg_text ''foo.bar'' 12 (Some ''inbox'') ''hi'' @ ''PING'') =
      Some (int (length (msg_text ''foo.bar'' 12 (Some ''inbox'') ''hi'')), m, s')
    \<and> slice s' (s_off (m_subject m)) (s_off (m_subject m) + s_len (m_subject m)) = ''foo.bar''
    \<and> slice s' (m_bstart m) (m_bend m) = ''hi''"
proof -
  have "token_ok ''foo.bar''" "\<forall>r. Some ''inbox'' = Some r \<longrightarrow> token_ok r" "(12 :: nat) < 2 ^ 63"
    "length (msg_text ''foo.bar'' 12 (Some ''inbox'') ''hi'' @ ''PING'') < 2 ^ 62"
    by (simp_all add: token_ok_def msg_text_def dec.simps)
  from parse_msg_roundtrip [OF casecmp_ok_casecmp this] show ?thesis by blast
qed

section \<open>Incomplete messages\<close>

lemma header_loop_more:
  "\<forall>i < length s. s ! i \<noteq> LF \<and> s ! i \<noteq> SP \<and> s ! i \<noteq> CR \<Longrightarrow> p \<le> length s \<Longrightarrow>
     header_loop s p = Some (Inr (length s))"
proof (induction s p rule: header_loop.induct)
  case (1 s p)
  show ?case unfolding header_loop.simps [of s p] using 1 by (cases "p < length s") simp_all
qed

lemma parse_msg_prefix:
  assumes ceq: "casecmp_ok ceq" and sub: "token_ok subject"
    and rep: "\<And>r. reply = Some r \<Longrightarrow> token_ok r"
    and s: "s = msg_text subject sid reply payload" and len: "length s < 2 ^ 62"
    and n: "n < length s"
  shows "\<exists>m. ngx_nats_parse ceq (take n s) = Some (NGX_NATS_PROTO_AGAIN, m, take n s)"
proof -
  let ?p = "take n s" and ?k = "length payload"
  define lim where "lim = length (head_text subject sid reply) + 1 + length (dec ?k)"
  have l: "s = line_text subject sid reply ?k @ payload @ [CR, LF]" by (simp add: s msg_text_line)
  note eol = line_text_end [OF l lim_def]
  have ls: "length s = lim + 4 + ?k" using msg_text_body(4) [OF append_Nil2 [symmetric] lim_def] s by simp
  obtain v where v: "s = ''MSG '' @ v" by (simp add: s msg_text_def)
  consider "n \<le> 3" | "3 < n" "n \<le> lim + 1" | "lim + 2 \<le> n" by linarith
  then show ?thesis
  proof cases
    case 1
    with v have "?p = take n ''MSG''" by (simp add: take_Cons' numeral_eq_Suc)
    then have "\<forall>i < length ?p. ?p ! i \<noteq> LF \<and> ?p ! i \<noteq> SP \<and> ?p ! i \<noteq> CR"
      by (auto simp: less_Suc_eq numeral_eq_Suc nth_Cons')
    from header_loop_more [OF this] show ?thesis by (simp add: ngx_nats_parse_def)
  next
    case 2
    then have "?p = ''MSG '' @ take (n - 4) v" using v by (simp add: numeral_eq_Suc take_Cons')
    then have "ngx_nats_parse ceq ?p = ngx_nats_parse_msg ?p 3 msg_zero" and "?p ! 3 = SP"
      using parse_MSG_header [OF ceq] by auto
    moreover have "i < lim \<Longrightarrow> s ! i \<noteq> CR" for i using eol(4) sub rep by blast
    then have "scan_while (\<lambda>c. c \<noteq> CR) ?p (usub (length ?p) 1) 3 = Some (n - 1)"
      using 2 n by (intro scan_while_eqI) auto
    ultimately show ?thesis using 2 n by (simp add: ngx_nats_parse_msg_def Let_def)
  next
    case 3
    then have "?p = line_text subject sid reply ?k @ take (n - (lim + 2)) (payload @ [CR, LF])"
      using eol(3) l by simp
    from parse_msg_text [OF ceq sub rep this _ lim_def] len n ls s show ?thesis by simp
  qed
qed

text \<open>
  C26: a MSG that has not arrived completely is never taken for an error or for a shorter message:
  on every proper prefix of its text the parser asks for more input and leaves the buffer as it is.
\<close>

theorem parse_msg_incomplete:
  assumes "casecmp_ok ceq" and "token_ok subject" and "\<forall>r. reply = Some r \<longrightarrow> token_ok r"
    and "length (msg_text subject sid reply payload) < 2 ^ 62"
    and "n < length (msg_text subject sid reply payload)"
  shows "\<exists>m. ngx_nats_parse ceq (take n (msg_text subject sid reply payload)) =
    Some (NGX_NATS_PROTO_AGAIN, m, take n (msg_text subject sid reply payload))"
  using parse_msg_prefix [OF assms(1,2) _ refl assms(4,5)] assms(3) by blast

theorem parse_msg_incomplete_witness:
  "\<exists>m. ngx_nats_parse casecmp (take 14 (msg_text ''a'' 1 None ''hello'')) =
    Some (NGX_NATS_PROTO_AGAIN, m, take 14 (msg_text ''a'' 1 None ''hello''))"
proof -
  have "token_ok ''a''" "\<forall>r. None = Some r \<longrightarrow> token_ok r"
    "length (msg_text ''a'' 1 None ''hello'') < 2 ^ 62" "14 < length (msg_text ''a'' 1 None ''hello'')"
    by (simp_all add: token_ok_def msg_text_def dec.simps)
  from parse_msg_incomplete [OF casecmp_ok_casecmp this] show ?thesis .
qed

section \<open>A length field that overflows\<close>

text \<open>
  C34: the length field is not checked for overflow. A MSG line whose length is \<open>2 ^ 64 - 2\<close> is
  accepted without waiting for any payload: the length is read as \<open>-2\<close>, the line's own line break
  is taken for the end of the payload, and the returned body ends two bytes before it starts.
\<close>

theorem parse_length_overflow:
  assumes "casecmp_ok ceq" and "token_ok subject"
    and "length (line_text subject sid None (2 ^ 64 - 2)) < 2 ^ 62"
  shows "\<exists>m s'. ngx_nats_parse ceq (line_text subject sid None (2 ^ 64 - 2) @ rest) =
        Some (int (length (line_text subject sid None (2 ^ 64 - 2))), m, s')
    \<and> m_type m = NGX_NATS_MSG_MSG \<and> m_len m = - 2 \<and> m_bend m + 2 = m_bstart m"
proof -
  define k :: nat where "k = 2 ^ 64 - 2"
  define s where "s = line_text subject sid None k @ rest"
  define lim where "lim = length (head_text subject sid None) + 1 + length (dec k)"
  let ?m = "line_msg subject sid None k"
  let ?m' = "?m\<lparr>m_bstart := lim + 2, m_bend := lim\<rparr>"
  note eol = line_text_end [OF s_def lim_def] and f = line_msg_fields [OF lim_def]
  have len: "m_len ?m = - 2" using f(1) by (simp add: k_def s64_def)
  have lim: "lim + 2 \<le> length s" "lim + 2 < 2 ^ 62" using eol(3) s_def assms(3) k_def by simp_all
  have u: "u64 (int (lim + 2) + m_len ?m) = lim" "u64 (int (lim + 2) + m_len ?m + 1) = lim + 1"
    "u64 (int (lim + 2) + m_len ?m + 2) = lim + 2" "s64 (int (lim + 2)) = int (lim + 2)"
    using lim len s64_of_nat [of "lim + 2"]
    by (simp_all add: u64_nonneg nat_add_distrib add.commute)
  have "ngx_nats_parse ceq s = msg_payload s (lim + 2) ?m"
    by (rule parse_line_text [OF assms(1,2) _ s_def lim_def]) simp
  moreover have "put_nuls ?m' s = Some (with_nuls ?m' s)"
    using f(4,5,6) lim by (intro put_nuls_eq) auto
  ultimately have "ngx_nats_parse ceq s = Some (int (lim + 2), ?m', with_nuls ?m' s)"
    using lim eol unfolding msg_payload_def u Let_def by simp
  then show ?thesis
    using len f(3) eol(3) unfolding s_def k_def by auto
qed

theorem parse_length_overflow_witness:
  "\<exists>m s'. ngx_nats_parse casecmp (line_text ''a'' 1 None (2 ^ 64 - 2) @ ''PING'') =
        Some (int (length (line_text ''a'' 1 None (2 ^ 64 - 2))), m, s')
    \<and> m_type m = NGX_NATS_MSG_MSG \<and> m_len m = - 2 \<and> m_bend m + 2 = m_bstart m"
proof -
  have "token_ok ''a''" "length (line_text ''a'' 1 None (2 ^ 64 - 2)) < 2 ^ 62"
    by (simp_all add: token_ok_def line_text_def head_text_def dec.simps)
  from parse_length_overflow [OF casecmp_ok_casecmp this] show ?thesis .
qed

end
