(* ===== verification/Nats_Json.thy ===== *)
theory Nats_Json
  imports Nats_Protocol
begin

text \<open>
  The JSON parser (\<open>ngx_nats_json.h\<close>, \<open>ngx_nats_json.c\<close>), function by function. The text is the
  memory \<open>t\<close>, read with \<open>rd\<close>; the string buffer \<open>pc->str\<close> is a list of cells, \<open>None\<close> being a byte
  that was allocated and not written yet. The pool functions of nginx are the parameter \<open>al\<close>: whether
  the n-th allocation succeeds; \<open>c_allocs\<close> counts them. A parse function gives \<open>Inl\<close> of the negative
  error code it returns, or \<open>Inr\<close> of the value, and the context. The outer option is \<open>None\<close> for an
  access outside the memory, a use of an unwritten byte, or fuel that ran out.
\<close>

section \<open>Codes, values and the parse context\<close>

definition NGX_NATS_JSON_ERR_ERROR :: int where "NGX_NATS_JSON_ERR_ERROR = - 1"
definition NGX_NATS_JSON_ERR_SYNTAX :: int where "NGX_NATS_JSON_ERR_SYNTAX = - 2"
definition NGX_NATS_JSON_ERR_EOF :: int where "NGX_NATS_JSON_ERR_EOF = - 3"
definition NGX_NATS_JSON_ERR_NOT_SUPPORTED :: int where "NGX_NATS_JSON_ERR_NOT_SUPPORTED = - 4"

lemmas json_codes = NGX_NATS_JSON_ERR_ERROR_def NGX_NATS_JSON_ERR_SYNTAX_def
  NGX_NATS_JSON_ERR_EOF_def NGX_NATS_JSON_ERR_NOT_SUPPORTED_def

text \<open>
  The tagged union \<open>ngx_nats_json_value_t\<close>; \<open>json_type\<close> is its \<open>type\<close> field. A double is kept as
  the text that \<open>strtod\<close> converted, which determines it.
\<close>

datatype json =
    JNull
  | JObject "(bytes \<times> json) list"
  | JArray "json list"
  | JBool bool
  | JInt int
  | JDouble bytes
  | JString bytes

fun json_type :: "json \<Rightarrow> int" where
  "json_type JNull = 1"
| "json_type (JObject fs) = 2"
| "json_type (JArray vs) = 3"
| "json_type (JBool b) = 4"
| "json_type (JInt i) = 5"
| "json_type (JDouble d) = 6"
| "json_type (JString s) = 7"

definition ngx_nats_json_type_name :: "int \<Rightarrow> string" where
  "ngx_nats_json_type_name type =
     (if type = 1 then ''Null'' else if type = 2 then ''Object'' else if type = 3 then ''Array''
      else if type = 4 then ''Boolean'' else if type = 5 then ''Integer''
      else if type = 6 then ''Double'' else if type = 7 then ''String''
      else ''<invalid JSON type>'')"

text \<open>\<open>c_text\<close> is the address of the text, which one error position is computed from.\<close>

record json_ctx =
  c_text :: nat
  c_pos :: nat
  c_istart :: nat
  c_str :: "char option list"
  c_str_cap :: nat
  c_str_pos :: nat
  c_err_pos :: nat
  c_allocs :: nat

definition pool_alloc :: "(nat \<Rightarrow> bool) \<Rightarrow> json_ctx \<Rightarrow> bool \<times> json_ctx" where
  "pool_alloc al pc = (al (c_allocs pc), pc\<lparr>c_allocs := c_allocs pc + 1\<rparr>)"

section \<open>Spaces and strings\<close>

definition is_space :: "char \<Rightarrow> bool" where
  "is_space c \<longleftrightarrow> \<not> (c \<noteq> SP \<and> c \<noteq> CR \<and> c \<noteq> LF \<and> c \<noteq> CHR 0x09)"

definition skipSpaces :: "bytes \<Rightarrow> json_ctx \<Rightarrow> (int \<times> json_ctx) option" where
  "skipSpaces t pc0 =
     (let pc = pc0\<lparr>c_istart := 2 ^ 64 - 1\<rparr> in
      do { p \<leftarrow> scan_while is_space t (length t) (c_pos pc);
           if p < length t then Some (0, pc\<lparr>c_pos := p\<rparr>)
           else Some (NGX_NATS_JSON_ERR_EOF, pc\<lparr>c_err_pos := p\<rparr>) })"

definition ngx_nats_json_ensure_str ::
  "(nat \<Rightarrow> bool) \<Rightarrow> json_ctx \<Rightarrow> nat \<Rightarrow> (int \<times> json_ctx) option" where
  "ngx_nats_json_ensure_str al pc n =
     (if usub (c_str_cap pc) (c_str_pos pc) < n
      then if c_str_cap pc \<ge> 1024 * 1024 then Some (NGX_NATS_JSON_ERR_ERROR, pc)
      else (let sz = c_str_cap pc * 2; (ok, pc1) = pool_alloc al pc in
            if \<not> ok then Some (NGX_NATS_JSON_ERR_ERROR, pc1)
            else do { old \<leftarrow> mem_get (c_str pc1) 0 (c_str_pos pc1);
                      ns \<leftarrow> mem_put (replicate sz None) 0 old;
                      Some (0, pc1\<lparr>c_str := ns, c_str_cap := sz\<rparr>) })
      else Some (0, pc))"

text \<open>The byte written for the letter after a backslash; \<open>Inl\<close> is the returned error.\<close>

definition json_escape_char :: "char \<Rightarrow> int + char" where
  "json_escape_char c =
     (if c = CHR ''b'' then Inr (CHR 0x08)
      else if c = CHR ''t'' then Inr (CHR 0x09)
      else if c = CHR ''n'' then Inr (CHR 0x0A)
      else if c = CHR ''f'' then Inr (CHR 0x0C)
      else if c = CHR ''r'' then Inr (CHR 0x0D)
      else if c = CHR 0x22 \<or> c = CHR 0x27 \<or> c = CHR 0x5C \<or> c = CHR ''/'' then Inr c
      else if c = CHR ''u'' then Inl NGX_NATS_JSON_ERR_NOT_SUPPORTED
      else Inl NGX_NATS_JSON_ERR_SYNTAX)"

text \<open>
  The top of the loop of \<open>ngx_nats_json_parse_string\<close>: room for two bytes. It gives the context and
  \<open>mspos\<close>, or the returned error.
\<close>

definition json_string_room ::
  "(nat \<Rightarrow> bool) \<Rightarrow> json_ctx \<Rightarrow> nat \<Rightarrow> nat \<Rightarrow> ((int + nat) \<times> json_ctx) option" where
  "json_string_room al pc0 nout mspos =
     (let pc = pc0\<lparr>c_str_pos := nout\<rparr> in
      if c_str_pos pc \<ge> mspos
      then do { (rc, pc1) \<leftarrow> ngx_nats_json_ensure_str al pc 2;
                if rc \<noteq> 0 then Some (Inl NGX_NATS_JSON_ERR_ERROR, pc1)
                else Some (Inr (usub (c_str_cap pc1) 2), pc1) }
      else Some (Inr mspos, pc))"

text \<open>The loop itself; \<open>Inr\<close> holds \<open>quote_found\<close>, \<open>n\<close> and \<open>nout\<close> at its end.\<close>

function json_string_loop ::
  "(nat \<Rightarrow> bool) \<Rightarrow> bytes \<Rightarrow> char \<Rightarrow> json_ctx \<Rightarrow> nat \<Rightarrow> nat \<Rightarrow> nat
     \<Rightarrow> ((int + bool \<times> nat \<times> nat) \<times> json_ctx) option" where
  "json_string_loop al t q pc n nout mspos =
     (if n < length t
      then do {
        (r, pc1) \<leftarrow> json_string_room al pc nout mspos;
        case r of Inl e \<Rightarrow> Some (Inl e, pc1)
        | Inr ms \<Rightarrow> do {
          c \<leftarrow> rd t n;
          if c = CHR 0x5C then
            (if n + 1 \<ge> length t
             then Some (Inl NGX_NATS_JSON_ERR_EOF, pc1\<lparr>c_err_pos := c_istart pc1\<rparr>)
             else do {
               d \<leftarrow> rd t (n + 1);
               case json_escape_char d of
                 Inl e \<Rightarrow> Some (Inl e, pc1\<lparr>c_err_pos := n + 2 - 2\<rparr>)
               | Inr x \<Rightarrow> do {
                   str \<leftarrow> wr (c_str pc1) nout (Some x);
                   json_string_loop al t q (pc1\<lparr>c_str := str\<rparr>) (n + 2) (nout + 1) ms } })
          else if c = q then Some (Inr (True, n + 1, nout), pc1)
          else do {
            str \<leftarrow> wr (c_str pc1) nout (Some c);
            json_string_loop al t q (pc1\<lparr>c_str := str\<rparr>) (n + 1) (nout + 1) ms } } }
      else Some (Inr (False, n, nout), pc))"
  by pat_completeness auto
termination
  by (relation "measure (\<lambda>(al, t, q, pc, n, nout, mspos). length t - n)") auto

declare json_string_loop.simps [simp del]

definition ngx_nats_json_parse_string ::
  "(nat \<Rightarrow> bool) \<Rightarrow> bytes \<Rightarrow> json_ctx \<Rightarrow> char \<Rightarrow> ((int + bytes) \<times> json_ctx) option" where
  "ngx_nats_json_parse_string al t pc0 q =
     (let pc = pc0\<lparr>c_istart := usub (c_pos pc0) 1\<rparr> in
      do { (r, pc1) \<leftarrow> json_string_loop al t q pc (c_pos pc) 0 (usub (c_str_cap pc) 2);
           case r of Inl e \<Rightarrow> Some (Inl e, pc1)
           | Inr (found, n, nout) \<Rightarrow>
             (let pc2 = pc1\<lparr>c_pos := n\<rparr> in
              if \<not> found
              then Some (Inl NGX_NATS_JSON_ERR_EOF, pc2\<lparr>c_err_pos := c_istart pc2\<rparr>)
              else (let (ok, pc3) = pool_alloc al pc2 in
                    if \<not> ok then Some (Inl NGX_NATS_JSON_ERR_ERROR, pc3)
                    else do { cells \<leftarrow> mem_get (c_str pc3) 0 nout;
                              s \<leftarrow> those cells;
                              Some (Inr s, pc3) })) })"

section \<open>Numbers\<close>

text \<open>The value of a hexadecimal digit, \<open>None\<close> for any other byte.\<close>

definition hex_digit :: "char \<Rightarrow> nat option" where
  "hex_digit c =
     (if 48 \<le> code c \<and> code c \<le> 57 then Some (nat (code c - 48))
      else if 97 \<le> code c \<and> code c \<le> 102 then Some (nat (10 + (code c - 97)))
      else if 65 \<le> code c \<and> code c \<le> 70 then Some (nat (10 + (code c - 65)))
      else None)"

text \<open>
  The loop over the hexadecimal digits from \<open>p\<close> to \<open>e\<close>; \<open>Inl\<close> holds the offset after the byte that is
  not a digit. The shift is on \<open>uint64_t\<close>.
\<close>

function json_hex_loop :: "bytes \<Rightarrow> nat \<Rightarrow> nat \<Rightarrow> nat \<Rightarrow> (nat + nat) option" where
  "json_hex_loop t p e u =
     (if p < e
      then do { c \<leftarrow> rd t p;
                case hex_digit c of
                  None \<Rightarrow> Some (Inl (p + 1))
                | Some d \<Rightarrow> json_hex_loop t (p + 1) e ((u * 2 ^ 4 + d) mod 2 ^ 64) }
      else Some (Inr u))"
  by pat_completeness auto
termination
  by (relation "measure (\<lambda>(t, p, e, u). e - p)") auto

declare json_hex_loop.simps [simp del]

definition ngx_nats_json_parse_hex :: "bytes \<Rightarrow> json_ctx \<Rightarrow> ((int + json) \<times> json_ctx) option" where
  "ngx_nats_json_parse_hex t pc0 =
     (let pc = pc0\<lparr>c_err_pos := c_istart pc0\<rparr>;
          ilen = usub (usub (c_pos pc) (c_istart pc)) 2 in
      if ilen > 16 then Some (Inl NGX_NATS_JSON_ERR_SYNTAX, pc)
      else do {
        r \<leftarrow> json_hex_loop t (c_istart pc + 2) (c_pos pc) 0;
        case r of
          Inl p \<Rightarrow> Some (Inl NGX_NATS_JSON_ERR_SYNTAX,
                     pc\<lparr>c_err_pos := c_istart pc + usub (c_text pc + p) (c_istart pc)\<rparr>)
        | Inr u \<Rightarrow> Some (Inr (JInt (s64 (int u))), pc) })"

text \<open>The loop over the decimal digits; the inner \<open>None\<close> is the return of \<open>SYNTAX\<close>.\<close>

function json_int_loop :: "bytes \<Rightarrow> nat \<Rightarrow> nat \<Rightarrow> nat \<Rightarrow> nat option option" where
  "json_int_loop t p e u =
     (if p < e
      then do { c \<leftarrow> rd t p;
                if code c < 48 \<or> code c > 57 then Some None
                else if u > 922337203685477580 then Some None
                else json_int_loop t (p + 1) e ((u * 10 + nat (code c - 48)) mod 2 ^ 64) }
      else Some (Some u))"
  by pat_completeness auto
termination
  by (relation "measure (\<lambda>(t, p, e, u). e - p)") auto

declare json_int_loop.simps [simp del]

definition ngx_nats_json_parse_int :: "bytes \<Rightarrow> json_ctx \<Rightarrow> ((int + json) \<times> json_ctx) option" where
  "ngx_nats_json_parse_int t pc0 =
     (let pc = pc0\<lparr>c_err_pos := c_istart pc0\<rparr>; ilen = usub (c_pos pc) (c_istart pc) in
      do { c \<leftarrow> rd t (c_istart pc);
           let neg = (c = CHR ''-'');
           let p = (if neg then c_istart pc + 1 else c_istart pc);
           let ilen = (if neg then usub ilen 1 else ilen);
           if ilen = 0 then Some (Inl NGX_NATS_JSON_ERR_SYNTAX, pc)
           else do {
             r \<leftarrow> json_int_loop t p (c_pos pc) 0;
             case r of None \<Rightarrow> Some (Inl NGX_NATS_JSON_ERR_SYNTAX, pc)
             | Some u \<Rightarrow>
               (if neg then
                  (if usub u 1 > 9223372036854775807 then Some (Inl NGX_NATS_JSON_ERR_SYNTAX, pc)
                   else Some (Inr (JInt (s64 (- s64 (int u)))), pc))
                else
                  (if u > 9223372036854775807 then Some (Inl NGX_NATS_JSON_ERR_SYNTAX, pc)
                   else Some (Inr (JInt (s64 (int u))), pc))) } })"

section \<open>Doubles\<close>

text \<open>
  The length of the text that the C function \<open>strtod\<close> converts: white space, a sign, and a decimal
  number with fraction and exponent, a hexadecimal number with a binary exponent, an infinity or a
  NaN (C11 7.22.1.3, in the "C" locale); 0 when there is no conversion.
\<close>

definition run :: "(char \<Rightarrow> bool) \<Rightarrow> bytes \<Rightarrow> nat" where
  "run P s = length (takeWhile P s)"

definition starts :: "(char \<Rightarrow> bool) \<Rightarrow> bytes \<Rightarrow> bool" where
  "starts P s \<longleftrightarrow> s \<noteq> [] \<and> P (hd s)"

definition mantissa_len :: "(char \<Rightarrow> bool) \<Rightarrow> bytes \<Rightarrow> nat" where
  "mantissa_len D s =
     (let a = run D s; r = drop a s in
      if starts (\<lambda>c. c = CHR ''.'') r
      then (let b = run D (tl r) in if a + b = 0 then 0 else a + 1 + b)
      else a)"

definition exponent_len :: "char \<Rightarrow> bytes \<Rightarrow> nat" where
  "exponent_len x s =
     (if starts (\<lambda>c. lower c = x) s
      then (let sgn = (if starts (\<lambda>c. c = CHR ''+'' \<or> c = CHR ''-'') (tl s) then 1 else 0);
                d = run is_digit (drop sgn (tl s)) in
            if d = 0 then 0 else 1 + sgn + d)
      else 0)"

definition decimal_len :: "bytes \<Rightarrow> nat" where
  "decimal_len s =
     (let m = mantissa_len is_digit s in
      if m = 0 then 0 else m + exponent_len (CHR ''e'') (drop m s))"

definition strtod_body :: "bytes \<Rightarrow> nat" where
  "strtod_body s =
     (if map lower (take 2 s) = ''0x'' \<and> mantissa_len (\<lambda>c. hex_digit c \<noteq> None) (drop 2 s) > 0
      then (let m = 2 + mantissa_len (\<lambda>c. hex_digit c \<noteq> None) (drop 2 s) in
            m + exponent_len (CHR ''p'') (drop m s))
      else if map lower (take 8 s) = ''infinity'' then 8
      else if map lower (take 3 s) = ''inf'' then 3
      else if map lower (take 3 s) = ''nan''
      then (let n = run (\<lambda>c. is_digit c \<or> c = CHR ''_''
                             \<or> 97 \<le> code (lower c) \<and> code (lower c) \<le> 122) (drop 4 s) in
            if starts (\<lambda>c. c = CHR ''('') (drop 3 s) \<and> starts (\<lambda>c. c = CHR '')'') (drop (4 + n) s)
            then 5 + n else 3)
      else decimal_len s)"

definition strtod_len :: "bytes \<Rightarrow> nat" where
  "strtod_len s =
     (let w = run (\<lambda>c. c = SP \<or> 9 \<le> code c \<and> code c \<le> 13) s; s1 = drop w s;
          sgn = (if starts (\<lambda>c. c = CHR ''+'' \<or> c = CHR ''-'') s1 then 1 else 0);
          n = strtod_body (drop sgn s1) in
      if n = 0 then 0 else w + sgn + n)"

definition ngx_nats_json_parse_double ::
  "bytes \<Rightarrow> json_ctx \<Rightarrow> ((int + json) \<times> json_ctx) option" where
  "ngx_nats_json_parse_double t pc =
     (let ilen = usub (c_pos pc) (c_istart pc) in
      if ilen > 31 then Some (Inl NGX_NATS_JSON_ERR_SYNTAX, pc\<lparr>c_err_pos := c_istart pc\<rparr>)
      else do {
        p \<leftarrow> mem_get t (c_istart pc) ilen;
        temp \<leftarrow> mem_put (replicate 32 NUL) 0 (p @ [NUL]);
        let endptr = strtod_len (takeWhile (\<lambda>c. c \<noteq> NUL) temp);
        if endptr \<noteq> ilen
        then Some (Inl NGX_NATS_JSON_ERR_SYNTAX, pc\<lparr>c_err_pos := c_istart pc + endptr\<rparr>)
        else Some (Inr (JDouble p), pc) })"

section \<open>Values\<close>

definition ends_primitive :: "char \<Rightarrow> bool" where
  "ends_primitive c \<longleftrightarrow> c = SP \<or> c = CHR 0x09 \<or> c = CR \<or> c = LF \<or> c = CHR '','' \<or> c = CHR '':''
     \<or> c = CHR ''['' \<or> c = CHR '']'' \<or> c = CHR ''{'' \<or> c = CHR ''}''"

text \<open>The number branch of \<open>ngx_nats_json_parse_value\<close>, from "Now the only option it's a number".\<close>

definition json_number :: "bytes \<Rightarrow> json_ctx \<Rightarrow> nat \<Rightarrow> ((int + json) \<times> json_ctx) option" where
  "json_number t pc ilen =
     do { c \<leftarrow> rd t (c_istart pc);
       if (code c < 48 \<or> code c > 57) \<and> c \<noteq> CHR ''.'' \<and> c \<noteq> CHR ''+'' \<and> c \<noteq> CHR ''-''
       then Some (Inl NGX_NATS_JSON_ERR_SYNTAX, pc\<lparr>c_err_pos := c_istart pc\<rparr>)
       else if c = CHR ''0'' \<and> ilen = 1 then Some (Inr (JInt 0), pc)
       else do {
         hex \<leftarrow> (if c = CHR ''0'' \<and> ilen > 2
                then do { x \<leftarrow> rd t (c_istart pc + 1); Some (x = CHR ''x'' \<or> x = CHR ''X'') }
                else Some False);
         if hex then ngx_nats_json_parse_hex t pc
         else do {
           n \<leftarrow> scan_while (\<lambda>c. \<not> (c = CHR ''.'' \<or> c = CHR ''e'' \<or> c = CHR ''E'')) t (c_pos pc) (c_istart pc);
           if n < c_pos pc then ngx_nats_json_parse_double t pc
           else if c = CHR ''0''
           then Some (Inl NGX_NATS_JSON_ERR_SYNTAX, pc\<lparr>c_err_pos := c_istart pc\<rparr>)
           else ngx_nats_json_parse_int t pc } } }"

text \<open>The branch for a value that is not an object, an array or a string; \<open>ceq\<close> is
  \<open>ngx_strncasecmp\<close> on the compared prefixes.\<close>

definition json_primitive ::
  "(bytes \<Rightarrow> bytes \<Rightarrow> bool) \<Rightarrow> bytes \<Rightarrow> json_ctx \<Rightarrow> ((int + json) \<times> json_ctx) option" where
  "json_primitive ceq t pc0 =
     (let pc1 = pc0\<lparr>c_istart := c_pos pc0\<rparr> in
      do { e \<leftarrow> scan_while (\<lambda>c. \<not> ends_primitive c) t (length t) (c_pos pc1);
        let pc = pc1\<lparr>c_pos := e\<rparr>;
        let ilen = usub (c_pos pc) (c_istart pc);
        if ilen = 4 then do {
          p \<leftarrow> mem_get t (c_istart pc) 4;
          if ceq p ''null'' then Some (Inr JNull, pc)
          else if ceq p ''true'' then Some (Inr (JBool True), pc)
          else json_number t pc ilen }
        else if ilen = 5 then do {
          p \<leftarrow> mem_get t (c_istart pc) 5;
          if ceq p ''false'' then Some (Inr (JBool False), pc)
          else json_number t pc ilen }
        else json_number t pc ilen })"

text \<open>
  The three mutually recursive functions, each as one step that is given the functions it calls:
  \<open>ob\<close> and \<open>ar\<close> are \<open>ngx_nats_json_parse_object\<close> and \<open>ngx_nats_json_parse_array\<close>, \<open>pv\<close> is
  \<open>ngx_nats_json_parse_value\<close>, and \<open>loop\<close> is the next iteration of the loop. A loop carries the fields
  or values pushed so far, \<open>need_field\<close> and \<open>psave\<close>.
\<close>

type_synonym 'v jparse = "json_ctx \<Rightarrow> ((int + 'v) \<times> json_ctx) option"
type_synonym 'v jloop = "json_ctx \<Rightarrow> 'v list \<Rightarrow> bool \<Rightarrow> nat \<Rightarrow> ((int + 'v list) \<times> json_ctx) option"

definition json_value_step ::
  "(bytes \<Rightarrow> bytes \<Rightarrow> bool) \<Rightarrow> (nat \<Rightarrow> bool) \<Rightarrow> bytes \<Rightarrow> (bytes \<times> json) jloop \<Rightarrow> json jloop
     \<Rightarrow> json jparse" where
  "json_value_step ceq al t ob ar pc0 =
     do { (rc, pc) \<leftarrow> skipSpaces t pc0;
       if rc \<noteq> 0 then Some (Inl rc, pc)
       else do {
         c \<leftarrow> rd t (c_pos pc);
         if c = CHR ''{'' then
           (let (ok, pc) = pool_alloc al (pc\<lparr>c_pos := c_pos pc + 1\<rparr>) in
            if \<not> ok then Some (Inl NGX_NATS_JSON_ERR_ERROR, pc)
            else let (ok, pc) = pool_alloc al pc in
            if \<not> ok then Some (Inl NGX_NATS_JSON_ERR_ERROR, pc)
            else do { (r, pc) \<leftarrow> ob (pc\<lparr>c_istart := usub (c_pos pc) 1\<rparr>) [] False 0;
                      Some (map_sum id JObject r, pc) })
         else if c = CHR ''['' then
           (let (ok, pc) = pool_alloc al (pc\<lparr>c_pos := c_pos pc + 1\<rparr>) in
            if \<not> ok then Some (Inl NGX_NATS_JSON_ERR_ERROR, pc)
            else let (ok, pc) = pool_alloc al pc in
            if \<not> ok then Some (Inl NGX_NATS_JSON_ERR_ERROR, pc)
            else do { (r, pc) \<leftarrow> ar (pc\<lparr>c_istart := usub (c_pos pc) 1\<rparr>) [] False 0;
                      Some (map_sum id JArray r, pc) })
         else if c = CHR 0x27 \<or> c = CHR 0x22 then
           (let (ok, pc) = pool_alloc al (pc\<lparr>c_pos := c_pos pc + 1\<rparr>) in
            if \<not> ok then Some (Inl NGX_NATS_JSON_ERR_ERROR, pc)
            else do { (r, pc) \<leftarrow> ngx_nats_json_parse_string al t pc c;
                      Some (map_sum id JString r, pc) })
         else json_primitive ceq t pc } }"

text \<open>A field's name and the colon, from \<open>ngx_array_push\<close> on; \<open>c\<close> is the opening quote.\<close>

definition json_field_name ::
  "(nat \<Rightarrow> bool) \<Rightarrow> bytes \<Rightarrow> char \<Rightarrow> json_ctx \<Rightarrow> ((int + bytes) \<times> json_ctx) option" where
  "json_field_name al t c pc0 =
     (let (ok, pc) = pool_alloc al pc0 in
      if \<not> ok then Some (Inl NGX_NATS_JSON_ERR_ERROR, pc)
      else do {
        (r, pc) \<leftarrow> ngx_nats_json_parse_string al t pc c;
        case r of Inl e \<Rightarrow> Some (Inl e, pc)
        | Inr name \<Rightarrow>
          if name = []
          then Some (Inl NGX_NATS_JSON_ERR_SYNTAX, pc\<lparr>c_err_pos := usub (c_pos pc) 1\<rparr>)
          else do {
            let psave = c_pos pc;
            (rc, pc) \<leftarrow> skipSpaces t pc;
            if rc \<noteq> 0 then Some (Inl NGX_NATS_JSON_ERR_EOF, pc\<lparr>c_err_pos := psave\<rparr>)
            else do {
              c \<leftarrow> rd t (c_pos pc);
              let pc = pc\<lparr>c_pos := c_pos pc + 1\<rparr>;
              if c \<noteq> CHR '':''
              then Some (Inl NGX_NATS_JSON_ERR_SYNTAX, pc\<lparr>c_err_pos := usub (c_pos pc) 1\<rparr>)
              else Some (Inr name, pc) } } })"

text \<open>What both loops do after a value: the closing bracket (\<open>None\<close>), a comma (\<open>Some psave\<close>), or
  an error.\<close>

definition json_after_item ::
  "char \<Rightarrow> bytes \<Rightarrow> json_ctx \<Rightarrow> ((int + nat option) \<times> json_ctx) option" where
  "json_after_item close t pc0 =
     do { let psave = c_pos pc0;
          (rc, pc) \<leftarrow> skipSpaces t pc0;
          if rc \<noteq> 0 then Some (Inl NGX_NATS_JSON_ERR_EOF, pc\<lparr>c_err_pos := psave\<rparr>)
          else do {
            let psave = c_pos pc;
            c \<leftarrow> rd t (c_pos pc);
            let pc = pc\<lparr>c_pos := c_pos pc + 1\<rparr>;
            if c = close then Some (Inr None, pc)
            else if c = CHR '','' then Some (Inr (Some psave), pc)
            else Some (Inl NGX_NATS_JSON_ERR_SYNTAX, pc\<lparr>c_err_pos := psave\<rparr>) } }"

definition json_object_step ::
  "(nat \<Rightarrow> bool) \<Rightarrow> bytes \<Rightarrow> json jparse \<Rightarrow> (bytes \<times> json) jloop \<Rightarrow> (bytes \<times> json) jloop" where
  "json_object_step al t pv loop pc0 fs need_field psave =
     (if c_pos pc0 < length t
      then do {
        let psave = c_pos pc0;
        (rc, pc) \<leftarrow> skipSpaces t pc0;
        if rc \<noteq> 0 then Some (Inl NGX_NATS_JSON_ERR_EOF, pc\<lparr>c_err_pos := psave\<rparr>)
        else do {
          c \<leftarrow> rd t (c_pos pc);
          let pc = pc\<lparr>c_istart := c_pos pc, c_pos := c_pos pc + 1\<rparr>;
          if c = CHR ''}'' then
            (if need_field
             then Some (Inl NGX_NATS_JSON_ERR_SYNTAX, pc\<lparr>c_err_pos := usub (c_pos pc) 1\<rparr>)
             else Some (Inr fs, pc))
          else if c \<noteq> CHR 0x27 \<and> c \<noteq> CHR 0x22
          then Some (Inl NGX_NATS_JSON_ERR_SYNTAX, pc\<lparr>c_err_pos := usub (c_pos pc) 1\<rparr>)
          else do {
            (r, pc) \<leftarrow> json_field_name al t c pc;
            case r of Inl e \<Rightarrow> Some (Inl e, pc)
            | Inr name \<Rightarrow> do {
              (r, pc) \<leftarrow> pv pc;
              case r of Inl e \<Rightarrow> Some (Inl e, pc)
              | Inr v \<Rightarrow> do {
                (r, pc) \<leftarrow> json_after_item (CHR ''}'') t pc;
                case r of Inl e \<Rightarrow> Some (Inl e, pc)
                | Inr None \<Rightarrow> Some (Inr (fs @ [(name, v)]), pc)
                | Inr (Some psave) \<Rightarrow> loop pc (fs @ [(name, v)]) True psave } } } } }
      else Some (Inl NGX_NATS_JSON_ERR_EOF, pc0\<lparr>c_err_pos := psave\<rparr>))"

definition json_array_step ::
  "(nat \<Rightarrow> bool) \<Rightarrow> bytes \<Rightarrow> json jparse \<Rightarrow> json jloop \<Rightarrow> json jloop" where
  "json_array_step al t pv loop pc0 vs need_field psave =
     (if c_pos pc0 < length t
      then do {
        let psave = c_pos pc0;
        (rc, pc) \<leftarrow> skipSpaces t pc0;
        if rc \<noteq> 0 then Some (Inl NGX_NATS_JSON_ERR_EOF, pc\<lparr>c_err_pos := psave\<rparr>)
        else do {
          c \<leftarrow> rd t (c_pos pc);
          let pc = pc\<lparr>c_istart := c_pos pc\<rparr>;
          if c = CHR '']'' then
            (if need_field then Some (Inl NGX_NATS_JSON_ERR_SYNTAX, pc\<lparr>c_err_pos := c_pos pc\<rparr>)
             else Some (Inr vs, pc\<lparr>c_pos := c_pos pc + 1\<rparr>))
          else let (ok, pc) = pool_alloc al pc in
          if \<not> ok then Some (Inl NGX_NATS_JSON_ERR_ERROR, pc)
          else do {
            (r, pc) \<leftarrow> pv pc;
            case r of Inl e \<Rightarrow> Some (Inl e, pc)
            | Inr v \<Rightarrow> do {
              (r, pc) \<leftarrow> json_after_item (CHR '']'') t pc;
              case r of Inl e \<Rightarrow> Some (Inl e, pc)
              | Inr None \<Rightarrow> Some (Inr (vs @ [v]), pc)
              | Inr (Some psave) \<Rightarrow> loop pc (vs @ [v]) True psave } } } }
      else Some (Inl NGX_NATS_JSON_ERR_EOF, pc0\<lparr>c_err_pos := psave\<rparr>))"

text \<open>The recursion, with fuel.\<close>

fun ngx_nats_json_parse_value ::
    "(bytes \<Rightarrow> bytes \<Rightarrow> bool) \<Rightarrow> (nat \<Rightarrow> bool) \<Rightarrow> bytes \<Rightarrow> nat \<Rightarrow> json jparse"
  and json_object_loop ::
    "(bytes \<Rightarrow> bytes \<Rightarrow> bool) \<Rightarrow> (nat \<Rightarrow> bool) \<Rightarrow> bytes \<Rightarrow> nat \<Rightarrow> (bytes \<times> json) jloop"
  and json_array_loop ::
    "(bytes \<Rightarrow> bytes \<Rightarrow> bool) \<Rightarrow> (nat \<Rightarrow> bool) \<Rightarrow> bytes \<Rightarrow> nat \<Rightarrow> json jloop" where
  "ngx_nats_json_parse_value ceq al t 0 = (\<lambda>pc. None)"
| "ngx_nats_json_parse_value ceq al t (Suc k) =
     json_value_step ceq al t (json_object_loop ceq al t k) (json_array_loop ceq al t k)"
| "json_object_loop ceq al t 0 = (\<lambda>pc fs need_field psave. None)"
| "json_object_loop ceq al t (Suc k) =
     json_object_step al t (ngx_nats_json_parse_value ceq al t k) (json_object_loop ceq al t k)"
| "json_array_loop ceq al t 0 = (\<lambda>pc vs need_field psave. None)"
| "json_array_loop ceq al t (Suc k) =
     json_array_step al t (ngx_nats_json_parse_value ceq al t k) (json_array_loop ceq al t k)"

section \<open>The public function and the debugging output\<close>

text \<open>
  \<open>ngx_nats_json_parse\<close>: the return value and \<open>*json\<close>, which is set on success only. \<open>addr\<close> is the
  address of the text. Every level of nesting and every element takes at least one byte of text, so
  \<open>2 * length t + 2\<close> steps of fuel are enough (see \<open>Nats_Json_Safe\<close>).
\<close>

definition json_init :: "nat \<Rightarrow> json_ctx" where
  "json_init addr =
     \<lparr>c_text = addr, c_pos = 0, c_istart = 0, c_str = replicate 1024 None, c_str_cap = 1024,
      c_str_pos = 0, c_err_pos = 2 ^ 64 - 1, c_allocs = 2\<rparr>"

definition ngx_nats_json_parse ::
  "(bytes \<Rightarrow> bytes \<Rightarrow> bool) \<Rightarrow> (nat \<Rightarrow> bool) \<Rightarrow> nat \<Rightarrow> bytes \<Rightarrow> (int \<times> json option) option" where
  "ngx_nats_json_parse ceq al addr t =
     (if length t < 1 then Some (NGX_NATS_JSON_ERR_SYNTAX, None)
      else if \<not> al 0 then Some (- 1, None)
      else if \<not> al 1 then Some (NGX_NATS_JSON_ERR_ERROR, None)
      else do {
        (r, pc) \<leftarrow> ngx_nats_json_parse_value ceq al t (2 * length t + 2) (json_init addr);
        case r of Inl rc \<Rightarrow> Some (rc, None)
        | Inr js \<Rightarrow> Some (int (c_pos pc), Some js) })"

text \<open>
  The text printed by \<open>_json_debug_print_value\<close>. A string is printed up to its first zero byte; the
  output of \<open>%f\<close> for a double is the parameter \<open>fmt\<close>.
\<close>

definition cstr :: "bytes \<Rightarrow> bytes" where
  "cstr s = takeWhile (\<lambda>c. c \<noteq> NUL) s"

fun commas :: "bytes list \<Rightarrow> bytes" where
  "commas [] = []"
| "commas [x] = x"
| "commas (x # y # xs) = x @ '','' @ commas (y # xs)"

fun json_debug_print_value :: "(bytes \<Rightarrow> bytes) \<Rightarrow> json \<Rightarrow> bytes" where
  "json_debug_print_value fmt JNull = ''null''"
| "json_debug_print_value fmt (JBool b) = (if b then ''true'' else ''false'')"
| "json_debug_print_value fmt (JInt i) =
     (if i < 0 then ''-'' @ dec (u64 (- i)) else dec (u64 i))"
| "json_debug_print_value fmt (JDouble d) = fmt d"
| "json_debug_print_value fmt (JString s) = [CHR 0x22] @ cstr s @ [CHR 0x22]"
| "json_debug_print_value fmt (JObject fs) =
     ''{'' @ commas (map (\<lambda>(n, v). [CHR 0x22] @ cstr n @ [CHR 0x22] @ '':''
                                   @ json_debug_print_value fmt v) fs) @ ''}''"
| "json_debug_print_value fmt (JArray vs) =
     ''['' @ commas (map (json_debug_print_value fmt) vs) @ '']''"

definition ngx_nats_json_debug_print :: "(bytes \<Rightarrow> bytes) \<Rightarrow> json \<Rightarrow> bytes" where
  "ngx_nats_json_debug_print fmt v =
     (if json_type v \<noteq> 2 \<and> json_type v \<noteq> 3
      then ''<error: top level object is not object nor array>'' @ [LF]
      else json_debug_print_value fmt v)"

end
