(* ===== verification/Nats_Json_Safe.thy ===== *)
theory Nats_Json_Safe
  imports Nats_Json
begin

text \<open>
  The JSON parser is memory safe and returns on every input, whatever allocations fail; what it
  returns is well formed. Strings, integers and hexadecimal numbers are compared with abstract
  specifications: \<open>unesc\<close> for the text between quotes, decimal and hexadecimal values for numbers.
\<close>

section \<open>The string buffer\<close>

definition cap_ok :: "nat \<Rightarrow> bool" where
  "cap_ok c \<longleftrightarrow> c \<in> (\<lambda>k. 2 ^ k) ` {10 .. 20}"

definition str_ok :: "json_ctx \<Rightarrow> bool" where
  "str_ok pc \<longleftrightarrow> length (c_str pc) = c_str_cap pc \<and> cap_ok (c_str_cap pc)"

lemma cap_ok_bounds: "cap_ok c \<Longrightarrow> 1024 \<le> c \<and> c \<le> 1048576"
proof -
  assume "cap_ok c"
  then obtain k where k: "10 \<le> k" "k \<le> 20" "c = 2 ^ k" by (auto simp: cap_ok_def)
  have "(2 :: nat) ^ 10 \<le> 2 ^ k" "(2 :: nat) ^ k \<le> 2 ^ 20"
    using k by (intro power_increasing; simp)+
  then show ?thesis unfolding k(3) by simp
qed

lemma cap_ok_double:
  assumes "cap_ok c" and "c < 1048576"
  shows "cap_ok (c * 2)"
proof -
  obtain k where k: "10 \<le> k" "k \<le> 20" "c = 2 ^ k" using assms by (auto simp: cap_ok_def)
  with assms(2) have "k \<noteq> 20" by auto
  with k show ?thesis unfolding cap_ok_def by (intro image_eqI [of _ _ "k + 1"]) auto
qed

lemma str_ok_cap: "str_ok pc \<Longrightarrow> 1024 \<le> c_str_cap pc \<and> c_str_cap pc \<le> 1048576"
  by (simp add: str_ok_def cap_ok_bounds)

text \<open>What no string operation touches.\<close>

definition same_place :: "json_ctx \<Rightarrow> json_ctx \<Rightarrow> bool" where
  "same_place pc pc' \<longleftrightarrow> c_pos pc' = c_pos pc \<and> c_istart pc' = c_istart pc \<and> c_text pc' = c_text pc"

lemma string_room_post:
  assumes ok: "str_ok pc" and nout: "nout \<le> c_str_cap pc - 1"
  shows "post (json_string_room al pc nout (c_str_cap pc - 2)) (\<lambda>(r, pc').
    str_ok pc' \<and> same_place pc pc' \<and> take nout (c_str pc') = take nout (c_str pc)
    \<and> (case r of Inl e \<Rightarrow> e = NGX_NATS_JSON_ERR_ERROR \<and> ((\<exists>i. \<not> al i) \<or> 1048574 < nout)
       | Inr ms \<Rightarrow> ms = c_str_cap pc' - 2 \<and> nout \<le> c_str_cap pc' - 2))"
proof -
  note cap = str_ok_cap [OF ok]
  have len: "length (c_str pc) = c_str_cap pc" using ok by (simp add: str_ok_def)
  show ?thesis
  proof (cases "c_str_cap pc - 2 < nout \<and> \<not> 1048576 \<le> c_str_cap pc")
    case True
    then have "usub (c_str_cap pc) nout < 2" "cap_ok (c_str_cap pc * 2)"
      using nout cap ok cap_ok_double by (auto simp: str_ok_def)
    with True ok len nout cap show ?thesis
      by (auto simp: json_string_room_def ngx_nats_json_ensure_str_def pool_alloc_def post_def
          mem_get_def mem_put_def str_ok_def same_place_def NGX_NATS_JSON_ERR_ERROR_def Let_def)
  next
    case False
    with ok nout cap show ?thesis
      by (auto simp: json_string_room_def ngx_nats_json_ensure_str_def post_def same_place_def
          str_ok_def NGX_NATS_JSON_ERR_ERROR_def usub_def Let_def)
  qed
qed

section \<open>Strings\<close>

text \<open>The bytes that may follow a backslash and what they stand for.\<close>

definition escapes :: "(char \<times> char) list" where
  "escapes = [(CHR ''b'', CHR 0x08), (CHR ''t'', CHR 0x09), (CHR ''n'', CHR 0x0A), (CHR ''f'', CHR 0x0C),
     (CHR ''r'', CHR 0x0D), (CHR 0x22, CHR 0x22), (CHR 0x27, CHR 0x27), (CHR 0x5C, CHR 0x5C), (CHR ''/'', CHR ''/'')]"

definition bad_escape :: "char \<Rightarrow> int" where
  "bad_escape d = (if d = CHR ''u'' then NGX_NATS_JSON_ERR_NOT_SUPPORTED else NGX_NATS_JSON_ERR_SYNTAX)"

lemma json_escape_table:
  "json_escape_char d = (case map_of escapes d of None \<Rightarrow> Inl (bad_escape d) | Some x \<Rightarrow> Inr x)"
  by (simp add: json_escape_char_def escapes_def bad_escape_def)

text \<open>The text after the opening quote: the string up to the closing quote and how many bytes it
  takes, quote included, or the error.\<close>

fun unesc :: "char \<Rightarrow> bytes \<Rightarrow> int + (bytes \<times> nat)" where
  "unesc q [] = Inl NGX_NATS_JSON_ERR_EOF"
| "unesc q (c # s) =
     (if c = CHR 0x5C then
        (case s of [] \<Rightarrow> Inl NGX_NATS_JSON_ERR_EOF
         | d # s' \<Rightarrow>
           (case map_of escapes d of None \<Rightarrow> Inl (bad_escape d)
            | Some x \<Rightarrow> map_sum id (\<lambda>(w, n). (x # w, n + 2)) (unesc q s')))
      else if c = q then Inr ([], 1)
      else map_sum id (\<lambda>(w, n). (c # w, n + 1)) (unesc q s))"

definition string_post ::
  "(nat \<Rightarrow> bool) \<Rightarrow> bytes \<Rightarrow> char \<Rightarrow> json_ctx \<Rightarrow> nat \<Rightarrow> nat
     \<Rightarrow> (int + bool \<times> nat \<times> nat) \<times> json_ctx \<Rightarrow> bool" where
  "string_post al t q pc n nout = (\<lambda>(r, pc'). str_ok pc' \<and> same_place pc pc' \<and>
     (case r of
        Inl e \<Rightarrow> unesc q (drop n t) = Inl e
          \<or> e = NGX_NATS_JSON_ERR_ERROR
            \<and> ((\<exists>i. \<not> al i) \<or> (\<forall>w k. unesc q (drop n t) = Inr (w, k) \<longrightarrow> 1048574 < nout + length w))
      | Inr (found, n', nout') \<Rightarrow>
          if found
          then n < n' \<and> n' \<le> length t \<and> (\<exists>w. unesc q (drop n t) = Inr (w, n' - n)
            \<and> nout' = nout + length w \<and> nout' \<le> c_str_cap pc' - 2
            \<and> take nout' (c_str pc') = take nout (c_str pc) @ map Some w)
          else n' = length t \<and> unesc q (drop n t) = Inl NGX_NATS_JSON_ERR_EOF))"

text \<open>One byte written.\<close>

lemma string_post_step:
  assumes un: "unesc q (drop n t) = map_sum id (\<lambda>(w, k). (x # w, k + d)) (unesc q (drop (n + d) t))"
    and room: "same_place pc pc1" "take nout (c_str pc1) = take nout (c_str pc)"
      "nout < length (c_str pc1)"
    and step: "string_post al t q (pc1\<lparr>c_str := (c_str pc1)[nout := Some x]\<rparr>) (n + d) (nout + 1) r"
  shows "string_post al t q pc n nout r"
proof -
  have tk: "take (Suc nout) ((c_str pc1)[nout := Some x]) = take nout (c_str pc) @ [Some x]"
    using room by (simp add: take_Suc_conv_app_nth)
  obtain rr pc' where r: "r = (rr, pc')" by (cases r)
  show ?thesis
  proof (cases rr)
    case (Inl e)
    then show ?thesis using step un room unfolding r string_post_def
      by (auto simp: same_place_def map_sum_def split: sum.splits)
  next
    case (Inr f)
    obtain found n' nout' where f: "f = (found, n', nout')" by (cases f)
    show ?thesis
    proof (cases found)
      case True
      with step Inr f obtain w where w: "n + d < n'" "n' \<le> length t"
        "unesc q (drop (n + d) t) = Inr (w, n' - (n + d))" "nout' = nout + 1 + length w"
        "nout' \<le> c_str_cap pc' - 2"
        "take nout' (c_str pc') = take nout (c_str pc) @ [Some x] @ map Some w"
        using tk unfolding r string_post_def by auto
      with step Inr f True un room show ?thesis unfolding r string_post_def
        by (intro conjI prod.case [THEN iffD2] case_prodI) (auto simp: same_place_def)
    next
      case False
      with step Inr f un room show ?thesis unfolding r string_post_def
        by (auto simp: same_place_def map_sum_def)
    qed
  qed
qed

lemma unesc_plain:
  assumes "n < length t" and "t ! n \<noteq> CHR 0x5C" and "t ! n \<noteq> q"
  shows "unesc q (drop n t) = map_sum id (\<lambda>(w, k). (t ! n # w, k + 1)) (unesc q (drop (n + 1) t))"
  using assms by (simp add: Cons_nth_drop_Suc [symmetric])

lemma unesc_escape:
  assumes "n + 1 < length t" and "t ! n = CHR 0x5C"
  shows "unesc q (drop n t) = (case json_escape_char (t ! (n + 1)) of Inl e \<Rightarrow> Inl e
    | Inr x \<Rightarrow> map_sum id (\<lambda>(w, k). (x # w, k + 2)) (unesc q (drop (n + 2) t)))"
proof -
  have "drop n t = t ! n # t ! (n + 1) # drop (n + 2) t"
    using assms(1) Cons_nth_drop_Suc [of n t] Cons_nth_drop_Suc [of "n + 1" t] by simp
  moreover have "n + 2 = Suc (Suc n)" by simp
  ultimately show ?thesis using assms(2)
    by (cases "map_of escapes (t ! (n + 1))") (simp_all add: json_escape_table)
qed

lemma string_loop_post:
  assumes "str_ok pc" and "nout \<le> c_str_cap pc - 1" and "n \<le> length t"
  shows "post (json_string_loop al t q pc n nout (c_str_cap pc - 2)) (string_post al t q pc n nout)"
  using assms
proof (induction "length t - n" arbitrary: n nout pc rule: less_induct)
  case less
  show ?case
  proof (cases "n < length t")
    case False
    with less.prems show ?thesis
      by (simp add: json_string_loop.simps post_def string_post_def same_place_def)
  next
    case True
    obtain r pc1 where room: "json_string_room al pc nout (c_str_cap pc - 2) = Some (r, pc1)"
      and ok: "str_ok pc1" "same_place pc pc1" "take nout (c_str pc1) = take nout (c_str pc)"
      and r: "case r of Inl e \<Rightarrow> e = NGX_NATS_JSON_ERR_ERROR \<and> ((\<exists>i. \<not> al i) \<or> 1048574 < nout)
        | Inr ms \<Rightarrow> ms = c_str_cap pc1 - 2 \<and> nout \<le> c_str_cap pc1 - 2"
      using string_room_post [OF less.prems(1,2), of al] by (auto simp: post_def)
    note eq = json_string_loop.simps [of al t q pc n nout "c_str_cap pc - 2"]
    show ?thesis
    proof (cases r)
      case (Inl e)
      with r True room ok show ?thesis unfolding eq
        by (auto simp: post_def string_post_def)
    next
      case (Inr ms)
      with r have ms: "ms = c_str_cap pc1 - 2" "nout \<le> c_str_cap pc1 - 2" by auto
      have lt: "nout < length (c_str pc1)" "nout + 1 \<le> c_str_cap pc1 - 1"
        using ok(1) ms str_ok_cap [OF ok(1)] by (auto simp: str_ok_def)
      have IH: "post (json_string_loop al t q (pc1\<lparr>c_str := (c_str pc1)[nout := Some x]\<rparr>)
          (n + d) (nout + 1) ms) (string_post al t q pc n nout)"
        if "0 < d" "n + d \<le> length t"
          "unesc q (drop n t) = map_sum id (\<lambda>(w, k). (x # w, k + d)) (unesc q (drop (n + d) t))" for x d
      proof -
        let ?pc = "pc1\<lparr>c_str := (c_str pc1)[nout := Some x]\<rparr>"
        have "str_ok ?pc" "nout + 1 \<le> c_str_cap ?pc - 1" using ok(1) lt by (simp_all add: str_ok_def)
        with that True have "post (json_string_loop al t q ?pc (n + d) (nout + 1) (c_str_cap ?pc - 2))
            (string_post al t q ?pc (n + d) (nout + 1))" by (intro less.hyps) auto
        from post_weaken [OF this string_post_step [OF that(3) ok(2,3) lt(1)]] ms(1)
        show ?thesis by simp
      qed
      consider (bs) "t ! n = CHR 0x5C" | (quote) "t ! n \<noteq> CHR 0x5C" "t ! n = q"
        | (plain) "t ! n \<noteq> CHR 0x5C" "t ! n \<noteq> q" by blast
      then show ?thesis
      proof cases
        case quote
        with True have "unesc q (drop n t) = Inr ([], 1)" by (simp add: Cons_nth_drop_Suc [symmetric])
        with quote True room Inr ms ok show ?thesis unfolding eq
          by (auto simp: post_def string_post_def)
      next
        case plain
        with True room Inr lt IH [of 1 "t ! n"] unesc_plain [OF True plain] show ?thesis
          unfolding eq by simp
      next
        case bs
        show ?thesis
        proof (cases "n + 1 < length t")
          case False
          with True bs have "unesc q (drop n t) = Inl NGX_NATS_JSON_ERR_EOF"
            by (simp add: Cons_nth_drop_Suc [symmetric])
          with False bs True room Inr ok show ?thesis unfolding eq
            by (auto simp: post_def string_post_def str_ok_def same_place_def)
        next
          case esc: True
          show ?thesis
          proof (cases "json_escape_char (t ! (n + 1))")
            case (Inl e)
            with esc bs unesc_escape [OF esc bs] True room \<open>r = Inr ms\<close> ok show ?thesis unfolding eq
              by (auto simp: post_def string_post_def str_ok_def same_place_def)
          next
            case (Inr x)
            with esc bs unesc_escape [OF esc bs] IH [of 2 x] True room \<open>r = Inr ms\<close> lt
            show ?thesis unfolding eq by simp
          qed
        qed
      qed
    qed
  qed
qed

text \<open>The result of \<open>ngx_nats_json_parse_string\<close> against the specification.\<close>

definition string_result ::
  "(nat \<Rightarrow> bool) \<Rightarrow> bytes \<Rightarrow> nat \<Rightarrow> char \<Rightarrow> (int + bytes) \<times> json_ctx \<Rightarrow> bool" where
  "string_result al t p q = (\<lambda>(r, pc'). str_ok pc' \<and>
     (case r of
        Inl e \<Rightarrow> unesc q (drop p t) = Inl e
          \<or> e = NGX_NATS_JSON_ERR_ERROR
            \<and> ((\<exists>i. \<not> al i) \<or> (\<forall>w k. unesc q (drop p t) = Inr (w, k) \<longrightarrow> 1048574 < length w))
      | Inr w \<Rightarrow> p < c_pos pc' \<and> c_pos pc' \<le> length t
          \<and> unesc q (drop p t) = Inr (w, c_pos pc' - p) \<and> length w \<le> 1048574))"

lemma those_map_Some: "those (map Some w) = Some w"
  by (induction w) auto

lemma parse_string_post:
  assumes "str_ok pc" and "c_pos pc \<le> length t"
  shows "post (ngx_nats_json_parse_string al t pc q) (string_result al t (c_pos pc) q)"
proof -
  let ?pc = "pc\<lparr>c_istart := usub (c_pos pc) 1\<rparr>"
  have ok: "str_ok ?pc" using assms(1) by (simp add: str_ok_def)
  have "usub (c_str_cap ?pc) 2 = c_str_cap ?pc - 2" using str_ok_cap [OF ok] by simp
  then obtain r pc1 where loop: "json_string_loop al t q ?pc (c_pos ?pc) 0 (usub (c_str_cap ?pc) 2) = Some (r, pc1)"
    and p: "string_post al t q ?pc (c_pos pc) 0 (r, pc1)"
    using string_loop_post [OF ok, of 0 "c_pos pc" t al q] assms(2) by (auto simp: post_def)
  show ?thesis
  proof (cases r)
    case (Inl e)
    with loop p show ?thesis
      by (auto simp: ngx_nats_json_parse_string_def post_def string_result_def string_post_def Let_def)
  next
    case (Inr f)
    obtain found n' nout' where f: "f = (found, n', nout')" by (cases f)
    show ?thesis
    proof (cases found)
      case False
      with loop p Inr f show ?thesis
        by (auto simp: ngx_nats_json_parse_string_def post_def string_result_def string_post_def
            Let_def str_ok_def)
    next
      case True
      with p Inr f obtain w where w: "str_ok pc1" "c_pos pc < n'" "n' \<le> length t"
        "unesc q (drop (c_pos pc) t) = Inr (w, n' - c_pos pc)" "nout' = length w"
        "nout' \<le> c_str_cap pc1 - 2" "take nout' (c_str pc1) = map Some w"
        by (auto simp: string_post_def)
      have len: "length w \<le> 1048574" "nout' \<le> length (c_str pc1)"
        using w str_ok_cap [OF w(1)] by (auto simp: str_ok_def)
      then have "mem_get (c_str pc1) 0 nout' = Some (map Some w)" using w by (simp add: mem_get_def)
      with loop Inr f True w len show ?thesis
        by (auto simp: ngx_nats_json_parse_string_def post_def string_result_def pool_alloc_def
            Let_def str_ok_def those_map_Some)
    qed
  qed
qed

section \<open>Integers\<close>

lemma slice_Cons: "p < e \<Longrightarrow> e \<le> length t \<Longrightarrow> slice t p e = t ! p # slice t (p + 1) e"
  by (simp add: slice_def Cons_nth_drop_Suc [symmetric] take_Cons' Suc_diff_le)

text \<open>The value of hexadecimal digits.\<close>

fun hval :: "nat \<Rightarrow> bytes \<Rightarrow> nat option" where
  "hval u [] = Some u"
| "hval u (c # cs) = (case hex_digit c of None \<Rightarrow> None | Some d \<Rightarrow> hval (u * 16 + d) cs)"

lemma hex_digit_less: "hex_digit c = Some d \<Longrightarrow> d < 16"
  by (auto simp: hex_digit_def split: if_splits)

lemma hex_loop_post:
  assumes "p \<le> e" and "e \<le> length t" and "u < 16 ^ k" and "k + (e - p) \<le> 16"
  shows "post (json_hex_loop t p e u) (\<lambda>r. case r of Inl i \<Rightarrow> hval u (slice t p e) = None \<and> p < i \<and> i \<le> e
    | Inr v \<Rightarrow> hval u (slice t p e) = Some v \<and> v < 2 ^ 64)"
  using assms
proof (induction "e - p" arbitrary: p u k)
  case 0
  then have "(16 :: nat) ^ k \<le> 16 ^ 16" by (intro power_increasing) auto
  with 0 show ?case unfolding json_hex_loop.simps [of t p e u] post_def by simp
next
  case (Suc n)
  then have p: "p < e" "p < length t" by auto
  note sl = slice_Cons [OF p(1) Suc.prems(2)]
  show ?case
  proof (cases "hex_digit (t ! p)")
    case None
    with p sl show ?thesis unfolding json_hex_loop.simps [of t p e u] post_def by simp
  next
    case (Some d)
    have d: "d < 16" using hex_digit_less [OF Some] .
    have "u * 16 + d < 16 ^ (k + 1)"
      using d Suc.prems(3) by simp
    moreover have "(16 :: nat) ^ (k + 1) \<le> 16 ^ 16"
      using Suc.prems(4) p by (intro power_increasing) auto
    ultimately have u: "u * 16 + d < 16 ^ (k + 1)" "(u * 2 ^ 4 + d) mod 2 ^ 64 = u * 16 + d"
      by simp_all
    have "post (json_hex_loop t (p + 1) e (u * 16 + d)) (\<lambda>r. case r of
        Inl i \<Rightarrow> hval (u * 16 + d) (slice t (p + 1) e) = None \<and> p + 1 < i \<and> i \<le> e
      | Inr v \<Rightarrow> hval (u * 16 + d) (slice t (p + 1) e) = Some v \<and> v < 2 ^ 64)"
      using Suc.hyps(2) Suc.prems p u by (intro Suc.hyps(1) [of "p + 1" _ "k + 1"]) auto
    then show ?thesis
      using p Some sl u unfolding json_hex_loop.simps [of t p e u]
      by (auto simp: post_def split: sum.splits)
  qed
qed

text \<open>What \<open>ngx_nats_json_parse_hex\<close> computes of the text of a number: at most sixteen digits, read
  as a 64-bit pattern.\<close>

definition json_hex :: "bytes \<Rightarrow> int + int" where
  "json_hex w =
     (if length w > 18 then Inl NGX_NATS_JSON_ERR_SYNTAX
      else case hval 0 (drop 2 w) of None \<Rightarrow> Inl NGX_NATS_JSON_ERR_SYNTAX
           | Some u \<Rightarrow> Inr (s64 (int u)))"

lemma parse_hex_post:
  assumes i: "c_istart pc + 2 \<le> c_pos pc" "c_pos pc \<le> length t"
  shows "post (ngx_nats_json_parse_hex t pc) (\<lambda>(r, pc').
    r = map_sum id JInt (json_hex (slice t (c_istart pc) (c_pos pc)))
    \<and> same_place pc pc' \<and> c_str pc' = c_str pc \<and> c_str_cap pc' = c_str_cap pc)"
proof -
  let ?w = "slice t (c_istart pc) (c_pos pc)"
  have w: "length ?w = c_pos pc - c_istart pc" "drop 2 ?w = slice t (c_istart pc + 2) (c_pos pc)"
    using i by (simp_all add: slice_def drop_take add.commute)
  show ?thesis
  proof (cases "length ?w > 18")
    case True
    with i w have "16 < c_pos pc - Suc (Suc (c_istart pc))" by linarith
    with True i w show ?thesis
      by (simp add: ngx_nats_json_parse_hex_def Let_def post_def json_hex_def same_place_def)
  next
    case False
    then have "post (json_hex_loop t (c_istart pc + 2) (c_pos pc) 0) (\<lambda>r. case r of
        Inl i \<Rightarrow> hval 0 (drop 2 ?w) = None \<and> c_istart pc + 2 < i \<and> i \<le> c_pos pc
      | Inr v \<Rightarrow> hval 0 (drop 2 ?w) = Some v \<and> v < 2 ^ 64)"
      unfolding w(2) using i w(1) by (intro hex_loop_post [of _ _ _ _ 0]) auto
    then obtain r where r: "json_hex_loop t (c_istart pc + 2) (c_pos pc) 0 = Some r"
      "case r of Inl i \<Rightarrow> hval 0 (drop 2 ?w) = None \<and> c_istart pc + 2 < i \<and> i \<le> c_pos pc
       | Inr v \<Rightarrow> hval 0 (drop 2 ?w) = Some v \<and> v < 2 ^ 64" by (auto simp: post_def)
    have "\<not> usub (usub (c_pos pc) (c_istart pc)) 2 > 16" using False i w(1) by simp
    with False r w(1) show ?thesis
      by (cases r) (auto simp: ngx_nats_json_parse_hex_def Let_def post_def json_hex_def same_place_def)
  qed
qed

text \<open>Decimal numbers.\<close>

lemma int_loop_post:
  assumes "p \<le> e" and "e \<le> length t" and "u \<le> 9223372036854775809"
  shows "post (json_int_loop t p e u) (\<lambda>r. case r of
      None \<Rightarrow> \<not> list_all is_digit (slice t p e) \<or> 9223372036854775809 < dval (int u) (slice t p e)
    | Some v \<Rightarrow> list_all is_digit (slice t p e) \<and> int v = dval (int u) (slice t p e)
        \<and> v \<le> 9223372036854775809)"
  using assms
proof (induction "e - p" arbitrary: p u)
  case 0
  then show ?case unfolding json_int_loop.simps [of t p e u] post_def by simp
next
  case (Suc n)
  then have p: "p < e" "p < length t" by auto
  note sl = slice_Cons [OF p(1) Suc.prems(2)]
  let ?ds = "slice t (p + 1) e"
  show ?case
  proof (cases "is_digit (t ! p) \<and> u \<le> 922337203685477580")
    case True
    then have d: "48 \<le> code (t ! p)" "code (t ! p) \<le> 57" by (auto simp: is_digit_def)
    then have d9: "nat (code (t ! p) - 48) \<le> 9" by simp
    define u' where "u' = u * 10 + nat (code (t ! p) - 48)"
    have u': "u' \<le> 9223372036854775809" "u' mod 2 ^ 64 = u'"
      "int u' = int u * 10 + (code (t ! p) - 48)"
      using True d d9 by (auto simp: u'_def)
    have "post (json_int_loop t (p + 1) e u') (\<lambda>r. case r of
        None \<Rightarrow> \<not> list_all is_digit ?ds \<or> 9223372036854775809 < dval (int u') ?ds
      | Some v \<Rightarrow> list_all is_digit ?ds \<and> int v = dval (int u') ?ds \<and> v \<le> 9223372036854775809)"
      using Suc.hyps(2) Suc.prems p u' by (intro Suc.hyps(1)) auto
    then show ?thesis
      unfolding json_int_loop.simps [of t p e u] sl u'(3) using p True d u'
      by (auto simp: u'_def [symmetric] post_def split: option.splits)
  next
    case False
    have "9223372036854775809 < dval (int u) (slice t p e)"
      if "list_all is_digit (slice t p e)" "922337203685477580 < u"
    proof -
      have "is_digit (t ! p)" and ds: "list_all is_digit ?ds" using that(1) sl by simp_all
      then have d: "48 \<le> code (t ! p)" by (simp add: is_digit_def)
      with dval_bounds [OF ds, of "int u * 10 + (code (t ! p) - 48)"] that(2)
      show ?thesis unfolding sl by simp
    qed
    with False p sl show ?thesis
      unfolding json_int_loop.simps [of t p e u]
      by (auto simp: post_def is_digit_def [of "t ! p"] not_le)
  qed
qed

lemma int_loop_cases:
  assumes "p \<le> e" and "e \<le> length t"
  obtains r where "json_int_loop t p e 0 = Some r"
    "r = None \<Longrightarrow> \<not> list_all is_digit (slice t p e) \<or> 9223372036854775809 < dval 0 (slice t p e)"
    "\<And>v. r = Some v \<Longrightarrow> list_all is_digit (slice t p e) \<and> int v = dval 0 (slice t p e)
       \<and> v \<le> 9223372036854775809"
  using int_loop_post [OF assms, of 0] by (auto simp: post_def split: option.splits)

text \<open>What \<open>ngx_nats_json_parse_int\<close> computes of the text of a number.\<close>

definition json_int :: "bytes \<Rightarrow> int + int" where
  "json_int w =
     (if starts (\<lambda>c. c = CHR ''-'') w
      then (if tl w \<noteq> [] \<and> list_all is_digit (tl w) \<and> 1 \<le> dval 0 (tl w) \<and> dval 0 (tl w) \<le> 2 ^ 63
            then Inr (- dval 0 (tl w)) else Inl NGX_NATS_JSON_ERR_SYNTAX)
      else if list_all is_digit w \<and> dval 0 w < 2 ^ 63 then Inr (dval 0 w)
      else Inl NGX_NATS_JSON_ERR_SYNTAX)"

lemma s64_neg: "v \<le> 2 ^ 63 \<Longrightarrow> s64 (- s64 (int v)) = - int v"
proof (cases "v = 2 ^ 63")
  case False
  assume "v \<le> 2 ^ 63"
  with False have "v < 2 ^ 63" by linarith
  then show ?thesis using s64_of_nat [of v] by (simp add: s64_id)
qed (simp add: s64_def)

lemma usub_range: "v \<le> 9223372036854775809 \<Longrightarrow> usub v 1 > 9223372036854775807 \<longleftrightarrow> \<not> (1 \<le> v \<and> v \<le> 2 ^ 63)"
  by (auto simp: usub_def)

lemma parse_int_post:
  assumes i: "c_istart pc < c_pos pc" "c_pos pc \<le> length t"
  shows "post (ngx_nats_json_parse_int t pc) (\<lambda>(r, pc').
    r = map_sum id JInt (json_int (slice t (c_istart pc) (c_pos pc)))
    \<and> same_place pc pc' \<and> c_str pc' = c_str pc \<and> c_str_cap pc' = c_str_cap pc)"
proof -
  let ?w = "slice t (c_istart pc) (c_pos pc)" and ?c = "t ! c_istart pc"
  have w: "?w = ?c # slice t (c_istart pc + 1) (c_pos pc)" using slice_Cons [OF i] .
  have st: "starts (\<lambda>c. c = CHR ''-'') ?w \<longleftrightarrow> ?c = CHR ''-''" unfolding w by (simp add: starts_def)
  have sz: "length ?w = c_pos pc - c_istart pc" using i by simp
  show ?thesis
  proof (cases "?c = CHR ''-''")
    case True
    have t: "tl ?w = slice t (c_istart pc + 1) (c_pos pc)" unfolding w by simp
    obtain r where r: "json_int_loop t (c_istart pc + 1) (c_pos pc) 0 = Some r"
      "r = None \<Longrightarrow> \<not> list_all is_digit (tl ?w) \<or> 9223372036854775809 < dval 0 (tl ?w)"
      "\<And>v. r = Some v \<Longrightarrow> list_all is_digit (tl ?w) \<and> int v = dval 0 (tl ?w) \<and> v \<le> 9223372036854775809"
      unfolding t by (rule int_loop_cases [of "c_istart pc + 1" "c_pos pc" t]) (use i in auto)
    have e: "tl ?w = [] \<longleftrightarrow> c_pos pc - c_istart pc - 1 = 0" using sz by (simp flip: length_0_conv)
    have res: "json_int ?w = (case r of None \<Rightarrow> Inl NGX_NATS_JSON_ERR_SYNTAX
      | Some v \<Rightarrow> if usub v 1 > 9223372036854775807 then Inl NGX_NATS_JSON_ERR_SYNTAX
                 else Inr (s64 (- s64 (int v))))" if "tl ?w \<noteq> []"
    proof (cases r)
      case None
      with r(2) that True st show ?thesis by (auto simp: json_int_def)
    next
      case (Some v)
      from r(3) [OF this] have v: "list_all is_digit (tl ?w)" "dval 0 (tl ?w) = int v"
        "v \<le> 9223372036854775809" by auto
      have "1 \<le> int v \<and> int v \<le> 2 ^ 63 \<longleftrightarrow> 1 \<le> v \<and> v \<le> 2 ^ 63" by auto
      with v(1,2) True st that usub_range [OF v(3)] s64_neg [of v] show ?thesis
        unfolding json_int_def Some by simp
    qed
    have "json_int ?w = Inl NGX_NATS_JSON_ERR_SYNTAX" if "tl ?w = []"
      using that True st by (simp add: json_int_def)
    with res r(1) True i e show ?thesis
      by (cases "tl ?w = []"; cases r)
        (simp_all add: ngx_nats_json_parse_int_def Let_def post_def same_place_def)
  next
    case False
    obtain r where r: "json_int_loop t (c_istart pc) (c_pos pc) 0 = Some r"
      "r = None \<Longrightarrow> \<not> list_all is_digit ?w \<or> 9223372036854775809 < dval 0 ?w"
      "\<And>v. r = Some v \<Longrightarrow> list_all is_digit ?w \<and> int v = dval 0 ?w \<and> v \<le> 9223372036854775809"
      by (rule int_loop_cases [of "c_istart pc" "c_pos pc" t]) (use i in auto)
    have "json_int ?w = (case r of None \<Rightarrow> Inl NGX_NATS_JSON_ERR_SYNTAX
      | Some v \<Rightarrow> if v > 9223372036854775807 then Inl NGX_NATS_JSON_ERR_SYNTAX
                 else Inr (s64 (int v)))"
    proof (cases r)
      case None
      with r(2) False st show ?thesis by (auto simp: json_int_def)
    next
      case (Some v)
      from r(3) [OF this] have v: "list_all is_digit ?w" "dval 0 ?w = int v"
        "v \<le> 9223372036854775809" by auto
      then show ?thesis using False st s64_of_nat [of v] unfolding json_int_def Some by simp
    qed
    with r(1) False i show ?thesis
      by (cases r) (simp_all add: ngx_nats_json_parse_int_def Let_def post_def same_place_def)
  qed
qed

section \<open>Doubles\<close>

lemma run_le: "run P s \<le> length s"
  by (simp add: run_def length_takeWhile_le)

lemma starts_le: "starts P s \<Longrightarrow> 1 \<le> length s"
  by (cases s) (simp_all add: starts_def)

lemma mantissa_len_le: "mantissa_len D s \<le> length s"
proof (cases "starts (\<lambda>c. c = CHR ''.'') (drop (run D s) s)")
  case True
  have "run D (tl (drop (run D s) s)) \<le> length s - run D s - 1"
    using run_le [of D "tl (drop (run D s) s)"] by simp
  then show ?thesis using starts_le [OF True] True
    by (simp add: mantissa_len_def Let_def) arith
next
  case False
  then show ?thesis using run_le [of D s] by (simp add: mantissa_len_def)
qed

definition sign_len :: "bytes \<Rightarrow> nat" where
  "sign_len s = (if starts (\<lambda>c. c = CHR ''+'' \<or> c = CHR ''-'') s then 1 else 0)"

lemma sign_len_le: "sign_len s \<le> length s"
  using starts_le [of _ s] by (simp add: sign_len_def)

lemma exponent_len_le: "exponent_len x s \<le> length s"
proof (cases "starts (\<lambda>c. lower c = x) s")
  case True
  let ?g = "sign_len (tl s)"
  have "run is_digit (drop ?g (tl s)) \<le> length s - 1 - ?g"
    using run_le [of is_digit "drop ?g (tl s)"] by simp
  with sign_len_le [of "tl s"] starts_le [OF True] True show ?thesis
    by (simp add: exponent_len_def Let_def flip: sign_len_def) arith
qed (simp add: exponent_len_def)

lemma decimal_len_le: "decimal_len s \<le> length s"
  using mantissa_len_le [of is_digit s]
    exponent_len_le [of "CHR ''e''" "drop (mantissa_len is_digit s) s"]
  by (auto simp: decimal_len_def Let_def)

lemma strtod_body_le: "strtod_body s \<le> length s"
proof -
  let ?D = "\<lambda>c. hex_digit c \<noteq> None"
  let ?m = "2 + mantissa_len ?D (drop 2 s)"
  have hex: "?m + exponent_len (CHR ''p'') (drop ?m s) \<le> length s"
    if "0 < mantissa_len ?D (drop 2 s)"
    using that mantissa_len_le [of ?D "drop 2 s"] exponent_len_le [of "CHR ''p''" "drop ?m s"] by auto
  have tk: "k \<le> length s" if "map lower (take k s) = w" "length w = k" for k w
    using that by (auto dest: arg_cong [where f = length])
  show ?thesis
    using hex tk [of 8 "''infinity''"] tk [of 3 "''inf''"] tk [of 3 "''nan''"] decimal_len_le [of s]
    by (auto simp: strtod_body_def Let_def dest: starts_le)
qed

lemma strtod_len_le: "strtod_len s \<le> length s"
proof -
  let ?w = "run (\<lambda>c. c = SP \<or> 9 \<le> code c \<and> code c \<le> 13) s"
  let ?g = "sign_len (drop ?w s)"
  have "?w \<le> length s" by (rule run_le)
  moreover have "?g \<le> length s - ?w" using sign_len_le [of "drop ?w s"] by simp
  moreover have "strtod_body (drop ?g (drop ?w s)) \<le> length s - ?w - ?g"
    using strtod_body_le [of "drop ?g (drop ?w s)"] by simp
  ultimately have "?w + ?g + strtod_body (drop ?g (drop ?w s)) \<le> length s" by linarith
  then show ?thesis by (simp add: strtod_len_def Let_def flip: sign_len_def)
qed

lemma takeWhile_stop: "\<not> P c \<Longrightarrow> takeWhile P (w @ [c] @ zs) = takeWhile P w"
  by (induction w) auto

lemma takeWhile_less: "\<exists>x \<in> set s. \<not> P x \<Longrightarrow> length (takeWhile P s) < length s"
  by (induction s) auto

text \<open>The terminated copy in the array \<open>temp\<close> of 32 bytes.\<close>

lemma temp_string:
  assumes "length w \<le> 31"
  shows "\<exists>zs. mem_put (replicate 32 NUL) 0 (w @ [NUL]) = Some (w @ [NUL] @ zs)"
proof -
  have "mem_put (replicate n NUL) 0 (w @ [NUL]) = Some (w @ [NUL] @ replicate (n - (length w + 1)) NUL)"
    if "length w < n" for n using that by (simp add: mem_put_def)
  from this [of 32] assms show ?thesis by auto
qed

lemma parse_double_post:
  assumes i: "c_istart pc < c_pos pc" "c_pos pc \<le> length t"
  shows "post (ngx_nats_json_parse_double t pc) (\<lambda>(r, pc').
    (let w = slice t (c_istart pc) (c_pos pc) in
      r = (if length w \<le> 31 \<and> strtod_len w = length w \<and> NUL \<notin> set w then Inr (JDouble w)
           else Inl NGX_NATS_JSON_ERR_SYNTAX))
    \<and> same_place pc pc' \<and> c_str pc' = c_str pc \<and> c_str_cap pc' = c_str_cap pc)"
proof -
  let ?w = "slice t (c_istart pc) (c_pos pc)" and ?n = "c_pos pc - c_istart pc"
  let ?z = "takeWhile (\<lambda>c. c \<noteq> NUL) ?w"
  have w: "mem_get t (c_istart pc) ?n = Some ?w" "length ?w = ?n"
    using i by (simp_all add: mem_get_def slice_def)
  have tw: "takeWhile (\<lambda>c. c \<noteq> NUL) (?w @ [NUL] @ zs) = ?z" for zs
    by (rule takeWhile_stop) simp
  have z: "strtod_len ?z = ?n \<longleftrightarrow> strtod_len ?w = length ?w \<and> NUL \<notin> set ?w"
  proof (cases "NUL \<in> set ?w")
    case True
    then have "length ?z < length ?w" by (intro takeWhile_less) auto
    with True strtod_len_le [of ?z] w(2) show ?thesis by auto
  next
    case False
    then have "?z = ?w" by (auto simp: takeWhile_eq_all_conv)
    then show ?thesis unfolding \<open>?z = ?w\<close> using False w(2) by simp
  qed
  show ?thesis
  proof (cases "?n \<le> 31")
    case True
    obtain zs where "mem_put (replicate 32 NUL) 0 (?w @ [NUL]) = Some (?w @ [NUL] @ zs)"
      using temp_string [of ?w] True w(2) by auto
    with True i w tw [of zs] z show ?thesis
      by (simp add: ngx_nats_json_parse_double_def Let_def post_def same_place_def)
  next
    case False
    with i w show ?thesis
      by (simp add: ngx_nats_json_parse_double_def Let_def post_def same_place_def)
  qed
qed

section \<open>Values\<close>

text \<open>What a parsed value satisfies.\<close>

fun json_ok :: "json \<Rightarrow> bool" where
  "json_ok JNull = True"
| "json_ok (JBool b) = True"
| "json_ok (JInt i) = (- (2 ^ 63) \<le> i \<and> i < 2 ^ 63)"
| "json_ok (JDouble d) = (0 < length d \<and> length d \<le> 31 \<and> strtod_len d = length d)"
| "json_ok (JString s) = (length s \<le> 1048574)"
| "json_ok (JArray vs) = list_all json_ok vs"
| "json_ok (JObject fs) =
     list_all (\<lambda>(n, v). 0 < length n \<and> length n \<le> 1048574 \<and> json_ok v) fs"

definition json_error :: "int \<Rightarrow> bool" where
  "json_error e \<longleftrightarrow> e \<in> {NGX_NATS_JSON_ERR_ERROR, NGX_NATS_JSON_ERR_SYNTAX,
     NGX_NATS_JSON_ERR_EOF, NGX_NATS_JSON_ERR_NOT_SUPPORTED}"

lemma json_error_codes [simp]:
  "json_error NGX_NATS_JSON_ERR_ERROR" "json_error NGX_NATS_JSON_ERR_SYNTAX"
  "json_error NGX_NATS_JSON_ERR_EOF" "json_error NGX_NATS_JSON_ERR_NOT_SUPPORTED"
  by (simp_all add: json_error_def)

definition result_ok ::
  "('v \<Rightarrow> bool) \<Rightarrow> bytes \<Rightarrow> nat \<Rightarrow> (int + 'v) \<times> json_ctx \<Rightarrow> bool" where
  "result_ok ok t p = (\<lambda>(r, pc'). str_ok pc' \<and>
     (case r of Inl e \<Rightarrow> json_error e
      | Inr v \<Rightarrow> p < c_pos pc' \<and> c_pos pc' \<le> length t \<and> ok v))"

lemma result_ok_Inl [simp]: "result_ok ok t p (Inl e, pc) \<longleftrightarrow> str_ok pc \<and> json_error e"
  and result_ok_Inr [simp]: "result_ok ok t p (Inr v, pc) \<longleftrightarrow>
    str_ok pc \<and> p < c_pos pc \<and> c_pos pc \<le> length t \<and> ok v"
  by (simp_all add: result_ok_def)

lemma str_ok_updates [simp]:
  "str_ok (pc\<lparr>c_pos := p\<rparr>) = str_ok pc" "str_ok (pc\<lparr>c_istart := p\<rparr>) = str_ok pc"
  "str_ok (pc\<lparr>c_err_pos := p\<rparr>) = str_ok pc" "str_ok (pc\<lparr>c_allocs := p\<rparr>) = str_ok pc"
  by (simp_all add: str_ok_def)

lemma str_ok_same: "str_ok pc \<Longrightarrow> c_str pc' = c_str pc \<Longrightarrow> c_str_cap pc' = c_str_cap pc \<Longrightarrow> str_ok pc'"
  by (simp add: str_ok_def)

lemma unesc_error: "unesc q s = Inl e \<Longrightarrow> json_error e"
proof (induction q s rule: unesc.induct)
  case (2 q c s)
  then show ?case
    by (auto simp: bad_escape_def map_sum_def split: if_splits list.splits sum.splits option.splits)
qed (simp add: json_error_def)

lemma string_result_ok:
  "string_result al t p q r \<Longrightarrow> result_ok (\<lambda>w. length w \<le> 1048574) t p r"
  by (cases r; cases "fst r") (auto simp: string_result_def unesc_error)

lemma json_int_ok: "json_int w = Inr i \<Longrightarrow> - (2 ^ 63) \<le> i \<and> i < 2 ^ 63"
proof -
  assume *: "json_int w = Inr i"
  have "list_all is_digit w \<Longrightarrow> 0 \<le> dval 0 w" using dval_bounds [of w 0] by simp
  with * show ?thesis by (auto simp: json_int_def split: if_splits)
qed

lemma json_int_error: "json_int w = Inl e \<Longrightarrow> json_error e"
  and json_hex_error: "json_hex w = Inl e \<Longrightarrow> json_error e"
  by (auto simp: json_int_def json_hex_def split: if_splits option.splits)

lemma json_hex_ok: "json_hex w = Inr i \<Longrightarrow> - (2 ^ 63) \<le> i \<and> i < 2 ^ 63"
  using s64_range by (auto simp: json_hex_def split: if_splits option.splits)

lemma json_number_post:
  assumes "str_ok pc" and i: "c_istart pc \<le> c_pos pc" "c_istart pc < length t" "c_pos pc \<le> length t"
    and e: "c_istart pc = c_pos pc \<Longrightarrow> ends_primitive (t ! c_istart pc)"
    and n: "n = c_pos pc - c_istart pc" and p: "p \<le> c_istart pc"
  shows "post (json_number t pc n) (result_ok json_ok t p)"
proof (cases "c_istart pc = c_pos pc")
  case True
  with e have "ends_primitive (t ! c_istart pc)" by simp
  then have "(code (t ! c_istart pc) < 48 \<or> code (t ! c_istart pc) > 57)
    \<and> t ! c_istart pc \<noteq> CHR ''.'' \<and> t ! c_istart pc \<noteq> CHR ''+'' \<and> t ! c_istart pc \<noteq> CHR ''-''"
    by (auto simp: ends_primitive_def)
  with assms show ?thesis unfolding json_number_def by (simp add: post_def)
next
  case False
  with i have lt: "c_istart pc < c_pos pc" by simp
  have int: "post (ngx_nats_json_parse_int t pc) (result_ok json_ok t p)"
  proof (rule post_weaken [OF parse_int_post [OF lt i(3)]])
    fix x
    assume "case x of (r, pc') \<Rightarrow> r = map_sum id JInt (json_int (slice t (c_istart pc) (c_pos pc)))
      \<and> same_place pc pc' \<and> c_str pc' = c_str pc \<and> c_str_cap pc' = c_str_cap pc"
    then show "result_ok json_ok t p x"
      using lt i p str_ok_same [OF assms(1)] json_int_ok json_int_error
      by (cases x; cases "json_int (slice t (c_istart pc) (c_pos pc))") (auto simp: same_place_def)
  qed
  have dbl: "post (ngx_nats_json_parse_double t pc) (result_ok json_ok t p)"
  proof (rule post_weaken [OF parse_double_post [OF lt i(3)]])
    fix x
    assume "case x of (r, pc') \<Rightarrow>
      (let w = slice t (c_istart pc) (c_pos pc) in
        r = (if length w \<le> 31 \<and> strtod_len w = length w \<and> NUL \<notin> set w then Inr (JDouble w)
             else Inl NGX_NATS_JSON_ERR_SYNTAX))
      \<and> same_place pc pc' \<and> c_str pc' = c_str pc \<and> c_str_cap pc' = c_str_cap pc"
    then show "result_ok json_ok t p x"
      using lt i p str_ok_same [OF assms(1)] by (cases x) (auto simp: same_place_def Let_def)
  qed
  have hex: "post (ngx_nats_json_parse_hex t pc) (result_ok json_ok t p)" if "2 < n"
  proof -
    have two: "c_istart pc + 2 \<le> c_pos pc" using that n by simp
    show ?thesis
    proof (rule post_weaken [OF parse_hex_post [OF two i(3)]])
      fix x
      assume "case x of (r, pc') \<Rightarrow> r = map_sum id JInt (json_hex (slice t (c_istart pc) (c_pos pc)))
        \<and> same_place pc pc' \<and> c_str pc' = c_str pc \<and> c_str_cap pc' = c_str_cap pc"
      then show "result_ok json_ok t p x"
        using lt i p str_ok_same [OF assms(1)] json_hex_ok json_hex_error
        by (cases x; cases "json_hex (slice t (c_istart pc) (c_pos pc))") (auto simp: same_place_def)
    qed
  qed
  obtain m where m: "scan_while (\<lambda>c. \<not> (c = CHR ''.'' \<or> c = CHR ''e'' \<or> c = CHR ''E'')) t (c_pos pc) (c_istart pc) = Some m"
    using scan_while_total [OF i(3)] by blast
  have "c_istart pc + 1 < length t" if "2 < n" using that n i by simp
  with int dbl hex m lt i n p assms(1) show ?thesis
    unfolding json_number_def by (auto simp: post_def [of "Some _"])
qed

lemma json_primitive_post:
  assumes ok: "str_ok pc" and p: "c_pos pc < length t"
  shows "post (json_primitive ceq t pc) (result_ok json_ok t (c_pos pc))"
proof -
  let ?i = "c_pos pc"
  obtain e where e: "scan_while (\<lambda>c. \<not> ends_primitive c) t (length t) ?i = Some e"
    using scan_while_total [of "length t" t] by blast
  note inv = scan_while_inv [OF e order_refl]
  have b: "?i \<le> e" "e \<le> length t" "e < length t \<Longrightarrow> ends_primitive (t ! e)"
    using inv(1) inv(2) inv(3) p by auto
  let ?pc = "pc\<lparr>c_istart := ?i, c_pos := e\<rparr>"
  have num: "post (json_number t ?pc (e - ?i)) (result_ok json_ok t ?i)"
    using ok p b by (intro json_number_post) auto
  have get: "\<exists>w. mem_get t ?i k = Some w" if "e - ?i = k" "0 < k" for k
    using that b by (simp add: mem_get_def)
  consider "e - ?i = 4" | "e - ?i = 5" | "e - ?i \<noteq> 4" "e - ?i \<noteq> 5" by blast
  then show ?thesis
  proof cases
    case 1
    with get [of 4] obtain w where "mem_get t ?i 4 = Some w" by auto
    with 1 e b num ok show ?thesis
      by (auto simp: json_primitive_def Let_def intro!: wp)
  next
    case 2
    with get [of 5] obtain w where "mem_get t ?i 5 = Some w" by auto
    with 2 e b num ok show ?thesis
      by (auto simp: json_primitive_def Let_def intro!: wp)
  next
    case 3
    with e b num show ?thesis by (simp add: json_primitive_def Let_def)
  qed
qed

section \<open>The recursion\<close>

text \<open>Postconditions in the form that \<open>intro wp\<close> applies along a definition.\<close>

lemma post_skipSpaces [wp]:
  assumes "str_ok pc" and "c_pos pc \<le> length t"
    and "\<And>pc'. str_ok pc' \<Longrightarrow> post (f (NGX_NATS_JSON_ERR_EOF, pc')) P"
    and "\<And>pc'. str_ok pc' \<Longrightarrow> c_pos pc \<le> c_pos pc' \<Longrightarrow> c_pos pc' < length t \<Longrightarrow> post (f (0, pc')) P"
  shows "post (Option.bind (skipSpaces t pc) f) P"
proof -
  obtain p where p: "scan_while is_space t (length t) (c_pos pc) = Some p"
    using scan_while_total [of "length t" t] by blast
  have "c_pos pc \<le> p" using scan_while_inv(1) [OF p] by simp
  with p assms show ?thesis by (simp add: skipSpaces_def Let_def)
qed

lemma post_result:
  assumes "post a (result_ok ok t p)"
    and "\<And>e pc'. str_ok pc' \<Longrightarrow> json_error e \<Longrightarrow> post (f (Inl e, pc')) P"
    and "\<And>v pc'. str_ok pc' \<Longrightarrow> p < c_pos pc' \<Longrightarrow> c_pos pc' \<le> length t \<Longrightarrow> ok v \<Longrightarrow> post (f (Inr v, pc')) P"
  shows "post (Option.bind a f) P"
proof (rule post_bind [OF assms(1)])
  fix x
  assume "result_ok ok t p x"
  with assms(2,3) show "post (f x) P" by (cases x; cases "fst x") auto
qed

lemma post_alloc:
  assumes "post (f True (pc\<lparr>c_allocs := c_allocs pc + 1\<rparr>)) P"
    and "post (f False (pc\<lparr>c_allocs := c_allocs pc + 1\<rparr>)) P"
  shows "post (case pool_alloc al pc of (ok, pc') \<Rightarrow> f ok pc') P"
  using assms by (cases "al (c_allocs pc)") (simp_all add: pool_alloc_def)

lemmas parse_string_wp = post_result [OF post_weaken [OF parse_string_post string_result_ok]]

lemma json_value_step_post:
  assumes ok: "str_ok pc" "c_pos pc \<le> length t"
    and ob: "\<And>pc'. str_ok pc' \<Longrightarrow> c_pos pc < c_pos pc' \<Longrightarrow> c_pos pc' \<le> length t \<Longrightarrow>
      post (ob pc' [] False 0) (result_ok (\<lambda>fs. json_ok (JObject fs)) t (c_pos pc'))"
    and ar: "\<And>pc'. str_ok pc' \<Longrightarrow> c_pos pc < c_pos pc' \<Longrightarrow> c_pos pc' \<le> length t \<Longrightarrow>
      post (ar pc' [] False 0) (result_ok (\<lambda>vs. json_ok (JArray vs)) t (c_pos pc'))"
  shows "post (json_value_step ceq al t ob ar pc) (result_ok json_ok t (c_pos pc))"
  unfolding json_value_step_def
proof (rule post_skipSpaces [OF ok], goal_cases)
  case (1 pc')
  then show ?case by (simp add: post_def json_codes json_error_def)
next
  case (2 pc')
  have prim: "post (json_primitive ceq t pc') (result_ok json_ok t (c_pos pc))"
    using post_weaken [OF json_primitive_post [OF 2(1,3), of ceq]] 2(2)
    by (fastforce simp: result_ok_def split: sum.splits)
  show ?case
    using 2 prim
    by (auto simp: Let_def intro!: post_if post_alloc post_Some post_result [OF ob]
        post_result [OF ar] parse_string_wp)
qed

lemma result_ok_mono: "p \<le> p' \<Longrightarrow> result_ok ok t p' r \<Longrightarrow> result_ok ok t p r"
  by (cases r; cases "fst r") auto

lemma json_eof_nonzero [simp]: "NGX_NATS_JSON_ERR_EOF \<noteq> 0"
  by (simp add: json_codes)

lemma json_field_name_post:
  assumes ok: "str_ok pc" "c_pos pc \<le> length t"
  shows "post (json_field_name al t c pc)
    (result_ok (\<lambda>n. 0 < length n \<and> length n \<le> 1048574) t (c_pos pc))"
  unfolding json_field_name_def Let_def
  by (intro wp parse_string_wp) (use ok in \<open>auto simp: pool_alloc_def\<close>)

lemma json_after_item_post:
  assumes ok: "str_ok pc" "c_pos pc \<le> length t"
  shows "post (json_after_item c t pc) (result_ok (\<lambda>r. True) t (c_pos pc))"
  unfolding json_after_item_def Let_def by (intro wp) (use ok in \<open>auto simp: pool_alloc_def\<close>)

lemma json_object_step_post:
  assumes ok: "str_ok pc" "c_pos pc \<le> length t" "json_ok (JObject fs)"
    and pv: "\<And>pc'. str_ok pc' \<Longrightarrow> c_pos pc \<le> c_pos pc' \<Longrightarrow> c_pos pc' \<le> length t \<Longrightarrow>
      post (pv pc') (result_ok json_ok t (c_pos pc'))"
    and loop: "\<And>pc' fs' nf ps. str_ok pc' \<Longrightarrow> c_pos pc < c_pos pc' \<Longrightarrow> c_pos pc' \<le> length t \<Longrightarrow>
      json_ok (JObject fs') \<Longrightarrow>
      post (loop pc' fs' nf ps) (result_ok (\<lambda>fs. json_ok (JObject fs)) t (c_pos pc'))"
  shows "post (json_object_step al t pv loop pc fs nf ps) (result_ok (\<lambda>fs. json_ok (JObject fs)) t (c_pos pc))"
proof -
  have next_iter: "post (loop pc' fs' nf ps) (result_ok (\<lambda>fs. json_ok (JObject fs)) t (c_pos pc))"
    if "str_ok pc'" "c_pos pc < c_pos pc'" "c_pos pc' \<le> length t" "json_ok (JObject fs')" for pc' fs' nf ps
    using post_weaken [OF loop [OF that]] result_ok_mono that(2) by (meson less_imp_le)
  show ?thesis
    unfolding json_object_step_def Let_def
    by (intro wp post_result [OF json_field_name_post] post_result [OF pv]
        post_result [OF json_after_item_post] next_iter) (use ok in \<open>auto simp: pool_alloc_def\<close>)
qed

lemma json_array_step_post:
  assumes ok: "str_ok pc" "c_pos pc \<le> length t" "json_ok (JArray vs)"
    and pv: "\<And>pc'. str_ok pc' \<Longrightarrow> c_pos pc \<le> c_pos pc' \<Longrightarrow> c_pos pc' \<le> length t \<Longrightarrow>
      post (pv pc') (result_ok json_ok t (c_pos pc'))"
    and loop: "\<And>pc' vs' nf ps. str_ok pc' \<Longrightarrow> c_pos pc < c_pos pc' \<Longrightarrow> c_pos pc' \<le> length t \<Longrightarrow>
      json_ok (JArray vs') \<Longrightarrow>
      post (loop pc' vs' nf ps) (result_ok (\<lambda>vs. json_ok (JArray vs)) t (c_pos pc'))"
  shows "post (json_array_step al t pv loop pc vs nf ps) (result_ok (\<lambda>vs. json_ok (JArray vs)) t (c_pos pc))"
proof -
  have next_iter: "post (loop pc' vs' nf ps) (result_ok (\<lambda>vs. json_ok (JArray vs)) t (c_pos pc))"
    if "str_ok pc'" "c_pos pc < c_pos pc'" "c_pos pc' \<le> length t" "json_ok (JArray vs')" for pc' vs' nf ps
    using post_weaken [OF loop [OF that]] result_ok_mono that(2) by (meson less_imp_le)
  show ?thesis
    unfolding json_array_step_def Let_def
    by (intro wp post_result [OF pv]
        post_result [OF json_after_item_post] next_iter) (use ok in \<open>auto simp: pool_alloc_def\<close>)
qed

lemma json_value_post:
  "str_ok pc \<Longrightarrow> c_pos pc \<le> length t \<Longrightarrow> 2 * (length t - c_pos pc) + 1 \<le> k \<Longrightarrow>
     post (ngx_nats_json_parse_value ceq al t k pc) (result_ok json_ok t (c_pos pc))"
  and json_object_post:
  "str_ok pc \<Longrightarrow> c_pos pc \<le> length t \<Longrightarrow> 2 * (length t - c_pos pc) + 2 \<le> k \<Longrightarrow> json_ok (JObject fs) \<Longrightarrow>
     post (json_object_loop ceq al t k pc fs nf ps) (result_ok (\<lambda>fs. json_ok (JObject fs)) t (c_pos pc))"
  and json_array_post:
  "str_ok pc \<Longrightarrow> c_pos pc \<le> length t \<Longrightarrow> 2 * (length t - c_pos pc) + 2 \<le> k \<Longrightarrow> json_ok (JArray vs) \<Longrightarrow>
     post (json_array_loop ceq al t k pc vs nf ps) (result_ok (\<lambda>vs. json_ok (JArray vs)) t (c_pos pc))"
proof (induction k arbitrary: pc fs vs nf ps)
  case 0
  { case 1 then show ?case by simp }
  { case 2 then show ?case by simp }
  { case 3 then show ?case by simp }
next
  case (Suc k)
  { case 1
    then show ?case unfolding ngx_nats_json_parse_value.simps
      by (intro json_value_step_post Suc.IH) auto }
  { case 2
    then show ?case unfolding json_object_loop.simps
      by (intro json_object_step_post Suc.IH) auto }
  { case 3
    then show ?case unfolding json_array_loop.simps
      by (intro json_array_step_post Suc.IH) auto }
qed

section \<open>Properties\<close>

lemma str_ok_init: "str_ok (json_init addr)"
  unfolding str_ok_def cap_ok_def json_init_def by (auto intro: image_eqI [of _ _ 10])

lemma json_parse_post:
  "post (ngx_nats_json_parse ceq al addr t) (\<lambda>(rc, js).
     case js of None \<Rightarrow> json_error rc
     | Some v \<Rightarrow> json_ok v \<and> 0 < rc \<and> rc \<le> int (length t))"
proof -
  have "post (ngx_nats_json_parse_value ceq al t (2 * length t + 2) (json_init addr))
      (result_ok json_ok t (c_pos (json_init addr)))"
    by (rule json_value_post [OF str_ok_init]) (simp_all add: json_init_def)
  then show ?thesis
    unfolding ngx_nats_json_parse_def
    by (auto simp: json_error_def json_codes [of] intro!: post_if post_Some post_result)
qed

text \<open>
  C14: on every text, whatever allocations fail, the JSON parser returns, reads and writes only inside
  the text, its string buffer and its number buffer, and gives either an error code and no value, or
  a value and the number of bytes it consumed: more than zero and at most the length of the text.
  In the value, integers fit in 64 bits, field names are not empty and no string is longer than
  1048574 bytes.
\<close>

theorem json_parse_safe:
  "\<exists>rc js. ngx_nats_json_parse ceq al addr t = Some (rc, js)
     \<and> (case js of None \<Rightarrow> json_error rc
        | Some v \<Rightarrow> json_ok v \<and> 0 < rc \<and> rc \<le> int (length t))"
  using json_parse_post [of ceq al addr t] by (auto simp: post_def)

text \<open>
  C27: a string is read exactly as its specification says. The text after the opening quote gives the
  string \<open>w\<close> and its extent when the escapes are those of the table and a closing quote is there; the parser
  returns exactly that, and stands right after the closing quote, whenever the allocations succeed
  and \<open>w\<close> has at most 1048574 bytes.
\<close>

theorem json_string_exact:
  assumes "str_ok pc" and "c_pos pc \<le> length t" and "\<forall>i. al i" and "length w \<le> 1048574"
  shows "(\<exists>pc'. ngx_nats_json_parse_string al t pc q = Some (Inr w, pc') \<and> c_pos pc' = c_pos pc + k)
    \<longleftrightarrow> unesc q (drop (c_pos pc) t) = Inr (w, k)"
proof -
  obtain r pc' where p: "ngx_nats_json_parse_string al t pc q = Some (r, pc')"
    "string_result al t (c_pos pc) q (r, pc')"
    using parse_string_post [OF assms(1,2), of al q] by (auto simp: post_def)
  then show ?thesis using assms(3,4) by (cases r) (auto simp: string_result_def)
qed

theorem json_string_exact_witness:
  "\<exists>pc'. ngx_nats_json_parse_string (\<lambda>_. True) ([CHR 0x22, CHR ''a'', CHR 0x5C, CHR ''n'', CHR 0x22])
     ((json_init 0)\<lparr>c_pos := 1\<rparr>) (CHR 0x22) = Some (Inr [CHR ''a'', LF], pc') \<and> c_pos pc' = 1 + 4"
proof -
  let ?pc = "(json_init 0)\<lparr>c_pos := 1\<rparr>" and ?t = "[CHR 0x22, CHR ''a'', CHR 0x5C, CHR ''n'', CHR 0x22]"
  have "str_ok ?pc" "c_pos ?pc \<le> length ?t" using str_ok_init by simp_all
  moreover have "unesc (CHR 0x22) (drop (c_pos ?pc) ?t) = Inr ([CHR ''a'', LF], 4)"
    by (simp add: escapes_def)
  ultimately show ?thesis
    using json_string_exact [of ?pc ?t "\<lambda>_. True" "[CHR ''a'', LF]" "CHR 0x22" 4] by simp
qed

text \<open>
  C28: the integer parser computes the mathematical value of the text between \<open>istart\<close> and \<open>pos\<close>:
  decimal digits with an optional minus sign, accepted exactly when the value fits in 64 bits (and is
  not a negative zero), with no overflow on the way.
\<close>

theorem json_int_exact:
  assumes "c_istart pc < c_pos pc" and "c_pos pc \<le> length t"
  shows "\<exists>pc'. ngx_nats_json_parse_int t pc =
    Some (map_sum id JInt (json_int (slice t (c_istart pc) (c_pos pc))), pc')"
  using parse_int_post [OF assms] by (auto simp: post_def)

theorem json_int_exact_witness:
  "\<exists>pc'. ngx_nats_json_parse_int ''-9223372036854775808,'' ((json_init 0)\<lparr>c_pos := 20\<rparr>) =
     Some (Inr (JInt (- (2 ^ 63))), pc')"
proof -
  let ?pc = "(json_init 0)\<lparr>c_pos := 20\<rparr>" and ?t = "''-9223372036854775808,''"
  have "c_istart ?pc < c_pos ?pc" "c_pos ?pc \<le> length ?t" by (simp_all add: json_init_def)
  moreover have "slice ?t (c_istart ?pc) (c_pos ?pc) = ''-9223372036854775808''"
    by (simp add: json_init_def slice_def)
  moreover have "json_int ''-9223372036854775808'' = Inr (- (2 ^ 63))"
    by (simp add: json_int_def starts_def is_digit_def)
  ultimately show ?thesis using json_int_exact [of ?pc ?t] by simp
qed

end
