(* ===== verification/Nats_Json_Roundtrip.thy ===== *)
theory Nats_Json_Roundtrip
  imports Nats_Json_Safe
begin

text \<open>
  Parsing is the inverse of printing: the parser reads what \<open>ngx_nats_json_debug_print\<close> writes, for
  every value without doubles whose strings need no escape. The lemmas follow the text at a position:
  \<open>drop p t = w @ rest\<close> says that \<open>w\<close> stands at \<open>p\<close>.
\<close>

section \<open>Text at a position\<close>

lemma at_Cons:
  assumes "drop p t = c # s"
  shows "p < length t" "t ! p = c" "rd t p = Some c" "drop (Suc p) t = s"
proof -
  show p: "p < length t" using assms by (cases "p < length t") auto
  with assms show "t ! p = c" "drop (Suc p) t = s" by (auto simp: Cons_nth_drop_Suc [symmetric])
  with p show "rd t p = Some c" by simp
qed

lemma at_append: "drop p t = w @ s \<Longrightarrow> drop (p + length w) t = s"
  by (metis append_eq_conv_conj drop_drop add.commute)

lemma at_length: "drop p t = w @ s \<Longrightarrow> w \<noteq> [] \<Longrightarrow> p + length w \<le> length t"
  by (metis append_is_Nil_conv drop_eq_Nil length_append length_drop le_add1 le_add_diff_inverse
      nat_add_left_cancel_le nle_le)

lemma at_slice: "drop p t = w @ s \<Longrightarrow> slice t p (p + length w) = w"
  by (simp add: slice_def)

lemma at_nth: "drop p t = w @ s \<Longrightarrow> i < length w \<Longrightarrow> t ! (p + i) = w ! i"
  by (metis at_length length_greater_0_conv less_nat_zero_code nth_append nth_drop
      add_leE list.size(3) trans_less_add1 le_add1 order_trans)

lemma at_scan:
  assumes at: "drop p t = w @ s" and "w \<noteq> []" and "list_all P w" and "s = [] \<or> \<not> P (hd s)"
  shows "scan_while P t (length t) p = Some (p + length w)"
proof (rule scan_while_eqI)
  show "P (t ! i)" if "p \<le> i" "i < p + length w" for i
    using at_nth [OF at, of "i - p"] assms(3) that by (auto simp: list_all_length)
  show "\<not> P (t ! (p + length w))" if "p + length w < length t"
  proof -
    from at_append [OF at] that have "s \<noteq> []" "t ! (p + length w) = hd s"
      by (auto simp: hd_drop_conv_nth [symmetric])
    with assms(4) show ?thesis by simp
  qed
qed (use at_length [OF at assms(2)] in auto)

lemma skip_none:
  assumes "drop (c_pos pc) t = c # s" and "\<not> is_space c"
  shows "skipSpaces t pc = Some (0, pc\<lparr>c_istart := 2 ^ 64 - 1\<rparr>)"
proof -
  note p = at_Cons [OF assms(1)]
  have "scan_while is_space t (length t) (c_pos pc) = Some (c_pos pc)"
    using p assms(2) by (intro scan_while_eqI) auto
  then show ?thesis using p by (simp add: skipSpaces_def)
qed

section \<open>Primitive values\<close>

definition intchars :: "bytes \<Rightarrow> bool" where
  "intchars w \<longleftrightarrow> w \<noteq> [] \<and> list_all (\<lambda>c. is_digit c \<or> c = CHR ''-'') w \<and> hd w \<noteq> CHR ''0''"

text \<open>\<open>moved\<close> says what every operation of the parser keeps.\<close>

definition moved :: "json_ctx \<Rightarrow> nat \<Rightarrow> json_ctx \<Rightarrow> bool" where
  "moved pc n pc' \<longleftrightarrow> str_ok pc' \<and> c_pos pc' = c_pos pc + n"

lemma intchars_plain: "intchars w \<Longrightarrow> c \<in> set w \<Longrightarrow> \<not> ends_primitive c \<and> c \<noteq> CHR ''.'' \<and> c \<noteq> CHR ''e''
    \<and> c \<noteq> CHR ''E'' \<and> lower c \<noteq> CHR ''n'' \<and> lower c \<noteq> CHR ''t'' \<and> lower c \<noteq> CHR ''f'' \<and> \<not> is_space c"
  by (auto simp: intchars_def list_all_iff is_digit_def ends_primitive_def lower_def is_space_def)

lemma intchars_hd: "intchars w \<Longrightarrow> hd w \<in> set w"
  by (simp add: intchars_def)

lemma json_number_int:
  assumes at: "drop (c_istart pc) t = w @ s" and w: "intchars w"
    and pos: "c_pos pc = c_istart pc + length w"
  shows "\<exists>pc'. json_number t pc (length w) = Some (map_sum id JInt (json_int w), pc')
    \<and> same_place pc pc' \<and> c_str pc' = c_str pc \<and> c_str_cap pc' = c_str_cap pc"
proof -
  have ne: "w \<noteq> []" using w by (simp add: intchars_def)
  have len: "c_istart pc < c_pos pc" "c_pos pc \<le> length t" "c_istart pc < length t"
    using at_length [OF at ne] pos ne by (auto simp flip: length_greater_0_conv)
  have c: "t ! c_istart pc = hd w" using at_nth [OF at, of 0] ne by (simp add: hd_conv_nth)
  have hd: "hd w \<noteq> CHR ''0''" "is_digit (hd w) \<or> hd w = CHR ''-''"
    using w ne by (auto simp: intchars_def list_all_iff)
  have "scan_while (\<lambda>c. \<not> (c = CHR ''.'' \<or> c = CHR ''e'' \<or> c = CHR ''E'')) t (c_pos pc) (c_istart pc) = Some (c_pos pc)"
  proof (rule scan_while_eqI)
    fix i
    assume "c_istart pc \<le> i" "i < c_pos pc"
    then have "t ! i \<in> set w" using at_nth [OF at, of "i - c_istart pc"] pos by auto
    from intchars_plain [OF w this] show "\<not> (t ! i = CHR ''.'' \<or> t ! i = CHR ''e'' \<or> t ! i = CHR ''E'')" by simp
  qed (use len in auto)
  with len c hd have eq: "json_number t pc (length w) = ngx_nats_json_parse_int t pc"
    by (auto simp: json_number_def is_digit_def)
  have "slice t (c_istart pc) (c_pos pc) = w" using at_slice [OF at] pos by simp
  with parse_int_post [OF len(1,2)] show ?thesis unfolding eq by (auto simp: post_def)
qed

lemma json_primitive_int:
  assumes ceq: "casecmp_ok ceq" and at: "drop (c_pos pc) t = w @ s" and w: "intchars w"
    and s: "s = [] \<or> ends_primitive (hd s)" and ok: "str_ok pc"
  shows "\<exists>pc'. json_primitive ceq t pc = Some (map_sum id JInt (json_int w), pc')
    \<and> moved pc (length w) pc'"
proof -
  let ?pc = "pc\<lparr>c_istart := c_pos pc, c_pos := c_pos pc + length w\<rparr>"
  have ne: "w \<noteq> []" using w by (simp add: intchars_def)
  have scan: "scan_while (\<lambda>c. \<not> ends_primitive c) t (length t) (c_pos pc) = Some (c_pos pc + length w)"
    using s intchars_plain [OF w] by (intro at_scan [OF at ne]) (auto simp: list_all_iff)
  have get: "mem_get t (c_pos pc) (length w) = Some w"
    using at_length [OF at ne] at by (simp add: mem_get_def)
  have hd: "lower (hd w) \<noteq> CHR ''n''" "lower (hd w) \<noteq> CHR ''t''" "lower (hd w) \<noteq> CHR ''f''"
    using intchars_plain [OF w intchars_hd [OF w]] by auto
  have no: "\<not> ceq w ''null''" "\<not> ceq w ''true''" "\<not> ceq w ''false''"
    using ceq hd ne by (cases w; auto simp: casecmp_ok_def lower_def)+
  obtain pc' where num: "json_number t ?pc (length w) = Some (map_sum id JInt (json_int w), pc')"
    "same_place ?pc pc'" "c_str pc' = c_str pc" "c_str_cap pc' = c_str_cap pc"
    using json_number_int [of ?pc t w s] at w by auto
  have prim: "json_primitive ceq t pc = json_number t ?pc (length w)"
    using scan get no by (auto simp: json_primitive_def Let_def)
  have "moved pc (length w) pc'" using num str_ok_same [OF ok num(3,4)]
    by (auto simp: moved_def same_place_def)
  with num(1) prim show ?thesis by auto
qed

text \<open>A value that starts with a byte other than a bracket or a quote is a primitive one.\<close>

lemma value_primitive:
  assumes at: "drop (c_pos pc) t = c # s" and c: "\<not> is_space c" "c \<notin> {CHR ''{'', CHR ''['', CHR 0x27, CHR 0x22}"
    and k: "0 < k"
  shows "ngx_nats_json_parse_value ceq al t k pc = json_primitive ceq t (pc\<lparr>c_istart := 2 ^ 64 - 1\<rparr>)"
proof -
  obtain k' where "k = Suc k'" using k by (cases k) auto
  then show ?thesis using skip_none [OF at c(1)] at_Cons [OF at] c(2)
    by (simp add: json_value_step_def)
qed

lemma value_int:
  assumes ceq: "casecmp_ok ceq" and at: "drop (c_pos pc) t = w @ s" and w: "intchars w"
    and s: "s = [] \<or> ends_primitive (hd s)" and ok: "str_ok pc" and k: "0 < k"
  shows "\<exists>pc'. ngx_nats_json_parse_value ceq al t k pc = Some (map_sum id JInt (json_int w), pc')
    \<and> moved pc (length w) pc'"
proof -
  obtain c w' where cw: "w = c # w'" using w by (cases w) (auto simp: intchars_def)
  have c: "\<not> is_space c" "c \<notin> {CHR ''{'', CHR ''['', CHR 0x27, CHR 0x22}"
    using w cw by (auto simp: intchars_def is_digit_def is_space_def)
  have "drop (c_pos pc) t = c # (w' @ s)" using at cw by simp
  from value_primitive [OF this c k] json_primitive_int [OF ceq _ w s, of "pc\<lparr>c_istart := 2 ^ 64 - 1\<rparr>" t] at ok
  show ?thesis by (simp add: moved_def)
qed

text \<open>The words.\<close>

lemma value_word:
  assumes ceq: "casecmp_ok ceq" and at: "drop (c_pos pc) t = w @ s"
    and w: "(w, v) \<in> {(''null'', JNull), (''true'', JBool True), (''false'', JBool False)}"
    and s: "s = [] \<or> ends_primitive (hd s)" and ok: "str_ok pc" and k: "0 < k"
  shows "\<exists>pc'. ngx_nats_json_parse_value ceq al t k pc = Some (Inr v, pc') \<and> moved pc (length w) pc'"
proof -
  let ?pc = "pc\<lparr>c_istart := 2 ^ 64 - 1\<rparr>"
  have ne: "w \<noteq> []" using w by auto
  have scan: "scan_while (\<lambda>c. \<not> ends_primitive c) t (length t) (c_pos pc) = Some (c_pos pc + length w)"
    using s w by (intro at_scan [OF at ne]) (auto simp: ends_primitive_def)
  have get: "mem_get t (c_pos pc) n = Some w" if "length w = n" for n
    using at_length [OF at ne] at that by (auto simp: mem_get_def)
  have "json_primitive ceq t ?pc = Some (Inr v, pc\<lparr>c_istart := c_pos pc, c_pos := c_pos pc + length w\<rparr>)"
    using w scan get [of 4] get [of 5] ceq
    by (auto simp: json_primitive_def Let_def casecmp_ok_def lower_def)
  moreover have "ngx_nats_json_parse_value ceq al t k pc = json_primitive ceq t ?pc"
    using at w by (intro value_primitive [OF _ _ _ k, of pc t "hd w" "tl w @ s"]) (auto simp: is_space_def)
  ultimately show ?thesis using ok by (simp add: moved_def)
qed

text \<open>
  The parser and the JSON grammar disagree on negative zeros: \<open>-0\<close>, a number of JSON, is
  rejected as a syntax error, and \<open>-01\<close>, which is not one, is accepted as \<open>-1\<close>.
\<close>

theorem json_negative_zero:
  assumes "casecmp_ok ceq"
  shows "ngx_nats_json_parse ceq (\<lambda>_. True) addr ''-0'' = Some (NGX_NATS_JSON_ERR_SYNTAX, None)
    \<and> ngx_nats_json_parse ceq (\<lambda>_. True) addr ''-01'' = Some (3, Some (JInt (- 1)))"
proof -
  have "intchars ''-0''" "intchars ''-01''" by (simp_all add: intchars_def is_digit_def)
  from value_int [OF assms _ this(1) _ str_ok_init, of addr "''-0''" "[]" 6 "\<lambda>_. True"]
    value_int [OF assms _ this(2) _ str_ok_init, of addr "''-01''" "[]" 8 "\<lambda>_. True"]
  show ?thesis
    by (auto simp: ngx_nats_json_parse_def json_init_def moved_def json_int_def starts_def is_digit_def)
qed

theorem json_negative_zero_witness:
  "ngx_nats_json_parse casecmp (\<lambda>_. True) 0 ''-0'' = Some (NGX_NATS_JSON_ERR_SYNTAX, None)"
  using json_negative_zero [OF casecmp_ok_casecmp, of 0] by blast

section \<open>Strings and containers\<close>

definition plain :: "bytes \<Rightarrow> bool" where
  "plain s \<longleftrightarrow> length s \<le> 1048574 \<and> list_all (\<lambda>c. c \<noteq> CHR 0x22 \<and> c \<noteq> CHR 0x5C \<and> c \<noteq> NUL) s"

fun printable :: "json \<Rightarrow> bool" where
  "printable JNull = True"
| "printable (JBool b) = True"
| "printable (JInt i) = (- (2 ^ 63) \<le> i \<and> i < 2 ^ 63)"
| "printable (JDouble d) = False"
| "printable (JString s) = plain s"
| "printable (JArray vs) = list_all printable vs"
| "printable (JObject fs) = list_all (\<lambda>(n, v). n \<noteq> [] \<and> plain n \<and> printable v) fs"

lemma plain_cstr: "plain s \<Longrightarrow> cstr s = s"
  by (auto simp: plain_def cstr_def takeWhile_eq_all_conv list_all_iff)

lemma unesc_plain_text:
  "list_all (\<lambda>c. c \<noteq> CHR 0x22 \<and> c \<noteq> CHR 0x5C \<and> c \<noteq> NUL) w \<Longrightarrow>
     unesc (CHR 0x22) (w @ CHR 0x22 # s) = Inr (w, length w + 1)"
  by (induction w) auto

lemma string_plain:
  assumes ok: "str_ok pc" and at: "drop (c_pos pc) t = w @ CHR 0x22 # s" and w: "plain w" and al: "\<forall>i. al i"
  shows "\<exists>pc'. ngx_nats_json_parse_string al t pc (CHR 0x22) = Some (Inr w, pc')
    \<and> moved pc (length w + 1) pc'"
proof -
  have p: "c_pos pc \<le> length t" using at by (cases "c_pos pc \<le> length t") auto
  obtain r pc' where r: "ngx_nats_json_parse_string al t pc (CHR 0x22) = Some (r, pc')"
    "string_result al t (c_pos pc) (CHR 0x22) (r, pc')"
    using parse_string_post [OF ok p, of al "CHR 0x22"] by (auto simp: post_def)
  have "unesc (CHR 0x22) (drop (c_pos pc) t) = Inr (w, length w + 1)"
    using at w unesc_plain_text by (simp add: plain_def)
  with r al w show ?thesis by (cases r) (auto simp: string_result_def moved_def plain_def)
qed

section \<open>Printed integers\<close>

lemma digit_zero: "digit 0 = CHR ''0''"
  by code_simp

lemma dec_Cons: "\<exists>c w. dec n = c # w \<and> is_digit c"
  using dec_digits [of n] dec_nonempty [of n] by (cases "dec n") auto

lemma dec_hd: "0 < n \<Longrightarrow> hd (dec n) \<noteq> CHR ''0''"
proof (induction n rule: dec.induct)
  case (1 n)
  show ?case
  proof (cases "n < 10")
    case True
    then have "code (digit n) = 48 + int n" by (rule code_digit)
    with "1.prems" have "digit n \<noteq> CHR ''0''" by auto
    with True show ?thesis by (subst dec.simps) simp
  next
    case False
    then have "hd (dec (n div 10)) \<noteq> CHR ''0''" using "1.IH" by simp
    with False show ?thesis by (subst dec.simps) (simp add: hd_append)
  qed
qed

lemma value_zero:
  assumes ceq: "casecmp_ok ceq" and at: "drop (c_pos pc) t = ''0'' @ s"
    and s: "s = [] \<or> ends_primitive (hd s)" and ok: "str_ok pc" and k: "0 < k"
  shows "\<exists>pc'. ngx_nats_json_parse_value ceq al t k pc = Some (Inr (JInt 0), pc') \<and> moved pc 1 pc'"
proof -
  let ?pc = "pc\<lparr>c_istart := 2 ^ 64 - 1\<rparr>"
  have "scan_while (\<lambda>c. \<not> ends_primitive c) t (length t) (c_pos pc) = Some (c_pos pc + length ''0'')"
    using s by (intro at_scan [OF at]) (auto simp: ends_primitive_def)
  moreover have "rd t (c_pos pc) = Some (CHR ''0'')" using at at_Cons by simp
  ultimately have "json_primitive ceq t ?pc = Some (Inr (JInt 0), pc\<lparr>c_istart := c_pos pc, c_pos := c_pos pc + 1\<rparr>)"
    by (simp add: json_primitive_def Let_def json_number_def)
  moreover have "ngx_nats_json_parse_value ceq al t k pc = json_primitive ceq t ?pc"
    using at by (intro value_primitive [OF _ _ _ k, of pc t "CHR ''0''" s]) (auto simp: is_space_def)
  ultimately show ?thesis using ok by (simp add: moved_def)
qed

lemma value_JInt:
  assumes ceq: "casecmp_ok ceq" and i: "- (2 ^ 63) \<le> i" "i < 2 ^ 63"
    and at: "drop (c_pos pc) t = json_debug_print_value fmt (JInt i) @ s"
    and s: "s = [] \<or> ends_primitive (hd s)" and ok: "str_ok pc" and k: "0 < k"
  shows "\<exists>pc'. ngx_nats_json_parse_value ceq al t k pc = Some (Inr (JInt i), pc')
    \<and> moved pc (length (json_debug_print_value fmt (JInt i))) pc'"
proof -
  let ?w = "json_debug_print_value fmt (JInt i)"
  consider "i = 0" | "0 < i" | "i < 0" by linarith
  then show ?thesis
  proof cases
    case 1
    then have "?w = ''0''" by (simp add: u64_def dec.simps digit_zero)
    with value_zero [OF ceq _ s ok k, of t al] at 1 show ?thesis by simp
  next
    case 2
    define n where "n = nat i"
    have n: "0 < n" "i = int n" "?w = dec n" using 2 i by (auto simp: n_def u64_def)
    have "intchars ?w" using n dec_hd [OF n(1)] dec_digits [of n]
      by (auto simp: intchars_def list_all_iff)
    moreover have "\<not> starts (\<lambda>c. c = CHR ''-'') ?w" using n dec_digits [of n]
      by (cases "dec n") (auto simp: starts_def is_digit_def)
    then have "json_int ?w = Inr i" using n i dec_digits [of n] by (simp add: json_int_def dval_dec)
    ultimately show ?thesis using value_int [OF ceq at _ s ok k, of al] by simp
  next
    case 3
    define n where "n = nat (- i)"
    have n: "0 < n" "i = - int n" "?w = ''-'' @ dec n" using 3 i by (auto simp: n_def u64_def)
    have "intchars ?w" using n dec_digits [of n] by (auto simp: intchars_def list_all_iff)
    moreover have "json_int ?w = Inr i"
      using n i dec_digits [of n] by (simp add: json_int_def starts_def dval_dec)
    ultimately show ?thesis using value_int [OF ceq at _ s ok k, of al] by simp
  qed
qed

section \<open>Containers\<close>

lemma print_start:
  "printable v \<Longrightarrow> \<exists>c w. json_debug_print_value fmt v = c # w \<and> \<not> is_space c \<and> c \<noteq> CHR '']''"
proof (cases v)
  case (JInt i)
  obtain c w where "dec (u64 i) = c # w" "is_digit c" using dec_Cons by blast
  then show ?thesis using JInt by (auto simp: is_space_def is_digit_def)
qed (auto simp: is_space_def)

lemma after_item:
  assumes at: "drop (c_pos pc) t = c # s" and c: "c = close \<or> c = CHR '',''" "\<not> is_space c" and ok: "str_ok pc"
  shows "\<exists>pc'. json_after_item close t pc = Some (Inr (if c = close then None else Some (c_pos pc)), pc')
    \<and> moved pc 1 pc'"
  using skip_none [OF at c(2)] at_Cons [OF at] c ok
  by (auto simp: json_after_item_def Let_def moved_def)

text \<open>Where a printed value stands, the parser finds it (the statement the induction proves).\<close>

definition finds :: "(bytes \<Rightarrow> bytes \<Rightarrow> bool) \<Rightarrow> (nat \<Rightarrow> bool) \<Rightarrow> bytes \<Rightarrow> (bytes \<Rightarrow> bytes) \<Rightarrow> json \<Rightarrow> bool" where
  "finds ceq al t fmt v \<longleftrightarrow> (\<forall>pc s k.
     str_ok pc \<longrightarrow> drop (c_pos pc) t = json_debug_print_value fmt v @ s \<longrightarrow>
     (json_type v \<in> {2, 3} \<or> s = [] \<or> ends_primitive (hd s)) \<longrightarrow> 2 * (length t - c_pos pc) + 1 \<le> k \<longrightarrow>
     (\<exists>pc'. ngx_nats_json_parse_value ceq al t k pc = Some (Inr v, pc')
        \<and> moved pc (length (json_debug_print_value fmt v)) pc'))"

lemma findsD:
  assumes "finds ceq al t fmt v" and "str_ok pc"
    and "drop (c_pos pc) t = json_debug_print_value fmt v @ s" and "json_type v \<in> {2, 3} \<or> s = [] \<or> ends_primitive (hd s)"
    and "2 * (length t - c_pos pc) + 1 \<le> k"
  obtains pc' where "ngx_nats_json_parse_value ceq al t k pc = Some (Inr v, pc')"
    "str_ok pc'" "c_pos pc' = c_pos pc + length (json_debug_print_value fmt v)" "drop (c_pos pc') t = s"
  using assms at_append [OF assms(3)] unfolding finds_def moved_def by metis

lemma commas_Cons: "commas (x # xs) = x @ (if xs = [] then [] else '','' @ commas xs)"
  by (cases xs) auto

lemma array_loop_run:
  assumes al: "\<forall>i. al i" and vs: "\<And>v. v \<in> set vs \<Longrightarrow> finds ceq al t fmt v \<and> printable v"
    and ne: "vs \<noteq> []" and ok: "str_ok pc"
    and at: "drop (c_pos pc) t = commas (map (json_debug_print_value fmt) vs) @ CHR '']'' # s"
    and k: "2 * (length t - c_pos pc) + 2 \<le> k"
  shows "\<exists>pc'. json_array_loop ceq al t k pc acc nf ps = Some (Inr (acc @ vs), pc')
    \<and> moved pc (length (commas (map (json_debug_print_value fmt) vs)) + 1) pc'"
  using vs ne ok at k
proof (induction vs arbitrary: pc acc nf ps k)
  case (Cons v vs)
  let ?w = "json_debug_print_value fmt v"
  define s' where "s' = (if vs = [] then CHR '']'' # s
    else CHR '','' # commas (map (json_debug_print_value fmt) vs) @ CHR '']'' # s)"
  have at: "drop (c_pos pc) t = ?w @ s'" using Cons.prems(4) by (simp add: commas_Cons s'_def)
  obtain k' where k: "k = Suc k'" "2 * (length t - c_pos pc) + 1 \<le> k'" using Cons.prems(5) by (cases k) auto
  obtain c w where c: "?w = c # w" "\<not> is_space c" "c \<noteq> CHR '']''" using print_start Cons.prems(1) by (meson list.set_intros(1))
  have cat: "drop (c_pos pc) t = c # (w @ s')" using at c by simp
  let ?pc = "pc\<lparr>c_istart := c_pos pc, c_allocs := c_allocs pc + 1\<rparr>"
  have "s' = [] \<or> ends_primitive (hd s')" by (simp add: s'_def ends_primitive_def)
  then obtain pc1 where pv: "ngx_nats_json_parse_value ceq al t k' ?pc = Some (Inr v, pc1)"
    and pos1: "c_pos pc1 = c_pos pc + length ?w" "str_ok pc1" and at1: "drop (c_pos pc1) t = s'"
    using findsD [of ceq al t fmt v ?pc s' k'] Cons.prems(1) [of v] Cons.prems(3) at k(2) by auto
  have step: "json_array_loop ceq al t k pc acc nf ps =
      Option.bind (json_after_item (CHR '']'') t pc1) (\<lambda>(r, pc). case r of
         Inl e \<Rightarrow> Some (Inl e, pc)
       | Inr None \<Rightarrow> Some (Inr (acc @ [v]), pc)
       | Inr (Some ps) \<Rightarrow> json_array_loop ceq al t k' pc (acc @ [v]) True ps)"
    using skip_none [OF cat c(2)] at_Cons [OF cat] c(3) al pv
    by (simp add: k(1) json_array_step_def Let_def pool_alloc_def)
  show ?case
  proof (cases "vs = []")
    case True
    then have "drop (c_pos pc1) t = CHR '']'' # s" using at1 by (simp add: s'_def)
    from after_item [OF this _ _ pos1(2)] obtain pc2
      where "json_after_item (CHR '']'') t pc1 = Some (Inr None, pc2)" "moved pc1 1 pc2"
      by (auto simp: is_space_def)
    then show ?thesis using step True pos1 by (auto simp: moved_def)
  next
    case False
    then have at2: "drop (c_pos pc1) t = CHR '','' # commas (map (json_debug_print_value fmt) vs) @ CHR '']'' # s"
      using at1 by (simp add: s'_def)
    from after_item [OF this _ _ pos1(2), of "CHR '']''"] obtain pc2
      where pc2: "json_after_item (CHR '']'') t pc1 = Some (Inr (Some (c_pos pc1)), pc2)" "moved pc1 1 pc2"
      by (auto simp: is_space_def)
    have at3: "drop (c_pos pc2) t = commas (map (json_debug_print_value fmt) vs) @ CHR '']'' # s"
      using at_Cons(4) [OF at2] pc2(2) by (simp add: moved_def)
    have "length t - c_pos pc2 < length t - c_pos pc"
      using at_Cons(1) [OF at2] pc2(2) pos1 by (simp add: moved_def)
    then have k2: "2 * (length t - c_pos pc2) + 2 \<le> k'" using k(2) by linarith
    obtain pc3 where "json_array_loop ceq al t k' pc2 (acc @ [v]) True (c_pos pc1) = Some (Inr ((acc @ [v]) @ vs), pc3)"
      "moved pc2 (length (commas (map (json_debug_print_value fmt) vs)) + 1) pc3"
      using Cons.IH [OF _ False _ at3 k2, of "acc @ [v]" True "c_pos pc1"] Cons.prems(1) pc2(2)
      by (auto simp: moved_def)
    then show ?thesis using step pc2 pos1 False by (auto simp: moved_def commas_Cons)
  qed
qed simp

definition print_field :: "(bytes \<Rightarrow> bytes) \<Rightarrow> bytes \<times> json \<Rightarrow> bytes" where
  "print_field fmt = (\<lambda>(n, v). [CHR 0x22] @ cstr n @ [CHR 0x22] @ '':'' @ json_debug_print_value fmt v)"

lemma field_name:
  assumes al: "\<forall>i. al i" and ok: "str_ok pc" and n: "n \<noteq> []" "plain n"
    and at: "drop (c_pos pc) t = n @ CHR 0x22 # CHR '':'' # s"
  obtains pc' where "json_field_name al t (CHR 0x22) pc = Some (Inr n, pc')" "str_ok pc'"
    "c_pos pc' = c_pos pc + length n + 2" "drop (c_pos pc') t = s"
proof -
  let ?pc = "pc\<lparr>c_allocs := Suc (c_allocs pc)\<rparr>"
  obtain pc1 where p: "ngx_nats_json_parse_string al t ?pc (CHR 0x22) = Some (Inr n, pc1)"
    "moved ?pc (length n + 1) pc1"
    using string_plain [of ?pc t n "CHR '':'' # s" al] at n ok al by auto
  have "drop (c_pos pc + length (n @ [CHR 0x22])) t = CHR '':'' # s"
    by (rule at_append) (simp add: at)
  then have a: "drop (c_pos pc1) t = CHR '':'' # s" using p(2) by (simp add: moved_def)
  then have "json_field_name al t (CHR 0x22) pc =
      Some (Inr n, pc1\<lparr>c_istart := 2 ^ 64 - 1, c_pos := c_pos pc1 + 1\<rparr>)"
    using p al n skip_none [OF a] at_Cons [OF a]
    by (simp add: json_field_name_def pool_alloc_def is_space_def Let_def)
  with p(2) at_Cons(4) [OF a] show ?thesis by (intro that) (auto simp: moved_def)
qed

lemma object_loop_run:
  assumes al: "\<forall>i. al i"
    and fs: "\<And>n v. (n, v) \<in> set fs \<Longrightarrow> finds ceq al t fmt v \<and> n \<noteq> [] \<and> plain n"
    and ne: "fs \<noteq> []" and ok: "str_ok pc"
    and at: "drop (c_pos pc) t = commas (map (print_field fmt) fs) @ CHR ''}'' # s"
    and k: "2 * (length t - c_pos pc) + 2 \<le> k"
  shows "\<exists>pc'. json_object_loop ceq al t k pc acc nf ps = Some (Inr (acc @ fs), pc')
    \<and> moved pc (length (commas (map (print_field fmt) fs)) + 1) pc'"
  using fs ne ok at k
proof (induction fs arbitrary: pc acc nf ps k)
  case (Cons f fs)
  obtain n v where f: "f = (n, v)" by (cases f)
  let ?w = "json_debug_print_value fmt v"
  define s' where "s' = (if fs = [] then CHR ''}'' # s
    else CHR '','' # commas (map (print_field fmt) fs) @ CHR ''}'' # s)"
  have nv: "finds ceq al t fmt v" "n \<noteq> []" "plain n" using Cons.prems(1) f by auto
  have at: "drop (c_pos pc) t = CHR 0x22 # n @ CHR 0x22 # CHR '':'' # ?w @ s'"
    using Cons.prems(4) nv(3) by (simp add: commas_Cons s'_def f print_field_def plain_cstr)
  note q = at_Cons [OF at]
  obtain k' where k: "k = Suc k'" "2 * (length t - c_pos pc) + 1 \<le> k'" using Cons.prems(5) by (cases k) auto
  let ?pc = "pc\<lparr>c_istart := c_pos pc, c_pos := c_pos pc + 1\<rparr>"
  obtain pc0 where name: "json_field_name al t (CHR 0x22) ?pc = Some (Inr n, pc0)" "str_ok pc0"
    "c_pos pc0 = c_pos ?pc + length n + 2" "drop (c_pos pc0) t = ?w @ s'"
    using field_name [OF al _ nv(2,3), of ?pc t "?w @ s'"] q(4) Cons.prems(3) by auto
  have "s' = [] \<or> ends_primitive (hd s')" by (simp add: s'_def ends_primitive_def)
  moreover have "2 * (length t - c_pos pc0) + 1 \<le> k'" using k(2) name(3) by simp
  ultimately obtain pc1 where pv: "ngx_nats_json_parse_value ceq al t k' pc0 = Some (Inr v, pc1)"
    and pos1: "c_pos pc1 = c_pos pc0 + length ?w" "str_ok pc1" and at1: "drop (c_pos pc1) t = s'"
    using findsD [OF nv(1) name(2,4)] by blast
  have step: "json_object_loop ceq al t k pc acc nf ps =
      Option.bind (json_after_item (CHR ''}'') t pc1) (\<lambda>(r, pc). case r of
         Inl e \<Rightarrow> Some (Inl e, pc)
       | Inr None \<Rightarrow> Some (Inr (acc @ [(n, v)]), pc)
       | Inr (Some ps) \<Rightarrow> json_object_loop ceq al t k' pc (acc @ [(n, v)]) True ps)"
    using skip_none [OF at] q name(1) pv
    by (simp add: k(1) json_object_step_def Let_def is_space_def)
  have len: "length (print_field fmt f) = length n + 3 + length ?w"
    using nv(3) by (simp add: f print_field_def plain_cstr)
  show ?case
  proof (cases "fs = []")
    case True
    then have "drop (c_pos pc1) t = CHR ''}'' # s" using at1 by (simp add: s'_def)
    from after_item [OF this _ _ pos1(2)] obtain pc2
      where "json_after_item (CHR ''}'') t pc1 = Some (Inr None, pc2)" "moved pc1 1 pc2"
      by (auto simp: is_space_def)
    then show ?thesis using step True pos1 name(3) f len by (auto simp: moved_def)
  next
    case False
    then have at2: "drop (c_pos pc1) t = CHR '','' # commas (map (print_field fmt) fs) @ CHR ''}'' # s"
      using at1 by (simp add: s'_def)
    from after_item [OF this _ _ pos1(2), of "CHR ''}''"] obtain pc2
      where pc2: "json_after_item (CHR ''}'') t pc1 = Some (Inr (Some (c_pos pc1)), pc2)" "moved pc1 1 pc2"
      by (auto simp: is_space_def)
    have at3: "drop (c_pos pc2) t = commas (map (print_field fmt) fs) @ CHR ''}'' # s"
      using at_Cons(4) [OF at2] pc2(2) by (simp add: moved_def)
    have "length t - c_pos pc2 < length t - c_pos pc"
      using at_Cons(1) [OF at2] pc2(2) pos1 name(3) by (simp add: moved_def)
    then have k2: "2 * (length t - c_pos pc2) + 2 \<le> k'" using k(2) by linarith
    obtain pc3 where "json_object_loop ceq al t k' pc2 (acc @ [(n, v)]) True (c_pos pc1) = Some (Inr ((acc @ [(n, v)]) @ fs), pc3)"
      "moved pc2 (length (commas (map (print_field fmt) fs)) + 1) pc3"
      using Cons.IH [OF _ False _ at3 k2, of "acc @ [(n, v)]" True "c_pos pc1"] Cons.prems(1) pc2(2)
      by (auto simp: moved_def)
    then show ?thesis using step pc2 pos1 name(3) False f len by (auto simp: moved_def commas_Cons)
  qed
qed simp

section \<open>The round trip\<close>

definition opened :: "json_ctx \<Rightarrow> json_ctx" where
  "opened pc = pc\<lparr>c_pos := c_pos pc + 1, c_allocs := c_allocs pc + 2, c_istart := c_pos pc\<rparr>"

lemma opened_simps [simp]: "c_pos (opened pc) = c_pos pc + 1" "str_ok (opened pc) = str_ok pc"
  by (simp_all add: opened_def)

lemma open_object:
  assumes at: "drop (c_pos pc) t = CHR ''{'' # s" and al: "\<forall>i. al i"
  shows "ngx_nats_json_parse_value ceq al t (Suc k) pc =
    Option.bind (json_object_loop ceq al t k (opened pc) [] False 0)
      (\<lambda>(r, pc). Some (map_sum id JObject r, pc))"
  using skip_none [OF at] at_Cons [OF at] al
  by (simp add: json_value_step_def pool_alloc_def is_space_def opened_def)

lemma open_array:
  assumes at: "drop (c_pos pc) t = CHR ''['' # s" and al: "\<forall>i. al i"
  shows "ngx_nats_json_parse_value ceq al t (Suc k) pc =
    Option.bind (json_array_loop ceq al t k (opened pc) [] False 0)
      (\<lambda>(r, pc). Some (map_sum id JArray r, pc))"
  using skip_none [OF at] at_Cons [OF at] al
  by (simp add: json_value_step_def pool_alloc_def is_space_def opened_def)

lemma empty_array:
  "drop (c_pos pc) t = CHR '']'' # s \<Longrightarrow> json_array_loop ceq al t (Suc k) pc vs False ps =
     Some (Inr vs, pc\<lparr>c_istart := c_pos pc, c_pos := c_pos pc + 1\<rparr>)"
  using skip_none [of pc t "CHR '']''" s] at_Cons [of "c_pos pc" t "CHR '']''" s]
  by (simp add: json_array_step_def is_space_def Let_def)

lemma empty_object:
  "drop (c_pos pc) t = CHR ''}'' # s \<Longrightarrow> json_object_loop ceq al t (Suc k) pc fs False ps =
     Some (Inr fs, pc\<lparr>c_istart := c_pos pc, c_pos := c_pos pc + 1\<rparr>)"
  using skip_none [of pc t "CHR ''}''" s] at_Cons [of "c_pos pc" t "CHR ''}''" s]
  by (simp add: json_object_step_def is_space_def Let_def)

lemma finds_array:
  assumes al: "\<forall>i. al i" and vs: "\<And>v. v \<in> set vs \<Longrightarrow> finds ceq al t fmt v \<and> printable v"
  shows "finds ceq al t fmt (JArray vs)"
  unfolding finds_def
proof (intro allI impI)
  fix pc s k
  assume a: "str_ok pc" "drop (c_pos pc) t = json_debug_print_value fmt (JArray vs) @ s"
    "2 * (length t - c_pos pc) + 1 \<le> k"
  let ?cs = "commas (map (json_debug_print_value fmt) vs)"
  let ?pc = "opened pc"
  have at: "drop (c_pos pc) t = CHR ''['' # ?cs @ CHR '']'' # s" using a(2) by simp
  note q = at_Cons [OF at]
  obtain k' where k: "k = Suc k'" "2 * (length t - c_pos ?pc) + 2 \<le> k'"
    using a(3) q(1) by (cases k) auto
  have "\<exists>pc'. json_array_loop ceq al t k' ?pc [] False 0 = Some (Inr vs, pc') \<and> moved ?pc (length ?cs + 1) pc'"
  proof (cases "vs = []")
    case True
    obtain k2 where "k' = Suc k2" using k(2) by (cases k') auto
    with True q(4) a(1) empty_array [of ?pc t s ceq al k2 "[]" 0] show ?thesis by (simp add: moved_def)
  next
    case False
    with array_loop_run [OF al vs False, of ?pc s k' "[]"] q(4) a(1) k(2) show ?thesis by simp
  qed
  then show "\<exists>pc'. ngx_nats_json_parse_value ceq al t k pc = Some (Inr (JArray vs), pc')
      \<and> moved pc (length (json_debug_print_value fmt (JArray vs))) pc'"
    using open_array [OF at al, of ceq k'] by (auto simp: k(1) moved_def simp del: ngx_nats_json_parse_value.simps)
qed

lemma finds_object:
  assumes al: "\<forall>i. al i"
    and fs: "\<And>n v. (n, v) \<in> set fs \<Longrightarrow> finds ceq al t fmt v \<and> n \<noteq> [] \<and> plain n"
  shows "finds ceq al t fmt (JObject fs)"
  unfolding finds_def
proof (intro allI impI)
  fix pc s k
  assume a: "str_ok pc" "drop (c_pos pc) t = json_debug_print_value fmt (JObject fs) @ s"
    "2 * (length t - c_pos pc) + 1 \<le> k"
  let ?cs = "commas (map (print_field fmt) fs)"
  let ?pc = "opened pc"
  have pr: "json_debug_print_value fmt (JObject fs) = CHR ''{'' # ?cs @ ''}''"
    by (simp add: print_field_def)
  have at: "drop (c_pos pc) t = CHR ''{'' # ?cs @ CHR ''}'' # s" using a(2) unfolding pr by simp
  note q = at_Cons [OF at]
  obtain k' where k: "k = Suc k'" "2 * (length t - c_pos ?pc) + 2 \<le> k'"
    using a(3) q(1) by (cases k) auto
  have "\<exists>pc'. json_object_loop ceq al t k' ?pc [] False 0 = Some (Inr fs, pc') \<and> moved ?pc (length ?cs + 1) pc'"
  proof (cases "fs = []")
    case True
    obtain k2 where "k' = Suc k2" using k(2) by (cases k') auto
    with True q(4) a(1) empty_object [of ?pc t s ceq al k2 "[]" 0] show ?thesis by (simp add: moved_def)
  next
    case False
    with object_loop_run [OF al fs False, of ?pc s k' "[]"] q(4) a(1) k(2) show ?thesis by simp
  qed
  then show "\<exists>pc'. ngx_nats_json_parse_value ceq al t k pc = Some (Inr (JObject fs), pc')
      \<and> moved pc (length (json_debug_print_value fmt (JObject fs))) pc'"
    unfolding pr using open_object [OF at al, of ceq k'] by (auto simp: k(1) moved_def simp del: ngx_nats_json_parse_value.simps)
qed

lemma finds_string:
  assumes al: "\<forall>i. al i" and w: "plain w"
  shows "finds ceq al t fmt (JString w)"
  unfolding finds_def
proof (intro allI impI)
  fix pc s k
  assume a: "str_ok pc" "drop (c_pos pc) t = json_debug_print_value fmt (JString w) @ s"
    "2 * (length t - c_pos pc) + 1 \<le> k"
  have at: "drop (c_pos pc) t = CHR 0x22 # w @ CHR 0x22 # s" using a(2) w by (simp add: plain_cstr)
  note q = at_Cons [OF at]
  let ?pc = "pc\<lparr>c_istart := 2 ^ 64 - 1, c_pos := c_pos pc + 1, c_allocs := c_allocs pc + 1\<rparr>"
  obtain pc' where "ngx_nats_json_parse_string al t ?pc (CHR 0x22) = Some (Inr w, pc')"
    "moved ?pc (length w + 1) pc'"
    using string_plain [OF _ _ w al, of ?pc t s] a(1) q(4) by auto
  moreover obtain k' where "k = Suc k'" using a(3) by (cases k) auto
  ultimately show "\<exists>pc'. ngx_nats_json_parse_value ceq al t k pc = Some (Inr (JString w), pc')
      \<and> moved pc (length (json_debug_print_value fmt (JString w))) pc'"
    using skip_none [OF at] q al w
    by (simp add: json_value_step_def pool_alloc_def is_space_def moved_def plain_cstr)
qed

lemma finds_printable:
  assumes "casecmp_ok ceq" and al: "\<forall>i. al i"
  shows "printable v \<Longrightarrow> finds ceq al t fmt v"
proof (induction fmt v rule: json_debug_print_value.induct)
  case (6 fmt fs)
  show ?case
  proof (rule finds_object [OF al])
    show "finds ceq al t fmt v \<and> n \<noteq> [] \<and> plain n" if "(n, v) \<in> set fs" for n v
      using 6 that by (auto simp: list_all_iff)
  qed
next
  case (7 fmt vs)
  show ?case
  proof (rule finds_array [OF al])
    show "finds ceq al t fmt v \<and> printable v" if "v \<in> set vs" for v
      using 7 that by (auto simp: list_all_iff)
  qed
next
  case (5 fmt s)
  then show ?case using finds_string [OF al] by simp
next
  case (3 fmt i)
  then show ?case using value_JInt [OF assms(1), of i] unfolding finds_def by fastforce
next
  case (1 fmt)
  then show ?case using value_word [OF assms(1), of _ t "''null''" _ JNull] unfolding finds_def by fastforce
next
  case (2 fmt b)
  then show ?case using value_word [OF assms(1), of _ t "if b then ''true'' else ''false''" _ "JBool b"]
    unfolding finds_def by (cases b) fastforce+
qed simp

lemma json_parse_printed:
  assumes "casecmp_ok ceq" and "\<forall>i. al i" and "printable v" and "json_type v \<in> {2, 3}"
  shows "ngx_nats_json_parse ceq al addr (ngx_nats_json_debug_print fmt v @ rest) =
    Some (int (length (ngx_nats_json_debug_print fmt v)), Some v)"
proof -
  let ?p = "json_debug_print_value fmt v"
  let ?t = "?p @ rest"
  have "ngx_nats_json_debug_print fmt v = ?p"
    using assms(4) by (auto simp: ngx_nats_json_debug_print_def)
  moreover have "finds ceq al ?t fmt v" by (rule finds_printable [OF assms(1-3)])
  then obtain pc' where "ngx_nats_json_parse_value ceq al ?t (2 * length ?t + 2) (json_init addr) = Some (Inr v, pc')"
    "c_pos pc' = length ?p"
    by (rule findsD [OF _ str_ok_init, of ceq al ?t fmt v addr rest "2 * length ?t + 2"])
      (use assms(4) in \<open>auto simp: json_init_def\<close>)
  moreover have "?t \<noteq> []" using print_start [OF assms(3), of fmt] by auto
  ultimately show ?thesis using assms(2) by (simp add: ngx_nats_json_parse_def)
qed



end
