(* ===== verification/Nats_Print.thy ===== *)
theory Nats_Print
  imports Nats_Protocol
begin

text \<open>
  The formatted output of nginx. \<open>ngx_snprintf\<close> belongs to nginx; the model takes a parameter
  \<open>snpf lim ps\<close>, the bytes it writes for the size \<open>lim\<close> and the format given as the list \<open>ps\<close> of its
  pieces: literal text, a string (\<open>%V\<close>), an unsigned decimal number (\<open>%ui\<close>) and a 32-bit
  hexadecimal number filled with zeros (\<open>%08xD\<close>). Its documented behaviour is \<open>snprintf_ok\<close>: the
  rendered pieces, cut at \<open>lim\<close> bytes and without a terminating zero.
\<close>

datatype piece = Lit bytes | V bytes | UI nat | X nat nat

definition xdigit :: "nat \<Rightarrow> char" where
  "xdigit d = (if d < 10 then char_of (48 + int d) else char_of (87 + int d))"

fun hexd :: "nat \<Rightarrow> bytes" where
  "hexd n = (if n < 16 then [xdigit n] else hexd (n div 16) @ [xdigit (n mod 16)])"

declare hexd.simps [simp del]

definition hex_pad :: "nat \<Rightarrow> nat \<Rightarrow> bytes" where
  "hex_pad w n = replicate (w - length (hexd n)) (CHR ''0'') @ hexd n"

fun render :: "piece \<Rightarrow> bytes" where
  "render (Lit s) = s"
| "render (V s) = s"
| "render (UI n) = dec n"
| "render (X w n) = hex_pad w n"

definition render_all :: "piece list \<Rightarrow> bytes" where
  "render_all ps = concat (map render ps)"

definition snprintf_ok :: "(nat \<Rightarrow> piece list \<Rightarrow> bytes) \<Rightarrow> bool" where
  "snprintf_ok snpf \<longleftrightarrow> (\<forall>lim ps. snpf lim ps = take lim (render_all ps))"

definition snprintf :: "nat \<Rightarrow> piece list \<Rightarrow> bytes" where
  "snprintf lim ps = take lim (render_all ps)"

lemma snprintf_ok_snprintf [simp]: "snprintf_ok snprintf"
  by (simp add: snprintf_ok_def snprintf_def)

section \<open>Hexadecimal numbers\<close>

definition xval :: "char \<Rightarrow> nat" where
  "xval c = (if code c < 58 then nat (code c - 48) else nat (code c - 87))"

definition hexv :: "bytes \<Rightarrow> nat" where
  "hexv s = foldl (\<lambda>v c. v * 16 + xval c) 0 s"

lemma xval_xdigit: "d < 16 \<Longrightarrow> xval (xdigit d) = d"
  by (auto simp: xval_def xdigit_def)

lemma hexv_hexd: "hexv (hexd n) = n"
proof (induction n rule: hexd.induct)
  case (1 n)
  show ?case
  proof (cases "n < 16")
    case True
    then show ?thesis by (subst hexd.simps) (simp add: hexv_def xval_xdigit)
  next
    case False
    with "1.IH" have "foldl (\<lambda>v c. v * 16 + xval c) 0 (hexd (n div 16)) = n div 16" by (simp add: hexv_def)
    with False show ?thesis by (subst hexd.simps) (simp add: hexv_def xval_xdigit)
  qed
qed

lemma hexv_pad: "hexv (hex_pad w n) = n"
proof -
  have "foldl (\<lambda>v c. v * 16 + xval c) 0 (replicate k (CHR ''0'')) = 0" for k
    by (induction k) (simp_all add: xval_def)
  then show ?thesis using hexv_hexd by (simp add: hex_pad_def hexv_def)
qed

lemma length_hexd: "n < 16 ^ w \<Longrightarrow> 0 < w \<Longrightarrow> length (hexd n) \<le> w"
proof (induction n arbitrary: w rule: hexd.induct)
  case (1 n)
  show ?case
  proof (cases "n < 16")
    case True
    with "1.prems" show ?thesis by (subst hexd.simps) simp
  next
    case False
    obtain v where v: "w = Suc v" using "1.prems"(2) by (cases w) auto
    have "v \<noteq> 0" using "1.prems"(1) False v by (cases v) auto
    moreover have "n div 16 < 16 ^ v" using "1.prems"(1) v by (simp add: less_mult_imp_div_less mult.commute)
    ultimately have "length (hexd (n div 16)) \<le> v" using "1.IH" False by simp
    with False v show ?thesis by (subst hexd.simps) simp
  qed
qed

lemma length_hex_pad: "n < 16 ^ w \<Longrightarrow> 0 < w \<Longrightarrow> length (hex_pad w n) = w"
  using length_hexd [of n w] by (simp add: hex_pad_def)

lemma length_dec: "n < 10 ^ w \<Longrightarrow> 0 < w \<Longrightarrow> length (dec n) \<le> w"
proof (induction n arbitrary: w rule: dec.induct)
  case (1 n)
  show ?case
  proof (cases "n < 10")
    case True
    with "1.prems" show ?thesis by (subst dec.simps) simp
  next
    case False
    obtain v where v: "w = Suc v" using "1.prems"(2) by (cases w) auto
    have "v \<noteq> 0" using "1.prems"(1) False v by (cases v) auto
    moreover have "n div 10 < 10 ^ v" using "1.prems"(1) v by (simp add: less_mult_imp_div_less mult.commute)
    ultimately have "length (dec (n div 10)) \<le> v" using "1.IH" False by simp
    with False v show ?thesis by (subst dec.simps) simp
  qed
qed

lemma length_dec_u64:
  assumes "n < 2 ^ 64"
  shows "length (dec n) \<le> 20"
proof (rule length_dec)
  have "(2 :: nat) ^ 64 \<le> 10 ^ 20" by simp
  with assms show "n < 10 ^ 20" by (rule less_le_trans)
qed simp

end
