(* ===== verification/Nats_Random.thy ===== *)
theory Nats_Random
  imports "HOL-Library.Word" Nats_Print
begin

text \<open>
  The random numbers and the inbox names: \<open>ngx_nats_init_random\<close> and \<open>ngx_nats_next_random\<close> of
  \<open>ngx_nats.c\<close> (a pair of multiply-with-carry generators on 32-bit words), \<open>_nats_rand4\<close> and
  \<open>ngx_nats_create_inbox\<close> of \<open>ngx_nats_comm.c\<close>. The bytes of \<open>RAND_bytes\<close> (OpenSSL), the clock, the
  process id and the local address are parameters, as is the product of a random word with a
  double, rounded to \<open>uint32_t\<close>.
\<close>

unbundle bit_operations_syntax

section \<open>The generator\<close>

type_synonym u32 = "32 word"

record rand_state =
  rand_z :: u32
  rand_w :: u32
  rand_z_const :: u32
  rand_w_const :: u32
  rand_init :: bool

definition rand_start :: rand_state where
  "rand_start = \<lparr>rand_z = 362436069, rand_w = 521288629, rand_z_const = 36969,
     rand_w_const = 18000, rand_init = False\<rparr>"

definition ngx_nats_next_random :: "rand_state \<Rightarrow> u32 \<times> rand_state" where
  "ngx_nats_next_random s =
     (let z = rand_z_const s * (rand_z s AND 0xffff) + drop_bit 16 (rand_z s);
          w = rand_w_const s * (rand_w s AND 0xffff) + drop_bit 16 (rand_w s) in
      (push_bit 16 z + (w AND 0xffff), s\<lparr>rand_z := z, rand_w := w\<rparr>))"

definition rand_consts :: "nat \<Rightarrow> u32 \<times> u32" where
  "rand_consts n =
     (if n = 0 then (31083, 18030) else if n = 1 then (31059, 18513)
      else if n = 2 then (30714, 19098) else if n = 3 then (30345, 21723) else (36969, 18000))"

text \<open>
  \<open>scale r k\<close> is \<open>(uint32_t)((double)r * rand_d * k)\<close>; \<open>z0\<close>, \<open>w0\<close> and \<open>r\<close> are the words that the
  three calls of \<open>RAND_bytes\<close> leave in the variables.
\<close>

definition ngx_nats_init_random ::
  "(u32 \<Rightarrow> nat \<Rightarrow> nat) \<Rightarrow> u32 \<Rightarrow> u32 \<Rightarrow> u32 \<Rightarrow> rand_state \<Rightarrow> rand_state" where
  "ngx_nats_init_random scale z0 w0 r s =
     (if rand_init s then s
      else (let (zc, wc) = rand_consts (scale r 4);
                s1 = s\<lparr>rand_init := True, rand_z := z0, rand_w := w0,
                       rand_z_const := zc, rand_w_const := wc\<rparr> in
            ((\<lambda>s. snd (ngx_nats_next_random s)) ^^ scale r 100000) s1))"

section \<open>No overflow, and the congruence\<close>

text \<open>One step of a multiply-with-carry generator on natural numbers.\<close>

definition mwc :: "nat \<Rightarrow> nat \<Rightarrow> nat" where
  "mwc a z = a * (z mod 2 ^ 16) + z div 2 ^ 16"

lemma mwc_bound:
  assumes "a < 2 ^ 16" and "z < 2 ^ 32"
  shows "mwc a z < 2 ^ 32"
proof -
  have "a * (z mod 2 ^ 16) \<le> (2 ^ 16 - 1) * (2 ^ 16 - 1)"
    using assms(1) by (intro mult_mono) (auto simp: Suc_le_eq le_simps)
  moreover have "z div 2 ^ 16 < 2 ^ 16" using assms(2) by (simp add: less_mult_imp_div_less)
  ultimately show ?thesis by (simp add: mwc_def)
qed

lemma mwc_word:
  fixes a z :: u32
  assumes "unat a < 2 ^ 16"
  shows "unat (a * (z AND 0xffff) + drop_bit 16 z) = mwc (unat a) (unat z)"
proof -
  have lo: "unat (z AND 0xffff) = unat z mod 2 ^ 16"
  proof -
    have "z AND 0xffff = take_bit 16 z" by (simp add: take_bit_eq_mask mask_eq_exp_minus_1)
    moreover have "unat (take_bit 16 z) = take_bit 16 (unat z)" by (rule unsigned_take_bit_eq)
    ultimately show ?thesis using take_bit_eq_mod [of 16 "unat z"] by simp
  qed
  have hi: "unat (drop_bit 16 z) = unat z div 2 ^ 16"
    by (simp add: drop_bit_eq_div unat_div)
  have "unat z < 2 ^ 32" using unsigned_less [of z] by simp
  from mwc_bound [OF assms this] show ?thesis
    by (simp add: unat_word_ariths lo hi mwc_def)
qed

definition rand_ok :: "rand_state \<Rightarrow> bool" where
  "rand_ok s \<longleftrightarrow> 0 < rand_z_const s \<and> unat (rand_z_const s) < 2 ^ 16
     \<and> 0 < rand_w_const s \<and> unat (rand_w_const s) < 2 ^ 16"

lemma next_random_state:
  assumes "rand_ok s"
  shows "unat (rand_z (snd (ngx_nats_next_random s))) = mwc (unat (rand_z_const s)) (unat (rand_z s))"
    and "unat (rand_w (snd (ngx_nats_next_random s))) = mwc (unat (rand_w_const s)) (unat (rand_w s))"
    and "rand_ok (snd (ngx_nats_next_random s))"
  using assms by (simp_all add: ngx_nats_next_random_def rand_ok_def Let_def mwc_word)

lemma rand_consts_ok: "unat (fst (rand_consts n)) < 2 ^ 16" "unat (snd (rand_consts n)) < 2 ^ 16"
  "0 < fst (rand_consts n)" "0 < snd (rand_consts n)"
  by (simp_all add: rand_consts_def)

lemma init_random_ok:
  assumes "rand_init s \<Longrightarrow> rand_ok s"
  shows "rand_ok (ngx_nats_init_random scale z0 w0 r s)"
proof (cases "rand_init s")
  case False
  let ?s1 = "s\<lparr>rand_init := True, rand_z := z0, rand_w := w0,
    rand_z_const := fst (rand_consts (scale r 4)), rand_w_const := snd (rand_consts (scale r 4))\<rparr>"
  have "rand_ok ?s1" using rand_consts_ok by (simp add: rand_ok_def)
  then have "rand_ok (((\<lambda>s. snd (ngx_nats_next_random s)) ^^ k) ?s1)" for k
    by (induction k) (simp_all add: next_random_state(3))
  then show ?thesis using False by (simp add: ngx_nats_init_random_def case_prod_beta)
qed (use assms in \<open>simp add: ngx_nats_init_random_def\<close>)

lemma mwc_congruence: "2 ^ 16 * mwc a z = z + (a * 2 ^ 16 - 1) * (z mod 2 ^ 16)" if "0 < a"
proof -
  let ?l = "z mod 2 ^ 16" and ?h = "z div 2 ^ 16"
  have z: "z = 2 ^ 16 * ?h + ?l" by simp
  have "2 ^ 16 * mwc a z = a * 2 ^ 16 * ?l + 2 ^ 16 * ?h" by (simp add: mwc_def algebra_simps)
  also have "\<dots> = (a * 2 ^ 16 - 1) * ?l + ?l + 2 ^ 16 * ?h"
  proof -
    have "1 \<le> a * 2 ^ 16" using that by simp
    then have "a * 2 ^ 16 * ?l = (a * 2 ^ 16 - 1) * ?l + ?l"
      by (metis add.commute le_add_diff_inverse mult_Suc plus_1_eq_Suc)
    then show ?thesis by simp
  qed
  finally show ?thesis using z by linarith
qed

lemma mwc_pos: "0 < a \<Longrightarrow> 0 < z \<Longrightarrow> 0 < mwc a z"
  using div_mult_mod_eq [of z "2 ^ 16"] by (auto simp: mwc_def)

text \<open>
  C31: the multiply-with-carry steps never overflow 32 bits, and each is the multiplicative congruential
  step of Marsaglia's generator: modulo \<open>a * 2 ^ 16 - 1\<close> the new value is the old one divided by
  \<open>2 ^ 16\<close>. A component that is not zero never becomes zero. This holds after every initialisation,
  whatever the random bytes and the roundings are, and after every step.
\<close>

theorem next_random_congruence:
  assumes "rand_init s \<longrightarrow> rand_ok s"
    and "t = ((\<lambda>s. snd (ngx_nats_next_random s)) ^^ k) (ngx_nats_init_random scale z0 w0 r s)"
    and "t' = snd (ngx_nats_next_random t)"
  shows "rand_ok t'
    \<and> 2 ^ 16 * unat (rand_z t') =
        unat (rand_z t) + (unat (rand_z_const t) * 2 ^ 16 - 1) * (unat (rand_z t) mod 2 ^ 16)
    \<and> 2 ^ 16 * unat (rand_w t') =
        unat (rand_w t) + (unat (rand_w_const t) * 2 ^ 16 - 1) * (unat (rand_w t) mod 2 ^ 16)
    \<and> (rand_z t \<noteq> 0 \<longrightarrow> rand_z t' \<noteq> 0) \<and> (rand_w t \<noteq> 0 \<longrightarrow> rand_w t' \<noteq> 0)"
proof -
  have "rand_ok (ngx_nats_init_random scale z0 w0 r s)" using init_random_ok assms(1) by blast
  then have t: "rand_ok t" unfolding assms(2) by (induction k) (simp_all add: next_random_state(3))
  have z: "unat (rand_z t') = mwc (unat (rand_z_const t)) (unat (rand_z t))"
    and w: "unat (rand_w t') = mwc (unat (rand_w_const t)) (unat (rand_w t))"
    using next_random_state [OF t] assms(3) by simp_all
  have pos: "0 < unat (rand_z_const t)" "0 < unat (rand_w_const t)"
    using t by (simp_all add: rand_ok_def word_less_nat_alt)
  have "rand_ok t'" using next_random_state(3) [OF t] assms(3) by simp
  moreover have "rand_z t \<noteq> 0 \<longrightarrow> rand_z t' \<noteq> 0" "rand_w t \<noteq> 0 \<longrightarrow> rand_w t' \<noteq> 0"
    using mwc_pos [OF pos(1), of "unat (rand_z t)"] mwc_pos [OF pos(2), of "unat (rand_w t)"] z w
    by (auto simp flip: unat_eq_zero)
  ultimately show ?thesis
    unfolding z w using mwc_congruence [OF pos(1)] mwc_congruence [OF pos(2)] by blast
qed

theorem next_random_congruence_witness:
  "rand_z (snd (ngx_nats_next_random (ngx_nats_init_random (\<lambda>r k. 0) 5 7 0 rand_start))) \<noteq> 0"
proof -
  have "rand_z (ngx_nats_init_random (\<lambda>r k. 0) 5 7 0 rand_start) \<noteq> 0"
    by (simp add: ngx_nats_init_random_def rand_start_def rand_consts_def)
  moreover have "rand_init rand_start \<longrightarrow> rand_ok rand_start" by (simp add: rand_start_def)
  ultimately show ?thesis
    using next_random_congruence [of rand_start _ 0 "\<lambda>r k. 0" 5 7 0, OF _ refl refl] by simp
qed

section \<open>Inbox names\<close>

definition nats_rand4 :: "u32 \<Rightarrow> u32 \<Rightarrow> u32 \<Rightarrow> u32 \<Rightarrow> u32" where
  "nats_rand4 a b c d = (((a * 31) + b) * 31 + c) * 31 + d"

text \<open>The clock, the process id, the local address and the seeds of the first initialisation.\<close>

record inbox_env =
  i_sec :: u32
  i_msec :: u32
  i_pid :: u32
  i_local :: "bytes option"
  i_scale :: "u32 \<Rightarrow> nat \<Rightarrow> nat"
  i_z :: u32
  i_w :: u32
  i_r :: u32

definition inbox_parts :: "inbox_env \<Rightarrow> rand_state \<Rightarrow> (u32 \<times> u32 \<times> u32 \<times> u32) \<times> rand_state" where
  "inbox_parts e s0 =
     (let ipvar = (case i_local e of None \<Rightarrow> 0
                   | Some name \<Rightarrow> foldl (\<lambda>v c. v * 31 + of_nat (of_char c)) 0 name);
          s = ngx_nats_init_random (i_scale e) (i_z e) (i_w e) (i_r e) s0;
          (r1, s) = ngx_nats_next_random s;
          (r2, s) = ngx_nats_next_random s;
          (r3, s) = ngx_nats_next_random s;
          (r4, s) = ngx_nats_next_random s in
      ((nats_rand4 ipvar r1 (i_pid e) (i_msec e), nats_rand4 ipvar r2 (i_pid e) (i_sec e),
        nats_rand4 ipvar r3 (i_sec e) (i_msec e), r4 AND 0x00ff), s))"

definition inbox_pieces :: "u32 \<times> u32 \<times> u32 \<times> u32 \<Rightarrow> piece list" where
  "inbox_pieces = (\<lambda>(a, b, c, d).
     [Lit ''_INBOX.'', X 8 (unat a), X 8 (unat b), X 8 (unat c), X 2 (unat d)])"

text \<open>\<open>buf\<close> is the memory of the caller, \<open>bufsize\<close> bytes.\<close>

definition ngx_nats_create_inbox ::
  "(nat \<Rightarrow> piece list \<Rightarrow> bytes) \<Rightarrow> inbox_env \<Rightarrow> bytes \<Rightarrow> rand_state \<Rightarrow> (int \<times> bytes \<times> rand_state) option" where
  "ngx_nats_create_inbox snpf e buf s =
     (if length buf < 34 then Some (NGX_ERROR, buf, s)
      else (let (ps, s') = inbox_parts e s; nm = snpf (length buf) (inbox_pieces ps) in
            do { b1 \<leftarrow> mem_put buf 0 nm;
                 b2 \<leftarrow> wr b1 (length nm) NUL;
                 Some (int (length nm), b2, s') }))"

lemma unat_low_byte: "unat (x AND 0x00ff :: u32) < 256"
proof -
  have "x AND 0x00ff = take_bit 8 x" by (simp add: take_bit_eq_mask mask_eq_exp_minus_1)
  moreover have "unat (take_bit 8 x) = take_bit 8 (unat x)" by (rule unsigned_take_bit_eq)
  moreover have "take_bit 8 (unat x) < 2 ^ 8" by (rule take_bit_nat_less_exp)
  ultimately show ?thesis by simp
qed

lemma inbox_length:
  assumes "inbox_parts e s = ((a, b, c, d), s')"
  shows "length (render_all (inbox_pieces (a, b, c, d))) = 33"
proof -
  have "unat x < 16 ^ 8" for x :: u32 using unsigned_less [of x] by simp
  moreover have "unat d < 16 ^ 2"
    using assms unat_low_byte by (auto simp: inbox_parts_def Let_def case_prod_beta)
  ultimately show ?thesis by (simp add: inbox_pieces_def render_all_def length_hex_pad)
qed

text \<open>
  C30: an inbox name fits the buffer that the function accepts. A buffer of fewer than 34 bytes is
  refused and left alone; in any other buffer the name of 33 bytes and its terminating zero are
  written inside the buffer, nothing else is changed, and 33 is returned. The name is \<open>_INBOX.\<close>
  followed by the four parts in hexadecimal, which can be read back from it.
\<close>

theorem create_inbox_fits:
  assumes "snprintf_ok snpf" and "inbox_parts e s = ((a, b, c, d), s')"
    and "nm = ''_INBOX.'' @ hex_pad 8 (unat a) @ hex_pad 8 (unat b) @ hex_pad 8 (unat c) @ hex_pad 2 (unat d)"
  shows "ngx_nats_create_inbox snpf e buf s =
      (if length buf < 34 then Some (NGX_ERROR, buf, s)
       else Some (33, nm @ [NUL] @ drop 34 buf, s'))
    \<and> length nm = 33
    \<and> map (\<lambda>i. hexv (slice nm i (i + 8))) [7, 15, 23] = [unat a, unat b, unat c]
    \<and> hexv (drop 31 nm) = unat d"
proof -
  have nm: "nm = render_all (inbox_pieces (a, b, c, d))"
    using assms(3) by (simp add: inbox_pieces_def render_all_def)
  have len: "length nm = 33" unfolding nm by (rule inbox_length [OF assms(2)])
  have p: "length (hex_pad 8 (unat x)) = 8" for x :: u32
    using unsigned_less [of x] by (intro length_hex_pad) simp_all
  have "slice nm 7 15 = hex_pad 8 (unat a)" "slice nm 15 23 = hex_pad 8 (unat b)"
    "slice nm 23 31 = hex_pad 8 (unat c)" "drop 31 nm = hex_pad 2 (unat d)"
    unfolding assms(3) by (simp_all add: slice_def p)
  then have parts: "map (\<lambda>i. hexv (slice nm i (i + 8))) [7, 15, 23] = [unat a, unat b, unat c]"
    "hexv (drop 31 nm) = unat d" by (simp_all add: hexv_pad)
  have "ngx_nats_create_inbox snpf e buf s = Some (33, nm @ [NUL] @ drop 34 buf, s')" if "34 \<le> length buf"
  proof -
    have sn: "snpf (length buf) (inbox_pieces (a, b, c, d)) = nm"
      using assms(1) that len by (simp add: snprintf_ok_def nm)
    have "(nm @ drop 33 buf)[33 := NUL] = nm @ [NUL] @ drop 34 buf"
      using that len by (simp add: list_update_append Cons_nth_drop_Suc [symmetric])
    then show ?thesis using that len sn assms(2)
      by (simp add: ngx_nats_create_inbox_def mem_put_def)
  qed
  then show ?thesis using len parts by (simp add: ngx_nats_create_inbox_def)
qed

theorem create_inbox_fits_witness:
  "\<exists>t s'. ngx_nats_create_inbox snprintf
       \<lparr>i_sec = 1, i_msec = 2, i_pid = 3, i_local = None, i_scale = \<lambda>r k. 0, i_z = 4, i_w = 5, i_r = 6\<rparr>
       (replicate 40 NUL) rand_start = Some (33, t @ [NUL] @ replicate 6 NUL, s') \<and> length t = 33"
proof -
  let ?e = "\<lparr>i_sec = 1, i_msec = 2, i_pid = 3, i_local = None, i_scale = \<lambda>r k. 0, i_z = 4, i_w = 5, i_r = 6\<rparr>"
  obtain a b c d s' where "inbox_parts ?e rand_start = ((a, b, c, d), s')"
    by (metis prod.exhaust)
  from create_inbox_fits [OF snprintf_ok_snprintf this refl, of "replicate 40 NUL"]
  show ?thesis by (auto simp: numeral_eq_Suc)
qed

end
