(* ===== verification/Nats_Subs.thy ===== *)
theory Nats_Subs
  imports Nats_Prelude
begin

text \<open>
  The table of subscriptions of \<open>ngx_nats_comm.c\<close>: \<open>ngx_nats_get_subscription\<close>,
  \<open>ngx_nats_add_subscription\<close>, \<open>ngx_nats_remove_subscription\<close>, the part of \<open>ngx_nats_subscribe\<close> that
  fills the new entry and the part of \<open>ngx_nats_process_msg\<close> that counts a delivery. The table is the
  array \<open>nd->cd.subs\<close> as a list; an entry with sid 0 is free. The locale \<open>sub_table\<close> is the contract,
  a map from sids to subscriptions with fresh sids, and the interpretation \<open>subs\<close> discharges it.
\<close>

section \<open>Data and operations\<close>

text \<open>Pointers (client, handler, subscription data) are numbers.\<close>

record ngx_nats_subscription =
  su_client :: nat
  su_handler :: nat
  su_data :: nat
  su_sid :: int
  su_max :: int
  su_recv :: int

type_synonym subs = "ngx_nats_subscription list"

text \<open>The loop all three functions have: the first entry with a given sid.\<close>

fun find_sid :: "int \<Rightarrow> subs \<Rightarrow> nat option" where
  "find_sid sid [] = None"
| "find_sid sid (s # ss) = (if su_sid s = sid then Some 0 else map_option Suc (find_sid sid ss))"

definition ngx_nats_get_subscription :: "subs \<Rightarrow> int \<Rightarrow> nat option" where
  "ngx_nats_get_subscription ss sid = find_sid sid ss"

text \<open>\<open>ok\<close> is the outcome of \<open>ngx_array_push\<close> and \<open>junk\<close> the contents of the memory it returns.\<close>

definition ngx_nats_add_subscription ::
  "bool \<Rightarrow> ngx_nats_subscription \<Rightarrow> subs \<Rightarrow> int \<Rightarrow> (nat \<times> subs) option" where
  "ngx_nats_add_subscription ok junk ss sid =
     (case find_sid 0 ss of Some i \<Rightarrow> Some (i, ss)
      | None \<Rightarrow> if \<not> ok then None else Some (length ss, ss @ [junk\<lparr>su_sid := sid\<rparr>]))"

definition ngx_nats_remove_subscription :: "subs \<Rightarrow> int \<Rightarrow> int \<times> subs" where
  "ngx_nats_remove_subscription ss sid =
     (if sid = 0 then (sid, ss)
      else case find_sid sid ss of Some i \<Rightarrow> (sid, ss[i := (ss ! i)\<lparr>su_sid := 0\<rparr>])
           | None \<Rightarrow> (0, ss))"

text \<open>The entry \<open>ngx_nats_subscribe\<close> writes; \<open>None\<close> is the failed push.\<close>

definition fill_subscription ::
  "bool \<Rightarrow> ngx_nats_subscription \<Rightarrow> subs \<Rightarrow> int \<Rightarrow> nat \<Rightarrow> nat \<Rightarrow> nat \<Rightarrow> int \<Rightarrow> subs option" where
  "fill_subscription ok junk ss sid client handler data lim =
     (case ngx_nats_add_subscription ok junk ss sid of None \<Rightarrow> None
      | Some (i, ss') \<Rightarrow>
          Some (ss'[i := (ss' ! i)\<lparr>su_client := client, su_handler := handler, su_data := data,
                                   su_sid := sid, su_max := lim, su_recv := 0\<rparr>]))"

text \<open>\<open>if (sub->max > 0) { sub->recv++; if (sub->recv >= sub->max) remove }\<close>.\<close>

definition count_delivery :: "subs \<Rightarrow> nat \<Rightarrow> subs" where
  "count_delivery ss i =
     (let s = ss ! i in
      if su_max s > 0
      then (let s' = s\<lparr>su_recv := s64 (su_recv s + 1)\<rparr>; ss' = ss[i := s'] in
            if su_recv s' \<ge> su_max s' then snd (ngx_nats_remove_subscription ss' (su_sid s')) else ss')
      else ss)"

section \<open>The contract\<close>

text \<open>The operations of a client on the table, and the map they maintain.\<close>

datatype 's sub_op = Sub 's | Unsub int

fun map_run :: "int \<Rightarrow> (int \<rightharpoonup> 's) \<Rightarrow> 's sub_op list \<Rightarrow> int \<times> (int \<rightharpoonup> 's)" where
  "map_run n m [] = (n, m)"
| "map_run n m (Sub s # ops) = map_run (n + 1) (m(n + 1 \<mapsto> s)) ops"
| "map_run n m (Unsub sid # ops) = map_run n (m(sid := None)) ops"

fun table_run ::
  "('t \<Rightarrow> int \<Rightarrow> 's \<Rightarrow> 't) \<Rightarrow> ('t \<Rightarrow> int \<Rightarrow> 't) \<Rightarrow> int \<Rightarrow> 't \<Rightarrow> 's sub_op list \<Rightarrow> int \<times> 't" where
  "table_run reg rem n t [] = (n, t)"
| "table_run reg rem n t (Sub s # ops) = table_run reg rem (n + 1) (reg t (n + 1) s) ops"
| "table_run reg rem n t (Unsub sid # ops) = table_run reg rem n (rem t sid) ops"

locale sub_table =
  fixes wf :: "int \<Rightarrow> 't \<Rightarrow> bool"
    and lookup :: "'t \<Rightarrow> int \<Rightarrow> 's option"
    and reg :: "'t \<Rightarrow> int \<Rightarrow> 's \<Rightarrow> 't"
    and rem :: "'t \<Rightarrow> int \<Rightarrow> 't"
  assumes reg_wf: "0 \<le> n \<Longrightarrow> wf n t \<Longrightarrow> wf (n + 1) (reg t (n + 1) s)"
    and reg_lookup: "0 \<le> n \<Longrightarrow> wf n t \<Longrightarrow> lookup (reg t (n + 1) s) sid = (if sid = n + 1 then Some s else lookup t sid)"
    and rem_wf: "wf n t \<Longrightarrow> wf n (rem t sid)"
    and rem_lookup: "wf n t \<Longrightarrow> lookup (rem t sid) sid' = (if sid' = sid then None else lookup t sid')"
begin

lemma run_refines:
  "0 \<le> n \<Longrightarrow> wf n t \<Longrightarrow> table_run reg rem n t ops = (n', t') \<Longrightarrow>
     map_run n (lookup t) ops = (n', lookup t') \<and> wf n' t' \<and> n \<le> n'"
proof (induction ops arbitrary: n t)
  case (Cons op ops)
  show ?case
  proof (cases op)
    case (Sub s)
    have eq: "lookup (reg t (n + 1) s) = (lookup t)(n + 1 \<mapsto> s)"
      using reg_lookup [OF Cons.prems(1,2)] by (auto simp: fun_eq_iff)
    have "map_run (n + 1) (lookup (reg t (n + 1) s)) ops = (n', lookup t') \<and> wf n' t' \<and> n + 1 \<le> n'"
      using Sub Cons.prems reg_wf [OF Cons.prems(1,2)] by (intro Cons.IH) auto
    with Sub show ?thesis unfolding eq by simp
  next
    case (Unsub sid)
    have eq: "lookup (rem t sid) = (lookup t)(sid := None)"
      using rem_lookup [OF Cons.prems(2)] by (auto simp: fun_eq_iff)
    have "map_run n (lookup (rem t sid)) ops = (n', lookup t') \<and> wf n' t' \<and> n \<le> n'"
      using Unsub Cons.prems rem_wf [OF Cons.prems(2)] by (intro Cons.IH) auto
    with Unsub show ?thesis unfolding eq by simp
  qed
qed auto

end

section \<open>The array implements the contract\<close>

text \<open>Sids in use are distinct and were given out; sid 0 marks a free entry.\<close>

definition subs_wf :: "int \<Rightarrow> subs \<Rightarrow> bool" where
  "subs_wf n ss \<longleftrightarrow> (\<forall>s \<in> set ss. 0 \<le> su_sid s \<and> su_sid s \<le> n)
     \<and> (\<forall>i < length ss. \<forall>j < length ss. su_sid (ss ! i) = su_sid (ss ! j) \<longrightarrow> su_sid (ss ! i) \<noteq> 0 \<longrightarrow> i = j)"

definition lookup_sub :: "subs \<Rightarrow> int \<Rightarrow> ngx_nats_subscription option" where
  "lookup_sub ss sid = (if sid = 0 then None else map_option ((!) ss) (ngx_nats_get_subscription ss sid))"

text \<open>What a client asks for: client, handler, data and the maximal number of messages.\<close>

type_synonym sub_req = "nat \<times> nat \<times> nat \<times> int"

definition req_of :: "ngx_nats_subscription \<Rightarrow> sub_req" where
  "req_of s = (su_client s, su_handler s, su_data s, su_max s)"

definition lookup_req :: "subs \<Rightarrow> int \<Rightarrow> sub_req option" where
  "lookup_req ss sid = map_option req_of (lookup_sub ss sid)"

definition register :: "ngx_nats_subscription \<Rightarrow> subs \<Rightarrow> int \<Rightarrow> sub_req \<Rightarrow> subs" where
  "register junk ss sid = (\<lambda>(client, handler, data, lim).
     the (fill_subscription True junk ss sid client handler data lim))"

definition unregister :: "subs \<Rightarrow> int \<Rightarrow> subs" where
  "unregister ss sid = snd (ngx_nats_remove_subscription ss sid)"

lemma find_sid_Some:
  "find_sid sid ss = Some i \<Longrightarrow> i < length ss \<and> su_sid (ss ! i) = sid \<and> (\<forall>j < i. su_sid (ss ! j) \<noteq> sid)"
proof (induction ss arbitrary: i)
  case (Cons s ss)
  show ?case
  proof (cases "su_sid s = sid")
    case False
    with Cons.prems obtain k where k: "i = Suc k" "find_sid sid ss = Some k" by auto
    from Cons.IH [OF k(2)] False k(1) show ?thesis by (auto simp: nth_Cons' gr0_conv_Suc)
  qed (use Cons.prems in simp)
qed simp

lemma find_sid_None: "find_sid sid ss = None \<longleftrightarrow> (\<forall>s \<in> set ss. su_sid s \<noteq> sid)"
  by (induction ss) auto

lemma find_sid_unique:
  assumes "subs_wf n ss" and "sid \<noteq> 0" and "i < length ss" and "su_sid (ss ! i) = sid"
  shows "find_sid sid ss = Some i"
proof (cases "find_sid sid ss")
  case None
  with assms show ?thesis by (auto simp: find_sid_None)
next
  case (Some j)
  with find_sid_Some [OF Some] assms show ?thesis by (auto simp: subs_wf_def)
qed

lemma lookup_iff:
  assumes "subs_wf n ss"
  shows "lookup_sub ss sid = Some s \<longleftrightarrow> sid \<noteq> 0 \<and> su_sid s = sid \<and> s \<in> set ss"
proof
  assume "lookup_sub ss sid = Some s"
  then obtain i where "sid \<noteq> 0" "find_sid sid ss = Some i" "s = ss ! i"
    by (auto simp: lookup_sub_def ngx_nats_get_subscription_def split: if_splits)
  with find_sid_Some show "sid \<noteq> 0 \<and> su_sid s = sid \<and> s \<in> set ss" by auto
next
  assume *: "sid \<noteq> 0 \<and> su_sid s = sid \<and> s \<in> set ss"
  then obtain i where "i < length ss" "ss ! i = s" by (auto simp: in_set_conv_nth)
  with * find_sid_unique [OF assms, of sid i] show "lookup_sub ss sid = Some s"
    by (simp add: lookup_sub_def ngx_nats_get_subscription_def)
qed

lemma set_update_iff:
  "i < length ss \<Longrightarrow> x \<in> set (ss[i := e]) \<longleftrightarrow> x = e \<or> (\<exists>j < length ss. j \<noteq> i \<and> x = ss ! j)"
  by (auto simp: in_set_conv_nth nth_list_update split: if_splits)

text \<open>An entry is overwritten by one with another sid.\<close>

lemma subs_wf_update:
  assumes "subs_wf n ss" and "i < length ss" and "n \<le> n'" and "0 \<le> su_sid s" and "su_sid s \<le> n'"
    and "su_sid s = 0 \<or> (\<forall>j < length ss. j \<noteq> i \<longrightarrow> su_sid (ss ! j) \<noteq> su_sid s)"
  shows "subs_wf n' (ss[i := s])"
proof -
  have "0 \<le> su_sid x \<and> su_sid x \<le> n'" if "x \<in> set (ss[i := s])" for x
    using that set_update_subset_insert [of ss i s] assms by (fastforce simp: subs_wf_def)
  moreover have "j = k" if "j < length ss" "k < length ss" "su_sid (ss[i := s] ! j) = su_sid (ss[i := s] ! k)"
    "su_sid (ss[i := s] ! j) \<noteq> 0" for j k
    using that assms by (cases "j = i"; cases "k = i") (auto simp: subs_wf_def)
  ultimately show ?thesis by (simp add: subs_wf_def)
qed

lemma subs_wf_append:
  assumes "subs_wf n ss" and "0 \<le> su_sid s" and "su_sid s \<le> n'" and "n \<le> n'"
    and "\<forall>x \<in> set ss. su_sid x \<noteq> su_sid s"
  shows "subs_wf n' (ss @ [s])"
  using assms by (auto simp: subs_wf_def nth_append less_Suc_eq)

text \<open>A filled entry: the table has it under the new sid and is otherwise the same.\<close>

lemma fill_cases:
  assumes wf: "subs_wf n ss" and n: "0 \<le> n"
    and fill: "fill_subscription ok junk ss (n + 1) client handler data lim = Some ss'"
    and e: "e = \<lparr>su_client = client, su_handler = handler, su_data = data, su_sid = n + 1,
                 su_max = lim, su_recv = 0\<rparr>"
  obtains i where "i < length ss" "su_sid (ss ! i) = 0" "ss' = ss[i := e]" | "ss' = ss @ [e]"
proof (cases "find_sid 0 ss")
  case (Some i)
  have "(ss ! i)\<lparr>su_client := client, su_handler := handler, su_data := data, su_sid := n + 1,
      su_max := lim, su_recv := 0\<rparr> = e" using e by simp
  with Some fill have "ss' = ss[i := e]"
    by (simp add: fill_subscription_def ngx_nats_add_subscription_def)
  with find_sid_Some [OF Some] show ?thesis by (intro that(1)) auto
next
  case None
  have "junk\<lparr>su_sid := n + 1, su_client := client, su_handler := handler, su_data := data,
      su_sid := n + 1, su_max := lim, su_recv := 0\<rparr> = e" using e by simp
  with None fill have "ss' = ss @ [e]"
    by (auto simp: fill_subscription_def ngx_nats_add_subscription_def split: if_splits)
  then show ?thesis by (rule that(2))
qed

lemma fill_wf:
  assumes wf: "subs_wf n ss" and n: "0 \<le> n"
    and fill: "fill_subscription ok junk ss (n + 1) client handler data lim = Some ss'"
  shows "subs_wf (n + 1) ss'"
    and "lookup_sub ss' sid = (if sid = n + 1
      then Some \<lparr>su_client = client, su_handler = handler, su_data = data, su_sid = n + 1,
                 su_max = lim, su_recv = 0\<rparr> else lookup_sub ss sid)"
proof -
  let ?e = "\<lparr>su_client = client, su_handler = handler, su_data = data, su_sid = n + 1,
    su_max = lim, su_recv = 0\<rparr>"
  have fresh: "\<forall>x \<in> set ss. su_sid x \<noteq> n + 1" using wf by (auto simp: subs_wf_def)
  have both: "subs_wf (n + 1) ss' \<and> set ss' \<inter> {s. su_sid s \<noteq> 0} = insert ?e (set ss \<inter> {s. su_sid s \<noteq> 0})"
  proof (rule fill_cases [OF wf n fill refl])
    fix i
    assume i: "i < length ss" "su_sid (ss ! i) = 0" "ss' = ss[i := ?e]"
    have "s \<in> set ss' \<longleftrightarrow> s = ?e \<or> s \<in> set ss" if "su_sid s \<noteq> 0" for s
      unfolding i(3) set_update_iff [OF i(1)] using that i(2) by (auto simp: in_set_conv_nth)
    then have "set ss' \<inter> {s. su_sid s \<noteq> 0} = insert ?e (set ss \<inter> {s. su_sid s \<noteq> 0})"
      using n by auto
    moreover have "subs_wf (n + 1) ss'"
      unfolding i(3) using wf i n fresh by (intro subs_wf_update) auto
    ultimately show ?thesis by simp
  next
    assume "ss' = ss @ [?e]"
    with subs_wf_append [OF wf, of ?e "n + 1"] fresh n show ?thesis by auto
  qed
  then show wf': "subs_wf (n + 1) ss'" by simp
  have mem: "sid \<noteq> 0 \<Longrightarrow> su_sid s = sid \<Longrightarrow> s \<in> set ss' \<longleftrightarrow> s = ?e \<or> s \<in> set ss" for s
    using both by auto
  have "lookup_sub ss' sid = Some s \<longleftrightarrow> (if sid = n + 1 then Some ?e else lookup_sub ss sid) = Some s" for s
    using lookup_iff [OF wf', of sid s] lookup_iff [OF wf, of sid s] mem [of s] fresh n by auto
  then show "lookup_sub ss' sid = (if sid = n + 1 then Some ?e else lookup_sub ss sid)"
    by (metis option.exhaust)
qed

lemma remove_wf:
  assumes wf: "subs_wf n ss"
  shows "subs_wf n (snd (ngx_nats_remove_subscription ss sid))"
    and "lookup_sub (snd (ngx_nats_remove_subscription ss sid)) sid' =
      (if sid' = sid then None else lookup_sub ss sid')"
    and "fst (ngx_nats_remove_subscription ss sid) = (if lookup_sub ss sid = None then 0 else sid)"
proof -
  let ?ss = "snd (ngx_nats_remove_subscription ss sid)"
  have both: "subs_wf n ?ss \<and> (\<forall>s. su_sid s \<noteq> 0 \<longrightarrow> s \<in> set ?ss \<longleftrightarrow> s \<in> set ss \<and> su_sid s \<noteq> sid)"
  proof (cases "sid = 0 \<or> find_sid sid ss = None")
    case True
    then have "?ss = ss" and "sid = 0 \<or> (\<forall>s \<in> set ss. su_sid s \<noteq> sid)"
      by (auto simp: ngx_nats_remove_subscription_def find_sid_None [symmetric])
    then show ?thesis using wf by auto
  next
    case False
    then obtain i where i: "find_sid sid ss = Some i" "sid \<noteq> 0" by auto
    note fs = find_sid_Some [OF i(1)]
    have ss: "?ss = ss[i := (ss ! i)\<lparr>su_sid := 0\<rparr>]" using i by (simp add: ngx_nats_remove_subscription_def)
    have "0 \<le> n" using fs wf i(2) by (auto simp: subs_wf_def dest!: nth_mem)
    then have w: "subs_wf n ?ss" unfolding ss using fs by (intro subs_wf_update [OF wf]) auto
    have "su_sid (ss ! j) \<noteq> sid" if "j < length ss" "j \<noteq> i" for j
      using find_sid_unique [OF wf i(2) that(1)] i(1) that(2) by auto
    then have "s \<in> set ?ss \<longleftrightarrow> s \<in> set ss \<and> su_sid s \<noteq> sid" if "su_sid s \<noteq> 0" for s
      unfolding ss set_update_iff [OF conjunct1 [OF fs]] using that fs
      by (auto simp: in_set_conv_nth)
    with w show ?thesis by blast
  qed
  then show wf': "subs_wf n ?ss" by simp
  have "lookup_sub ?ss sid' = Some s \<longleftrightarrow> (if sid' = sid then None else lookup_sub ss sid') = Some s" for s
    using lookup_iff [OF wf', of sid' s] lookup_iff [OF wf, of sid' s] both by auto
  then show "lookup_sub ?ss sid' = (if sid' = sid then None else lookup_sub ss sid')"
    by (metis option.exhaust)
  show "fst (ngx_nats_remove_subscription ss sid) = (if lookup_sub ss sid = None then 0 else sid)"
    by (auto simp: ngx_nats_remove_subscription_def lookup_sub_def ngx_nats_get_subscription_def
        split: option.splits)
qed

lemma fill_total: "fill_subscription True junk ss sid client handler data lim \<noteq> None"
  by (auto simp: fill_subscription_def ngx_nats_add_subscription_def split: option.splits)

interpretation subs: sub_table subs_wf lookup_req "register junk" unregister for junk
proof unfold_locales
  fix n ss sid and s :: sub_req
  assume n: "0 \<le> n" and wf: "subs_wf n ss"
  obtain c h d m where s: "s = (c, h, d, m)" by (cases s)
  obtain ss' where fill: "fill_subscription True junk ss (n + 1) c h d m = Some ss'"
    using fill_total by blast
  from fill_wf [OF wf n fill] show "subs_wf (n + 1) (register junk ss (n + 1) s)"
    by (simp add: register_def s fill)
  show "lookup_req (register junk ss (n + 1) s) sid = (if sid = n + 1 then Some s else lookup_req ss sid)"
    using fill_wf(2) [OF wf n fill] by (simp add: register_def s fill lookup_req_def req_of_def)
next
  fix n ss sid sid'
  assume "subs_wf n ss"
  from remove_wf [OF this] show "subs_wf n (unregister ss sid)"
    and "lookup_req (unregister ss sid) sid' = (if sid' = sid then None else lookup_req ss sid')"
    by (simp_all add: unregister_def lookup_req_def)
qed

text \<open>
  C16: the table is a map from sids to subscriptions. After any sequence of subscribe and unsubscribe
  requests on a new connection, looking up a sid gives exactly what a map with fresh sids
  \<open>1, 2, 3, ...\<close> gives: the request made under that sid if it was not removed since, and nothing else,
  although entries of removed subscriptions are reused.
\<close>

theorem subscriptions_are_a_map:
  assumes "table_run (register junk) unregister 0 [] ops = (n, ss)"
  shows "map_run 0 Map.empty ops = (n, lookup_req ss) \<and> subs_wf n ss"
proof -
  have "subs_wf 0 []" by (simp add: subs_wf_def)
  moreover have "lookup_req [] = Map.empty"
    by (simp add: fun_eq_iff lookup_req_def lookup_sub_def ngx_nats_get_subscription_def)
  ultimately show ?thesis using subs.run_refines [OF _ _ assms] by simp
qed

theorem subscriptions_are_a_map_witness:
  "lookup_req (snd (table_run (register \<lparr>su_client = 0, su_handler = 0, su_data = 0, su_sid = 9,
       su_max = 0, su_recv = 7\<rparr>) unregister 0 []
       [Sub (1, 10, 100, 0), Sub (2, 20, 200, 5), Unsub 1, Sub (3, 30, 300, 0)])) 3 = Some (3, 30, 300, 0)"
proof -
  let ?j = "\<lparr>su_client = 0, su_handler = 0, su_data = 0, su_sid = 9, su_max = 0, su_recv = 7\<rparr>"
  let ?ops = "[Sub (1, 10, 100, 0), Sub (2, 20, 200, 5), Unsub 1, Sub (3, 30, 300, 0)]"
  obtain n ss where r: "table_run (register ?j) unregister 0 [] ?ops = (n, ss)" by (metis prod.exhaust)
  from subscriptions_are_a_map [OF r]
  have "lookup_req ss = snd (map_run 0 Map.empty ?ops)" by simp
  with r show ?thesis by simp
qed

section \<open>Counting deliveries\<close>

text \<open>What a MSG does to the table: \<open>ngx_nats_process_msg\<close> looks the sid up and counts.\<close>

definition deliver :: "int \<Rightarrow> subs \<Rightarrow> subs" where
  "deliver sid ss =
     (case ngx_nats_get_subscription ss sid of None \<Rightarrow> ss | Some i \<Rightarrow> count_delivery ss i)"

lemma deliver_step:
  assumes wf: "subs_wf n ss" and s: "lookup_sub ss sid = Some s" and r: "0 \<le> su_recv s"
    and m: "0 < su_max s" "su_max s < 2 ^ 63" "su_recv s < su_max s"
  shows "subs_wf n (deliver sid ss)"
    and "lookup_sub (deliver sid ss) sid' =
      (if sid' = sid then (if su_recv s + 1 < su_max s then Some (s\<lparr>su_recv := su_recv s + 1\<rparr>) else None)
       else lookup_sub ss sid')"
proof -
  obtain i where i: "find_sid sid ss = Some i" "s = ss ! i" "sid \<noteq> 0"
    using s by (auto simp: lookup_sub_def ngx_nats_get_subscription_def split: if_splits)
  note fs = find_sid_Some [OF i(1)]
  have sid: "su_sid s = sid" "0 \<le> sid" "sid \<le> n"
    using fs i wf by (auto simp: subs_wf_def)
  let ?s = "s\<lparr>su_recv := su_recv s + 1\<rparr>" and ?ss = "ss[i := s\<lparr>su_recv := su_recv s + 1\<rparr>]"
  have s64: "s64 (su_recv s + 1) = su_recv s + 1" using r m by (intro s64_id) auto
  have others: "\<forall>j < length ss. j \<noteq> i \<longrightarrow> su_sid (ss ! j) \<noteq> sid"
    using find_sid_unique [OF wf i(3)] i(1) by fastforce
  then have wf': "subs_wf n ?ss" using fs sid by (intro subs_wf_update [OF wf]) auto
  have "y \<in> set ?ss \<longleftrightarrow> y = ?s \<or> y \<in> set ss \<and> su_sid y \<noteq> sid" for y
    unfolding set_update_iff [OF conjunct1 [OF fs]] using others fs by (auto simp: in_set_conv_nth)
  then have "lookup_sub ?ss x = Some y \<longleftrightarrow> (if x = sid then Some ?s else lookup_sub ss x) = Some y" for x y
    using lookup_iff [OF wf', of x y] lookup_iff [OF wf, of x y] sid i(3) by auto
  then have look: "lookup_sub ?ss x = (if x = sid then Some ?s else lookup_sub ss x)" for x
    by (metis option.exhaust)
  have d: "deliver sid ss = (if su_recv s + 1 < su_max s then ?ss
      else snd (ngx_nats_remove_subscription ?ss sid))"
    using i m sid s64 by (simp add: deliver_def ngx_nats_get_subscription_def count_delivery_def Let_def)
  show "subs_wf n (deliver sid ss)" using d wf' remove_wf(1) [OF wf'] by simp
  show "lookup_sub (deliver sid ss) sid' =
      (if sid' = sid then (if su_recv s + 1 < su_max s then Some ?s else None) else lookup_sub ss sid')"
    using d look remove_wf(2) [OF wf', of sid] by simp
qed

lemma deliver_absent: "lookup_sub ss sid = None \<Longrightarrow> sid \<noteq> 0 \<Longrightarrow> deliver sid ss = ss"
  by (auto simp: deliver_def lookup_sub_def split: option.splits)

text \<open>
  C22: a subscription with a maximum of \<open>m\<close> messages receives exactly \<open>m\<close>. While fewer than \<open>m\<close>
  messages have been delivered under its sid it stays in the table, with the number of messages
  received; from the \<open>m\<close>-th on it is gone; and no other subscription is affected.
\<close>

theorem max_deliveries:
  assumes "subs_wf n ss" and "lookup_sub ss sid = Some s" and "su_recv s = 0"
    and "su_max s = int m" and "0 < m" and "m < 2 ^ 63"
  shows "lookup_sub ((deliver sid ^^ k) ss) sid =
      (if k < m then Some (s\<lparr>su_recv := int k\<rparr>) else None)
    \<and> (sid' \<noteq> sid \<longrightarrow> lookup_sub ((deliver sid ^^ k) ss) sid' = lookup_sub ss sid')"
proof -
  have nz: "sid \<noteq> 0" using assms(2) by (auto simp: lookup_sub_def)
  have "subs_wf n ((deliver sid ^^ k) ss)
    \<and> lookup_sub ((deliver sid ^^ k) ss) sid = (if k < m then Some (s\<lparr>su_recv := int k\<rparr>) else None)
    \<and> (\<forall>sid'. sid' \<noteq> sid \<longrightarrow> lookup_sub ((deliver sid ^^ k) ss) sid' = lookup_sub ss sid')"
  proof (induction k)
    case 0
    have "s\<lparr>su_recv := 0\<rparr> = s" using assms(3) by (cases s) simp
    with assms show ?case by simp
  next
    case (Suc k)
    let ?ss = "(deliver sid ^^ k) ss"
    show ?case
    proof (cases "k < m")
      case True
      let ?s = "s\<lparr>su_recv := int k\<rparr>"
      have "lookup_sub ?ss sid = Some ?s" "subs_wf n ?ss" using Suc True by auto
      note step = deliver_step [OF this(2) this(1)]
      have "0 \<le> su_recv ?s" "0 < su_max ?s" "su_max ?s < 2 ^ 63" "su_recv ?s < su_max ?s"
        using assms True by auto
      note step = step [OF this]
      show ?thesis using step Suc assms(4) by (auto simp: add.commute)
    next
      case False
      with Suc deliver_absent [OF _ nz, of ?ss] show ?thesis by auto
    qed
  qed
  then show ?thesis by blast
qed

theorem max_deliveries_witness:
  "lookup_sub ((deliver 1 ^^ 2) [\<lparr>su_client = 1, su_handler = 2, su_data = 3, su_sid = 1, su_max = 2, su_recv = 0\<rparr>]) 1
     = None"
proof -
  let ?s = "\<lparr>su_client = 1, su_handler = 2, su_data = 3, su_sid = 1, su_max = 2, su_recv = 0\<rparr>"
  have "subs_wf 1 [?s]" "lookup_sub [?s] 1 = Some ?s" "su_recv ?s = 0" "su_max ?s = int 2"
    by (simp_all add: subs_wf_def lookup_sub_def ngx_nats_get_subscription_def)
  from max_deliveries [OF this, of 2] show ?thesis by simp
qed

text \<open>
  Sid 0 is not reserved when messages are dispatched. After a subscription is removed, a MSG with
  sid 0 is dispatched to the free entry it left (or to an earlier free entry): the lookup that
  \<open>ngx_nats_process_msg\<close> makes returns an entry whose subscription was removed.
\<close>

theorem removed_subscription_reachable:
  assumes "subs_wf n ss" and "lookup_sub ss sid = Some s"
  shows "\<exists>i ss'. ngx_nats_remove_subscription ss sid = (sid, ss')
    \<and> ngx_nats_get_subscription ss' 0 = Some i \<and> i < length ss' \<and> su_sid (ss' ! i) = 0"
proof -
  obtain i where i: "find_sid sid ss = Some i" "sid \<noteq> 0"
    using assms(2) by (auto simp: lookup_sub_def ngx_nats_get_subscription_def split: if_splits)
  let ?ss = "ss[i := (ss ! i)\<lparr>su_sid := 0\<rparr>]"
  have "(ss ! i)\<lparr>su_sid := 0\<rparr> \<in> set ?ss" using find_sid_Some [OF i(1)] by (simp add: set_update_memI)
  then have "find_sid 0 ?ss \<noteq> None" unfolding find_sid_None by force
  then obtain j where j: "find_sid 0 ?ss = Some j" by blast
  with i find_sid_Some [OF j] show ?thesis
    by (auto simp: ngx_nats_remove_subscription_def ngx_nats_get_subscription_def)
qed

theorem removed_subscription_reachable_witness:
  "\<exists>i ss'. ngx_nats_remove_subscription
       [\<lparr>su_client = 1, su_handler = 2, su_data = 3, su_sid = 1, su_max = 0, su_recv = 0\<rparr>] 1 = (1, ss')
     \<and> ngx_nats_get_subscription ss' 0 = Some i"
proof -
  let ?s = "\<lparr>su_client = 1, su_handler = 2, su_data = 3, su_sid = 1, su_max = 0, su_recv = 0\<rparr>"
  have "subs_wf 1 [?s]" "lookup_sub [?s] 1 = Some ?s"
    by (simp_all add: subs_wf_def lookup_sub_def ngx_nats_get_subscription_def)
  from removed_subscription_reachable [OF this] show ?thesis by blast
qed

end
