(* ===== verification/Nats_Buf.thy ===== *)
theory Nats_Buf
  imports Nats_Prelude
begin

text \<open>
  The read and write buffers of the module: \<open>ngx_nats_buf_t\<close> of \<open>ngx_nats_comm.h\<close> and its
  operations in \<open>ngx_nats_comm.c\<close> (\<open>ngx_nats_buf_create\<close>, \<open>_free_buf\<close>, \<open>_reset\<close>, \<open>_compact\<close>,
  \<open>_ensure\<close>) with \<open>ngx_nats_add_message\<close>, the only writer of a write buffer.

  A cell of the allocated memory is \<open>Some c\<close> after it was written and \<open>None\<close> while it is
  uninitialised. The outcome of the allocator is a parameter \<open>ok\<close> of the operations that call
  it. The abstract view of a buffer is \<open>contents\<close>, the readable bytes between \<open>pos\<close> and \<open>end\<close>;
  the locale \<open>byte_queue\<close> is the first-in first-out contract the connection relies on, and the
  interpretation \<open>wbuf\<close> discharges it for these operations wherever no reallocation with a
  non-zero \<open>pos\<close> happens. The two last properties show what happens otherwise.
\<close>

section \<open>Data and operations\<close>

definition NGX_NATS_MAX_MESSAGE_SIZE :: nat where
  "NGX_NATS_MAX_MESSAGE_SIZE = 256 * 1024 * 1024"

record ngx_nats_buf =
  b_buf :: "char option list"
  b_pos :: nat
  b_end :: nat
  b_cap :: nat

text \<open>\<open>None\<close> is the NULL result; \<open>ok1\<close>, \<open>ok2\<close> are the outcomes of the two allocations.\<close>

definition ngx_nats_buf_create :: "bool \<Rightarrow> bool \<Rightarrow> nat \<Rightarrow> ngx_nats_buf option" where
  "ngx_nats_buf_create ok1 ok2 sz =
     (if \<not> ok1 then None
      else if \<not> ok2 then None
      else Some \<lparr>b_buf = replicate sz None, b_pos = 0, b_end = 0, b_cap = sz\<rparr>)"

text \<open>After the free the structure is zeroed: a NULL buffer of capacity 0.\<close>

definition ngx_nats_buf_free_buf :: "ngx_nats_buf \<Rightarrow> ngx_nats_buf" where
  "ngx_nats_buf_free_buf b = \<lparr>b_buf = [], b_pos = 0, b_end = 0, b_cap = 0\<rparr>"

definition ngx_nats_buf_reset :: "ngx_nats_buf \<Rightarrow> ngx_nats_buf" where
  "ngx_nats_buf_reset b = b\<lparr>b_pos := 0, b_end := 0\<rparr>"

text \<open>The move both \<open>compact\<close> and \<open>ensure\<close> make: \<open>memmove(buf, buf + pos, end - pos)\<close>, then
  \<open>end -= pos\<close> and \<open>pos = 0\<close>.\<close>

definition buf_move_down :: "ngx_nats_buf \<Rightarrow> ngx_nats_buf option" where
  "buf_move_down b =
     do { xs \<leftarrow> mem_get (b_buf b) (b_pos b) (usub (b_end b) (b_pos b));
          m \<leftarrow> mem_put (b_buf b) 0 xs;
          Some (b\<lparr>b_buf := m, b_end := usub (b_end b) (b_pos b), b_pos := 0\<rparr>) }"

definition ngx_nats_buf_compact :: "ngx_nats_buf \<Rightarrow> ngx_nats_buf option" where
  "ngx_nats_buf_compact b =
     (if b_pos b = b_end b then Some (b\<lparr>b_pos := 0, b_end := 0\<rparr>)
      else if b_pos b > 0 then buf_move_down b
      else Some b)"

text \<open>\<open>while (ns < nt) ns <<= 1\<close> on a 64-bit size; \<open>None\<close> when the loop does not end.\<close>

partial_function (option) buf_grow :: "nat \<Rightarrow> nat \<Rightarrow> nat option" where
  "buf_grow ns nt = (if ns < nt then buf_grow (ns * 2 mod 2 ^ 64) nt else Some ns)"

definition ngx_nats_buf_ensure ::
  "bool \<Rightarrow> ngx_nats_buf \<Rightarrow> nat \<Rightarrow> int \<Rightarrow> (int \<times> ngx_nats_buf) option" where
  "ngx_nats_buf_ensure ok b0 sz compact =
     (let b = (if b_pos b0 = b_end b0 \<and> b_pos b0 \<noteq> 0 then b0\<lparr>b_pos := 0, b_end := 0\<rparr> else b0);
          tail = usub (b_cap b) (b_end b)
      in if tail \<ge> sz then Some (NGX_OK, b)
      else do {
        b \<leftarrow> (if compact \<noteq> 0 \<and> b_pos b > 0 \<and> sz \<le> tail + b_pos b
             then buf_move_down b else Some b);
        if usub (b_cap b) (b_end b) \<ge> sz then Some (NGX_OK, b)
        else if b_cap b \<ge> NGX_NATS_MAX_MESSAGE_SIZE then Some (NGX_ERROR, b)
        else do {
          ns \<leftarrow> buf_grow (b_cap b * 2 mod 2 ^ 64)
                  ((usub (b_end b) (b_pos b) + sz) mod 2 ^ 64);
          if \<not> ok then Some (NGX_ERROR, b)
          else do {
            xs \<leftarrow> mem_get (b_buf b) (b_pos b) (usub (b_end b) (b_pos b));
            bnew \<leftarrow> mem_put (replicate ns None) 0 xs;
            Some (NGX_OK, b\<lparr>b_buf := bnew, b_cap := ns\<rparr>) } } })"

text \<open>\<open>strlen\<close> of the C library on the memory that starts at the pointer.\<close>

fun c_strlen :: "bytes \<Rightarrow> nat option" where
  "c_strlen [] = None"
| "c_strlen (c # cs) = (if c = CHR 0x00 then Some 0 else map_option Suc (c_strlen cs))"

text \<open>\<open>message\<close> is the memory at the caller's pointer, \<open>b\<close> the connection's write buffer.\<close>

definition ngx_nats_add_message ::
  "bool \<Rightarrow> ngx_nats_buf \<Rightarrow> bytes \<Rightarrow> nat \<Rightarrow> (int \<times> ngx_nats_buf) option" where
  "ngx_nats_add_message ok b message sz0 =
     do { sz \<leftarrow> (if sz0 = 0 then c_strlen message else Some sz0);
          if sz = 0 then Some (NGX_OK, b)
          else do {
            (rc, b) \<leftarrow> ngx_nats_buf_ensure ok b sz 1;
            if rc \<noteq> NGX_OK then Some (rc, b)
            else do {
              xs \<leftarrow> mem_get message 0 sz;
              m \<leftarrow> mem_put (b_buf b) (b_end b) (map Some xs);
              Some (NGX_OK, b\<lparr>b_buf := m, b_end := b_end b + sz\<rparr>) } } }"

section \<open>Invariant and abstraction\<close>

text \<open>The comment of the structure says \<open>0 <= pos <= end <= cap\<close> and that the readable part lies
  between \<open>pos\<close> and \<open>end\<close>; the readable part is initialised.\<close>

definition buf_wf :: "ngx_nats_buf \<Rightarrow> bool" where
  "buf_wf b \<longleftrightarrow> b_pos b \<le> b_end b \<and> b_end b \<le> b_cap b \<and> length (b_buf b) = b_cap b
     \<and> None \<notin> set (slice (b_buf b) (b_pos b) (b_end b))"

definition contents :: "ngx_nats_buf \<Rightarrow> bytes" where
  "contents b = map the (slice (b_buf b) (b_pos b) (b_end b))"

lemma buf_wfD:
  assumes "buf_wf b"
  shows "b_pos b \<le> b_end b" and "b_end b \<le> b_cap b" and "length (b_buf b) = b_cap b"
    and "slice (b_buf b) (b_pos b) (b_end b) = map Some (contents b)"
proof -
  show "b_pos b \<le> b_end b" "b_end b \<le> b_cap b" "length (b_buf b) = b_cap b"
    using assms by (auto simp: buf_wf_def)
  have "map (Some \<circ> the) xs = xs" if "None \<notin> set xs" for xs :: "char option list"
    using that by (induction xs) auto
  with assms show "slice (b_buf b) (b_pos b) (b_end b) = map Some (contents b)"
    by (simp add: contents_def buf_wf_def)
qed

lemma buf_wfI:
  assumes "b_pos b \<le> b_end b" and "b_end b \<le> b_cap b" and "length (b_buf b) = b_cap b"
    and "slice (b_buf b) (b_pos b) (b_end b) = map Some xs"
  shows "buf_wf b" and "contents b = xs"
  using assms by (auto simp: buf_wf_def contents_def comp_def)

lemma length_contents: "buf_wf b \<Longrightarrow> length (contents b) = b_end b - b_pos b"
  by (auto simp: buf_wf_def contents_def)

lemma slice_mem_put:
  "mem_put m i xs = Some m' \<Longrightarrow> slice m' i (i + length xs) = xs"
  by (auto simp: mem_put_def slice_def split: if_splits)

lemma slice_mem_put_before:
  "mem_put m j xs = Some m' \<Longrightarrow> slice m' i j = slice m i j"
  by (auto simp: mem_put_def slice_def drop_take min_def split: if_splits)

lemma slice_join: "i \<le> j \<Longrightarrow> j \<le> k \<Longrightarrow> slice m i k = slice m i j @ slice m j k"
proof -
  assume le: "i \<le> j" "j \<le> k"
  then have "take (k - i) (drop i m) =
    take (j - i) (drop i m) @ take (k - i - (j - i)) (drop (j - i) (drop i m))"
    by (metis add_diff_inverse_nat diff_le_mono not_less take_add)
  then show ?thesis using le by (simp add: slice_def)
qed

lemma create_wf:
  "ngx_nats_buf_create ok1 ok2 sz = Some b \<Longrightarrow> buf_wf b \<and> contents b = [] \<and> b_cap b = sz"
  by (auto simp: ngx_nats_buf_create_def buf_wf_def contents_def slice_def split: if_splits)

lemma reset_wf: "buf_wf b \<Longrightarrow> buf_wf (ngx_nats_buf_reset b) \<and> contents (ngx_nats_buf_reset b) = []"
  by (auto simp: ngx_nats_buf_reset_def buf_wf_def contents_def slice_def)

lemma move_down_wf:
  assumes "buf_wf b"
  obtains b' where "buf_move_down b = Some b'" and "buf_wf b'" and "contents b' = contents b"
    and "b_pos b' = 0" and "b_end b' = b_end b - b_pos b" and "b_cap b' = b_cap b"
proof -
  note wf = buf_wfD [OF assms]
  let ?n = "b_end b - b_pos b"
  have get: "mem_get (b_buf b) (b_pos b) ?n = Some (map Some (contents b))"
    using wf by (simp add: mem_get_def slice_def)
  have "0 + length (map Some (contents b)) \<le> length (b_buf b)"
    using wf length_contents [OF assms] by simp
  then obtain m where m: "mem_put (b_buf b) 0 (map Some (contents b)) = Some m"
    using mem_put_Some by blast
  let ?b = "b\<lparr>b_buf := m, b_end := ?n, b_pos := 0\<rparr>"
  have "slice m 0 (0 + length (map Some (contents b))) = map Some (contents b)"
    by (rule slice_mem_put [OF m])
  then have sl: "slice (b_buf ?b) (b_pos ?b) (b_end ?b) = map Some (contents b)"
    using length_contents [OF assms] by simp
  have "length m = b_cap b" using mem_put_length [OF m] wf(3) by simp
  then have "buf_wf ?b" "contents ?b = contents b"
    using buf_wfI [OF _ _ _ sl] wf by auto
  moreover have "buf_move_down b = Some ?b"
    using get m wf by (simp add: buf_move_down_def)
  ultimately show ?thesis by (intro that [of ?b]) auto
qed

lemma compact_wf:
  assumes "buf_wf b"
  obtains b' where "ngx_nats_buf_compact b = Some b'" and "buf_wf b'" and "contents b' = contents b"
    and "b_pos b' = 0" and "b_end b' = b_end b - b_pos b" and "b_cap b' = b_cap b"
proof (cases "b_pos b < b_end b \<and> 0 < b_pos b")
  case True
  obtain b' where "buf_move_down b = Some b'" "buf_wf b'" "contents b' = contents b"
    "b_pos b' = 0" "b_end b' = b_end b - b_pos b" "b_cap b' = b_cap b"
    using move_down_wf [OF assms] by blast
  with True that show ?thesis by (simp add: ngx_nats_buf_compact_def)
next
  case False
  let ?b = "if b_pos b = b_end b then b\<lparr>b_pos := 0, b_end := 0\<rparr> else b"
  have "b_pos b = b_end b \<or> b_pos b = 0" using False buf_wfD(1) [OF assms] by auto
  then have "ngx_nats_buf_compact b = Some ?b" "b_pos ?b = 0" "b_end ?b = b_end b - b_pos b"
    by (auto simp: ngx_nats_buf_compact_def)
  moreover have "buf_wf ?b" "contents ?b = contents b" "b_cap ?b = b_cap b"
    using assms by (auto simp: buf_wf_def contents_def slice_def)
  ultimately show ?thesis using that by blast
qed

section \<open>Growing the buffer\<close>

lemma buf_grow_Some:
  assumes "0 < ns" and "nt \<le> 2 ^ 63"
  shows "\<exists>r. buf_grow ns nt = Some r \<and> ns \<le> r \<and> nt \<le> r \<and> (r = ns \<or> r < 2 * nt)"
  using assms
proof (induction "nt - ns" arbitrary: ns rule: less_induct)
  case less
  show ?case
  proof (cases "ns < nt")
    case True
    with less.prems have "ns * 2 mod 2 ^ 64 = ns * 2" by simp
    moreover have "nt - ns * 2 < nt - ns" using True less.prems by linarith
    ultimately obtain r where "buf_grow (ns * 2) nt = Some r" "ns * 2 \<le> r" "nt \<le> r"
      "r = ns * 2 \<or> r < 2 * nt" using less.hyps [of "ns * 2"] less.prems by auto
    with True \<open>ns * 2 mod 2 ^ 64 = ns * 2\<close> show ?thesis
      by (auto simp: buf_grow.simps [of ns nt])
  next
    case False
    then show ?thesis by (simp add: buf_grow.simps [of ns nt])
  qed
qed

lemma buf_grow_zero: "0 < nt \<Longrightarrow> buf_grow 0 nt = None"
proof (rule ccontr)
  assume nt: "0 < nt" and "buf_grow 0 nt \<noteq> None"
  then obtain r where ret: "buf_grow 0 nt = Some r" by auto
  have "\<not> ((0 :: nat) = 0 \<and> 0 < nt)"
    by (rule buf_grow.raw_induct [where P = "\<lambda>ns nt r. \<not> (ns = 0 \<and> 0 < nt)", OF _ ret])
      (fastforce split: if_splits)
  with nt show False by simp
qed

text \<open>When \<open>ensure\<close> may keep the readable bytes: no reallocation happens while \<open>pos\<close> is inside
  the buffer, because the buffer is empty, starts at 0, or is compacted into enough room.\<close>

definition buf_movable :: "ngx_nats_buf \<Rightarrow> nat \<Rightarrow> int \<Rightarrow> bool" where
  "buf_movable b sz compact \<longleftrightarrow> b_pos b = 0 \<or> b_pos b = b_end b
     \<or> compact \<noteq> 0 \<and> sz \<le> b_cap b - b_end b + b_pos b"

lemma realloc_wf:
  assumes wf: "buf_wf b" and pos: "b_pos b = 0" and ns: "length (contents b) + sz \<le> ns"
    and b': "b' = b\<lparr>b_buf := map Some (contents b) @ replicate (ns - length (contents b)) None,
                    b_cap := ns\<rparr>"
  shows "mem_get (b_buf b) (b_pos b) (b_end b - b_pos b) = Some (map Some (contents b))"
    and "mem_put (replicate ns None) 0 (map Some (contents b)) = Some (b_buf b')"
    and "buf_wf b'" and "contents b' = contents b" and "b_end b' + sz \<le> b_cap b'"
proof -
  note w = buf_wfD [OF wf] length_contents [OF wf]
  show "mem_get (b_buf b) (b_pos b) (b_end b - b_pos b) = Some (map Some (contents b))"
    using w by (simp add: mem_get_def slice_def)
  show "mem_put (replicate ns None) 0 (map Some (contents b)) = Some (b_buf b')"
    using ns b' by (simp add: mem_put_def)
  have sl: "slice (b_buf b') (b_pos b') (b_end b') = map Some (contents b)"
    using w pos b' by (simp add: slice_def)
  have len: "b_pos b' \<le> b_end b'" "b_end b' \<le> b_cap b'" "length (b_buf b') = b_cap b'"
    using w pos b' ns by auto
  show "buf_wf b'" "contents b' = contents b"
    using buf_wfI [OF len sl] by auto
  show "b_end b' + sz \<le> b_cap b'" using w pos b' ns by simp
qed

lemma ensure_from_zero:
  assumes wf: "buf_wf b" and pos: "b_pos b = 0" and cap: "0 < b_cap b"
    and sz: "length (contents b) + sz \<le> 2 ^ 63"
  shows "\<exists>rc b'. ngx_nats_buf_ensure ok b sz compact = Some (rc, b') \<and> buf_wf b'
     \<and> contents b' = contents b \<and> b_cap b \<le> b_cap b'
     \<and> (rc = NGX_OK \<and> b_end b' + sz \<le> b_cap b'
        \<or> rc = NGX_ERROR \<and> (\<not> ok \<or> NGX_NATS_MAX_MESSAGE_SIZE \<le> b_cap b))"
proof (cases "sz \<le> b_cap b - b_end b \<or> NGX_NATS_MAX_MESSAGE_SIZE \<le> b_cap b")
  case True
  note w = buf_wfD [OF wf]
  from True w wf pos show ?thesis by (auto simp: ngx_nats_buf_ensure_def Let_def)
next
  case False
  note w = buf_wfD [OF wf] length_contents [OF wf]
  have "b_cap b * 2 mod 2 ^ 64 = b_cap b * 2"
    using False by (simp add: NGX_NATS_MAX_MESSAGE_SIZE_def)
  moreover obtain ns where ns: "buf_grow (b_cap b * 2) (b_end b + sz) = Some ns"
    "b_cap b * 2 \<le> ns" "b_end b + sz \<le> ns"
    using buf_grow_Some [of "b_cap b * 2" "b_end b + sz"] cap sz w pos by auto
  define b' where "b' = b\<lparr>b_buf := map Some (contents b)
      @ replicate (ns - length (contents b)) None, b_cap := ns\<rparr>"
  have nt: "(b_end b + sz) mod 2 ^ 64 = b_end b + sz" using sz w pos by simp
  note r = realloc_wf [OF wf pos _ b'_def, of sz]
  have "ngx_nats_buf_ensure ok b sz compact =
      (if ok then Some (NGX_OK, b\<lparr>b_buf := b_buf b', b_cap := ns\<rparr>) else Some (NGX_ERROR, b))"
    using False w pos ns nt calculation r(1,2)
    by (auto simp: ngx_nats_buf_ensure_def Let_def)
  moreover have "b\<lparr>b_buf := b_buf b', b_cap := ns\<rparr> = b'" by (simp add: b'_def)
  moreover have "b_cap b \<le> b_cap b'" using ns by (simp add: b'_def)
  ultimately show ?thesis using r(3-5) ns w pos wf by auto
qed

lemma ensure_empty_eq:
  assumes "b_pos b = b_end b" and "b_pos b \<noteq> 0"
  shows "ngx_nats_buf_ensure ok b sz compact = ngx_nats_buf_ensure ok (ngx_nats_buf_reset b) sz compact"
  using assms by (auto simp: ngx_nats_buf_ensure_def ngx_nats_buf_reset_def Let_def)

lemma reset_empty_contents: "buf_wf b \<Longrightarrow> b_pos b = b_end b \<Longrightarrow> contents b = []"
  by (simp add: contents_def slice_def)

lemma ensure_ok:
  assumes wf: "buf_wf b" and mov: "buf_movable b sz compact" and cap: "0 < b_cap b"
    and sz: "length (contents b) + sz \<le> 2 ^ 63"
  shows "\<exists>rc b'. ngx_nats_buf_ensure ok b sz compact = Some (rc, b') \<and> buf_wf b'
     \<and> contents b' = contents b \<and> b_cap b \<le> b_cap b'
     \<and> (rc = NGX_OK \<and> b_end b' + sz \<le> b_cap b'
        \<or> rc = NGX_ERROR \<and> (\<not> ok \<or> NGX_NATS_MAX_MESSAGE_SIZE \<le> b_cap b))"
proof -
  consider "b_pos b = 0" | "b_pos b = b_end b" "b_pos b \<noteq> 0"
    | "0 < b_pos b" "b_pos b < b_end b" "compact \<noteq> 0" "sz \<le> b_cap b - b_end b + b_pos b"
    using mov buf_wfD(1) [OF wf] by (fastforce simp: buf_movable_def)
  then show ?thesis
  proof cases
    case 1
    then show ?thesis using ensure_from_zero [OF wf _ cap sz] by blast
  next
    case 2
    let ?r = "ngx_nats_buf_reset b"
    have "buf_wf ?r" "contents ?r = contents b" "b_pos ?r = 0" "b_cap ?r = b_cap b"
      using reset_wf [OF wf] reset_empty_contents [OF wf 2(1)]
      by (auto simp: ngx_nats_buf_reset_def)
    then show ?thesis
      using ensure_from_zero [of ?r sz ok compact] cap sz ensure_empty_eq [OF 2] by auto
  next
    case 3
    note w = buf_wfD [OF wf]
    obtain b' where b': "buf_move_down b = Some b'" "buf_wf b'" "contents b' = contents b"
      "b_pos b' = 0" "b_end b' = b_end b - b_pos b" "b_cap b' = b_cap b"
      using move_down_wf [OF wf] by blast
    have "ngx_nats_buf_ensure ok b sz compact =
        Some (NGX_OK, if sz \<le> b_cap b - b_end b then b else b')"
      using 3 b' w by (auto simp: ngx_nats_buf_ensure_def Let_def)
    then show ?thesis using 3 b' w wf by auto
  qed
qed

section \<open>Appending a message\<close>

lemma put_at_end:
  assumes wf: "buf_wf b" and room: "b_end b + length xs \<le> b_cap b"
  shows "\<exists>m. mem_put (b_buf b) (b_end b) (map Some xs) = Some m
     \<and> buf_wf (b\<lparr>b_buf := m, b_end := b_end b + length xs\<rparr>)
     \<and> contents (b\<lparr>b_buf := m, b_end := b_end b + length xs\<rparr>) = contents b @ xs"
proof -
  note w = buf_wfD [OF wf]
  obtain m where m: "mem_put (b_buf b) (b_end b) (map Some xs) = Some m"
    using mem_put_Some [of "b_end b" "map Some xs" "b_buf b"] room w by auto
  let ?b = "b\<lparr>b_buf := m, b_end := b_end b + length xs\<rparr>"
  have "slice m (b_pos b) (b_end b + length xs) =
      slice m (b_pos b) (b_end b) @ slice m (b_end b) (b_end b + length xs)"
    using w by (intro slice_join) auto
  also have "\<dots> = map Some (contents b @ xs)"
    using slice_mem_put_before [OF m, of "b_pos b"] slice_mem_put [OF m] w(4) by simp
  finally have sl: "slice (b_buf ?b) (b_pos ?b) (b_end ?b) = map Some (contents b @ xs)"
    by simp
  have "b_pos ?b \<le> b_end ?b" "b_end ?b \<le> b_cap ?b" "length (b_buf ?b) = b_cap ?b"
    using w room mem_put_length [OF m] by auto
  from buf_wfI [OF this sl] m show ?thesis by blast
qed

lemma add_message_ok:
  assumes wf: "buf_wf b" and cap: "0 < b_cap b" and mov: "buf_movable b sz 1"
    and sz: "0 < sz" "sz \<le> length message" "length (contents b) + sz \<le> 2 ^ 63"
  shows "\<exists>rc b'. ngx_nats_add_message ok b message sz = Some (rc, b') \<and> buf_wf b'
     \<and> (rc = NGX_OK \<and> contents b' = contents b @ take sz message
        \<or> rc = NGX_ERROR \<and> contents b' = contents b
          \<and> (\<not> ok \<or> NGX_NATS_MAX_MESSAGE_SIZE \<le> b_cap b))"
proof -
  obtain rc e where e: "ngx_nats_buf_ensure ok b sz 1 = Some (rc, e)" "buf_wf e"
    "contents e = contents b"
    "rc = NGX_OK \<and> b_end e + sz \<le> b_cap e
      \<or> rc = NGX_ERROR \<and> (\<not> ok \<or> NGX_NATS_MAX_MESSAGE_SIZE \<le> b_cap b)"
    using ensure_ok [OF wf mov cap sz(3), of ok] by blast
  show ?thesis
  proof (cases "rc = NGX_OK")
    case True
    with e have room: "b_end e + length (take sz message) \<le> b_cap e" using sz by simp
    obtain m where "mem_put (b_buf e) (b_end e) (map Some (take sz message)) = Some m"
      "buf_wf (e\<lparr>b_buf := m, b_end := b_end e + sz\<rparr>)"
      "contents (e\<lparr>b_buf := m, b_end := b_end e + sz\<rparr>) = contents b @ take sz message"
      using put_at_end [OF e(2) room] e(3) sz by auto
    with True e sz show ?thesis by (auto simp: ngx_nats_add_message_def mem_get_def)
  next
    case False
    with e sz show ?thesis by (auto simp: ngx_nats_add_message_def)
  qed
qed

text \<open>
  C29: \<open>ngx_nats_add_message\<close> (with an explicit size) on a well-formed write buffer that need not be
  reallocated while partly sent: it stays inside its memory, returns \<open>NGX_OK\<close> with exactly the
  message appended to the unsent bytes, or returns \<open>NGX_ERROR\<close> with the unsent bytes unchanged,
  which happens only when the allocator fails or the 256 MB limit is reached.
\<close>

theorem add_message_appends:
  assumes wf: "buf_wf b" and cap: "0 < b_cap b" and mov: "buf_movable b sz 1"
    and sz: "0 < sz" "sz \<le> length message" "length (contents b) + sz \<le> 2 ^ 63"
  shows "\<exists>rc b'. ngx_nats_add_message ok b message sz = Some (rc, b') \<and> buf_wf b'
     \<and> (rc = NGX_OK \<and> contents b' = contents b @ take sz message
        \<or> rc = NGX_ERROR \<and> contents b' = contents b
          \<and> (\<not> ok \<or> NGX_NATS_MAX_MESSAGE_SIZE \<le> b_cap b))"
  using assms by (rule add_message_ok)

theorem add_message_appends_witness:
  "\<exists>rc b'. ngx_nats_add_message True
       \<lparr>b_buf = [None, Some (CHR ''x''), None], b_pos = 1, b_end = 2, b_cap = 3\<rparr> ''ab'' 2
     = Some (rc, b') \<and> buf_wf b' \<and> (rc = NGX_OK \<and> contents b' = ''xab''
        \<or> rc = NGX_ERROR \<and> contents b' = ''x'' \<and> NGX_NATS_MAX_MESSAGE_SIZE \<le> 3)"
proof -
  let ?b = "\<lparr>b_buf = [None, Some (CHR ''x''), None], b_pos = 1, b_end = 2, b_cap = 3\<rparr>"
  have c: "contents ?b = ''x''" by code_simp
  have "buf_wf ?b" "0 < b_cap ?b" "buf_movable ?b 2 1" "(0 :: nat) < 2" "2 \<le> length ''ab''"
    by code_simp+
  moreover have "length (contents ?b) + 2 \<le> 2 ^ 63" unfolding c by simp
  ultimately show ?thesis
    using add_message_appends [of ?b 2 "''ab''" True] unfolding c by simp
qed

section \<open>First-in first-out contract\<close>

text \<open>What is written to the connection and not yet sent is a queue of bytes.\<close>

datatype 'a qop = Push "'a list" | Pop nat

fun pushed :: "'a qop list \<Rightarrow> 'a list" where
  "pushed [] = []"
| "pushed (Push xs # ops) = xs @ pushed ops"
| "pushed (Pop n # ops) = pushed ops"

text \<open>Running a sequence of operations collects what was taken out; it stops (\<open>None\<close>) when an
  operation fails. \<open>q_fits\<close>: every operation is admissible in the state in which it runs.\<close>

fun q_run :: "('b \<Rightarrow> 'a list \<Rightarrow> 'b option) \<Rightarrow> ('b \<Rightarrow> nat \<Rightarrow> 'b)
    \<Rightarrow> ('b \<Rightarrow> 'a list) \<Rightarrow> 'b \<Rightarrow> 'a qop list \<Rightarrow> ('a list \<times> 'b) option" where
  "q_run push pop cont b [] = Some ([], b)"
| "q_run push pop cont b (Push xs # ops) = do { b' \<leftarrow> push b xs; q_run push pop cont b' ops }"
| "q_run push pop cont b (Pop n # ops) =
     do { (out, b') \<leftarrow> q_run push pop cont (pop b n) ops; Some (take n (cont b) @ out, b') }"

fun q_fits :: "('b \<Rightarrow> 'a list \<Rightarrow> bool) \<Rightarrow> ('b \<Rightarrow> 'a list \<Rightarrow> 'b option) \<Rightarrow> ('b \<Rightarrow> nat \<Rightarrow> 'b)
    \<Rightarrow> ('b \<Rightarrow> 'a list) \<Rightarrow> 'b \<Rightarrow> 'a qop list \<Rightarrow> bool" where
  "q_fits fits push pop cont b [] = True"
| "q_fits fits push pop cont b (Push xs # ops) \<longleftrightarrow>
     fits b xs \<and> (case push b xs of None \<Rightarrow> True | Some b' \<Rightarrow> q_fits fits push pop cont b' ops)"
| "q_fits fits push pop cont b (Pop n # ops) \<longleftrightarrow>
     n \<le> length (cont b) \<and> q_fits fits push pop cont (pop b n) ops"

locale byte_queue =
  fixes wf :: "'b \<Rightarrow> bool"
    and cont :: "'b \<Rightarrow> 'a list"
    and fits :: "'b \<Rightarrow> 'a list \<Rightarrow> bool"
    and push :: "'b \<Rightarrow> 'a list \<Rightarrow> 'b option"
    and pop :: "'b \<Rightarrow> nat \<Rightarrow> 'b"
  assumes push_law: "wf b \<Longrightarrow> fits b xs \<Longrightarrow> \<exists>b'. push b xs = Some b' \<and> wf b' \<and> cont b' = cont b @ xs"
    and pop_law: "wf b \<Longrightarrow> n \<le> length (cont b) \<Longrightarrow> wf (pop b n) \<and> cont (pop b n) = drop n (cont b)"
begin

lemma run_fifo:
  "wf b \<Longrightarrow> q_fits fits push pop cont b ops \<Longrightarrow>
     \<exists>out b'. q_run push pop cont b ops = Some (out, b') \<and> wf b' \<and> out @ cont b' = cont b @ pushed ops"
proof (induction ops arbitrary: b)
  case (Cons op ops)
  show ?case
  proof (cases op)
    case (Push xs)
    with Cons.prems push_law [OF Cons.prems(1)] obtain b1 where
      "push b xs = Some b1" "wf b1" "cont b1 = cont b @ xs" "q_fits fits push pop cont b1 ops" by force
    with Cons.IH [of b1] Push show ?thesis by auto
  next
    case (Pop n)
    with Cons.prems have n: "n \<le> length (cont b)" and f: "q_fits fits push pop cont (pop b n) ops" by simp_all
    note p = pop_law [OF Cons.prems(1) n]
    obtain o1 b' where o1: "q_run push pop cont (pop b n) ops = Some (o1, b')" "wf b'"
      "o1 @ cont b' = drop n (cont b) @ pushed ops" using Cons.IH [OF _ f] p by auto
    then have "(take n (cont b) @ o1) @ cont b' = take n (cont b) @ drop n (cont b) @ pushed ops" by simp
    also have "\<dots> = cont b @ pushed ops" by (metis append_assoc append_take_drop_id)
    finally show ?thesis using o1(1,2) Pop by simp
  qed
qed simp

end

text \<open>\<open>buf->pos += n\<close> after a send of \<open>n\<close> bytes, with the reset when everything was sent.\<close>

definition buf_consume :: "ngx_nats_buf \<Rightarrow> nat \<Rightarrow> ngx_nats_buf" where
  "buf_consume b n =
     (if b_pos b + n = b_end b then b\<lparr>b_pos := 0, b_end := 0\<rparr> else b\<lparr>b_pos := b_pos b + n\<rparr>)"

definition buf_push :: "ngx_nats_buf \<Rightarrow> bytes \<Rightarrow> ngx_nats_buf option" where
  "buf_push b xs = do { (rc, b') \<leftarrow> ngx_nats_add_message True b xs (length xs);
                        if rc = NGX_OK then Some b' else None }"

definition buf_fits :: "ngx_nats_buf \<Rightarrow> bytes \<Rightarrow> bool" where
  "buf_fits b xs \<longleftrightarrow> xs \<noteq> [] \<and> 0 < b_cap b \<and> b_cap b < NGX_NATS_MAX_MESSAGE_SIZE
     \<and> buf_movable b (length xs) 1 \<and> length (contents b) + length xs \<le> 2 ^ 63"

lemma consume_wf:
  assumes wf: "buf_wf b" and n: "n \<le> length (contents b)"
  shows "buf_wf (buf_consume b n) \<and> contents (buf_consume b n) = drop n (contents b)"
proof -
  note w = buf_wfD [OF wf] length_contents [OF wf]
  have "slice (b_buf b) (b_pos b + n) (b_end b) = drop n (slice (b_buf b) (b_pos b) (b_end b))"
    by (simp add: slice_def drop_take add.commute)
  also have "\<dots> = map Some (drop n (contents b))" using w(4) by (simp add: drop_map)
  finally have sl: "slice (b_buf b) (b_pos b + n) (b_end b) = map Some (drop n (contents b))" .
  show ?thesis
  proof (cases "b_pos b + n = b_end b")
    case True
    with w have "length (contents b) \<le> n" by simp
    with True w show ?thesis
      by (simp add: buf_consume_def buf_wf_def contents_def slice_def)
  next
    case False
    then show ?thesis
      using buf_wfI [of "b\<lparr>b_pos := b_pos b + n\<rparr>" "drop n (contents b)"] sl w n
      by (simp add: buf_consume_def)
  qed
qed

interpretation wbuf: byte_queue buf_wf contents buf_fits buf_push buf_consume
proof unfold_locales
  fix b xs
  assume wf: "buf_wf b" and fits: "buf_fits b xs"
  from fits have f: "0 < b_cap b" "buf_movable b (length xs) 1" "0 < length xs"
    "length (contents b) + length xs \<le> 2 ^ 63" "\<not> NGX_NATS_MAX_MESSAGE_SIZE \<le> b_cap b"
    by (auto simp: buf_fits_def)
  obtain rc b' where r: "ngx_nats_add_message True b xs (length xs) = Some (rc, b')" "buf_wf b'"
    "rc = NGX_OK \<and> contents b' = contents b @ take (length xs) xs
      \<or> rc = NGX_ERROR \<and> contents b' = contents b \<and> (\<not> True \<or> NGX_NATS_MAX_MESSAGE_SIZE \<le> b_cap b)"
    using add_message_ok [OF wf f(1-3) order_refl f(4), of True] by (elim exE conjE) (rule that)
  then have "rc = NGX_OK" "contents b' = contents b @ xs" using f(5) by simp_all
  with r(1,2) have "ngx_nats_add_message True b xs (length xs) = Some (NGX_OK, b')" "buf_wf b'"
    "contents b' = contents b @ xs" by simp_all
  then show "\<exists>b'. buf_push b xs = Some b' \<and> buf_wf b' \<and> contents b' = contents b @ xs"
    by (simp add: buf_push_def)
next
  show "buf_wf b \<Longrightarrow> n \<le> length (contents b) \<Longrightarrow>
      buf_wf (buf_consume b n) \<and> contents (buf_consume b n) = drop n (contents b)" for b n
    by (rule consume_wf)
qed

text \<open>
  C18: for every sequence of appended messages and partial sends on a write buffer in which no append
  reallocates a partly sent buffer, the buffer is below the 256 MB limit when a message is
  appended, the allocator does not fail and no send takes more than is there, every append
  succeeds, and the bytes sent followed by the bytes still unsent are exactly the bytes that were
  unsent at the start followed by the appended messages in order.
\<close>

theorem write_buffer_fifo:
  assumes "buf_wf b" and "q_fits buf_fits buf_push buf_consume contents b ops"
  shows "\<exists>out b'. q_run buf_push buf_consume contents b ops = Some (out, b')
    \<and> buf_wf b' \<and> out @ contents b' = contents b @ pushed ops"
  using assms by (rule wbuf.run_fifo)

lemma buf_push_small:
  "buf_push \<lparr>b_buf = replicate 4 None, b_pos = 0, b_end = 0, b_cap = 4\<rparr> ''ab''
     = Some \<lparr>b_buf = [Some (CHR ''a''), Some (CHR ''b''), None, None],
             b_pos = 0, b_end = 2, b_cap = 4\<rparr>"
  by code_simp

theorem write_buffer_fifo_witness:
  "\<exists>out b'. q_run buf_push buf_consume contents
       \<lparr>b_buf = replicate 4 None, b_pos = 0, b_end = 0, b_cap = 4\<rparr> [Push ''ab'', Pop 1]
     = Some (out, b') \<and> buf_wf b' \<and> out @ contents b' = ''ab''"
proof -
  let ?b = "\<lparr>b_buf = replicate 4 None, b_pos = 0, b_end = 0, b_cap = 4\<rparr>"
  have wf: "buf_wf ?b" and c: "contents ?b = []" by code_simp+
  have "buf_movable ?b (length ''ab'') 1" "0 < b_cap ?b" by code_simp+
  moreover have "b_cap ?b < NGX_NATS_MAX_MESSAGE_SIZE" by (simp add: NGX_NATS_MAX_MESSAGE_SIZE_def)
  ultimately have f: "buf_fits ?b ''ab''" unfolding buf_fits_def c by simp
  let ?c = "\<lparr>b_buf = [Some (CHR ''a''), Some (CHR ''b''), None, None],
             b_pos = 0, b_end = 2, b_cap = 4\<rparr>"
  have d: "contents ?c = ''ab''" by code_simp
  have "q_fits buf_fits buf_push buf_consume contents ?b [Push ''ab'', Pop 1]"
    using f by (simp add: buf_push_small d)
  from write_buffer_fifo [OF wf this] show ?thesis by (simp add: c)
qed

section \<open>Reallocation of a partly sent buffer\<close>

text \<open>
  \<open>ngx_nats_buf_ensure\<close> copies the unsent bytes to the start of the new memory but leaves
  \<open>pos\<close> and \<open>end\<close> as they were. With \<open>pos = 0\<close> this is right. With \<open>0 < pos < end\<close> the readable
  part \<open>pos..end\<close> no longer is where the bytes are, and \<open>end\<close> may be too large for the capacity
  that was computed from the number of unsent bytes.
\<close>

lemma ensure_realloc:
  assumes wf: "buf_wf b" and pos: "0 < b_pos b" "b_pos b < b_end b"
    and sz: "b_cap b - b_end b + b_pos b < sz" "length (contents b) + sz \<le> 2 ^ 63"
    and cap: "b_cap b < NGX_NATS_MAX_MESSAGE_SIZE"
  shows "\<exists>ns. buf_grow (b_cap b * 2) (length (contents b) + sz) = Some ns
     \<and> length (contents b) \<le> ns
     \<and> ngx_nats_buf_ensure True b sz compact = Some (NGX_OK,
         b\<lparr>b_buf := map Some (contents b) @ replicate (ns - length (contents b)) None, b_cap := ns\<rparr>)"
proof -
  note w = buf_wfD [OF wf] length_contents [OF wf]
  have c2: "b_cap b * 2 mod 2 ^ 64 = b_cap b * 2"
    using cap by (simp add: NGX_NATS_MAX_MESSAGE_SIZE_def)
  obtain ns where ns: "buf_grow (b_cap b * 2) (length (contents b) + sz) = Some ns"
    "length (contents b) + sz \<le> ns"
    using buf_grow_Some [of "b_cap b * 2" "length (contents b) + sz"] w pos sz(2) by auto
  have nt: "(b_end b - b_pos b + sz) mod 2 ^ 64 = length (contents b) + sz" using sz w by simp
  have get: "mem_get (b_buf b) (b_pos b) (b_end b - b_pos b) = Some (map Some (contents b))"
    using w by (simp add: mem_get_def slice_def)
  have put: "mem_put (replicate ns None) 0 (map Some (contents b))
      = Some (map Some (contents b) @ replicate (ns - length (contents b)) None)"
    using ns by (simp add: mem_put_def)
  show ?thesis
    using ns nt get put c2 pos sz(1) cap w by (auto simp: ngx_nats_buf_ensure_def Let_def)
qed

text \<open>
  Reallocating a partly sent buffer loses the unsent bytes: \<open>ngx_nats_buf_ensure\<close> reports
  \<open>NGX_OK\<close>, but the bytes it will send between \<open>pos\<close> and \<open>end\<close> now include uninitialised memory,
  so the invariant of the structure is broken.
\<close>

theorem ensure_realloc_corrupts:
  assumes wf: "buf_wf b" and pos: "0 < b_pos b" "b_pos b < b_end b"
    and sz: "b_cap b - b_end b + b_pos b < sz" "length (contents b) + sz \<le> 2 ^ 63"
    and cap: "b_cap b < NGX_NATS_MAX_MESSAGE_SIZE"
  shows "\<exists>b'. ngx_nats_buf_ensure True b sz compact = Some (NGX_OK, b')
     \<and> b_pos b' = b_pos b \<and> b_end b' = b_end b \<and> b_end b \<le> b_cap b'
     \<and> None \<in> set (slice (b_buf b') (b_pos b') (b_end b')) \<and> \<not> buf_wf b'"
proof -
  note w = buf_wfD [OF wf] length_contents [OF wf]
  obtain ns where ns: "buf_grow (b_cap b * 2) (length (contents b) + sz) = Some ns"
    "length (contents b) \<le> ns"
    "ngx_nats_buf_ensure True b sz compact = Some (NGX_OK,
       b\<lparr>b_buf := map Some (contents b) @ replicate (ns - length (contents b)) None, b_cap := ns\<rparr>)"
    using ensure_realloc [OF assms, of compact] by blast
  let ?m = "map Some (contents b) @ replicate (ns - length (contents b)) None"
  have "b_cap b * 2 \<le> ns"
    using buf_grow_Some [of "b_cap b * 2" "length (contents b) + sz"] ns(1) sz(2) w pos by auto
  then have len: "b_end b \<le> ns" "b_end b \<le> length ?m" using w ns(2) by auto
  have "slice ?m (b_pos b) (b_end b) ! (b_end b - 1 - b_pos b) = ?m ! (b_end b - 1)"
    using len pos by (subst slice_nth) auto
  also have "\<dots> = None" using len pos w by (simp add: nth_append)
  finally have "None \<in> set (slice ?m (b_pos b) (b_end b))"
    using len pos nth_mem [of "b_end b - 1 - b_pos b" "slice ?m (b_pos b) (b_end b)"] by auto
  then show ?thesis using ns(3) len by (auto simp: buf_wf_def)
qed

theorem ensure_realloc_corrupts_witness:
  "\<exists>b'. ngx_nats_buf_ensure True
       \<lparr>b_buf = map Some ''abcd'', b_pos = 1, b_end = 4, b_cap = 4\<rparr> 3 1 = Some (NGX_OK, b')
     \<and> \<not> buf_wf b'"
proof -
  let ?b = "\<lparr>b_buf = map Some ''abcd'', b_pos = 1, b_end = 4, b_cap = 4\<rparr>"
  have "length (contents ?b) = 3" "buf_wf ?b" by code_simp+
  then show ?thesis
    using ensure_realloc_corrupts [of ?b 3 1] unfolding NGX_NATS_MAX_MESSAGE_SIZE_def by force
qed

text \<open>
  C33: for every well-formed, partly sent write buffer below the size limit there is a message
  length, twice the capacity less the unsent bytes, for which \<open>ngx_nats_add_message\<close> writes
  outside the memory it has just allocated.
\<close>

theorem add_message_overflows:
  assumes wf: "buf_wf b" and pos: "0 < b_pos b" "b_pos b < b_end b"
    and cap: "b_cap b < NGX_NATS_MAX_MESSAGE_SIZE"
    and message: "length message = 2 * b_cap b - (b_end b - b_pos b)"
  shows "ngx_nats_add_message True b message (length message) = None"
proof -
  note w = buf_wfD [OF wf] length_contents [OF wf]
  let ?n = "length message"
  have sz: "b_cap b - b_end b + b_pos b < ?n" "length (contents b) + ?n = b_cap b * 2"
    using w pos message by auto
  then have big: "length (contents b) + ?n \<le> 2 ^ 63"
    using cap by (simp add: NGX_NATS_MAX_MESSAGE_SIZE_def)
  obtain ns where ns: "buf_grow (b_cap b * 2) (b_cap b * 2) = Some ns"
    and e: "ngx_nats_buf_ensure True b ?n 1 = Some (NGX_OK,
       b\<lparr>b_buf := map Some (contents b) @ replicate (ns - length (contents b)) None, b_cap := ns\<rparr>)"
    using ensure_realloc [OF wf pos sz(1) big cap, of 1] unfolding sz(2) by blast
  from ns have "ns = b_cap b * 2" by (simp add: buf_grow.simps)
  moreover have "length (contents b) \<le> b_cap b" using w by simp
  moreover have "b_cap b * 2 < b_end b + ?n" using w pos message by simp
  ultimately show ?thesis
    using e w pos message by (auto simp: ngx_nats_add_message_def mem_get_def mem_put_def)
qed

theorem add_message_overflows_witness:
  "ngx_nats_add_message True \<lparr>b_buf = replicate 4096 (Some (CHR ''x'')),
      b_pos = 4000, b_end = 4096, b_cap = 4096\<rparr> (replicate 8096 (CHR ''y'')) 8096 = None"
proof -
  let ?b = "\<lparr>b_buf = replicate 4096 (Some (CHR ''x'')), b_pos = 4000, b_end = 4096, b_cap = 4096\<rparr>"
  have "buf_wf ?b" by (auto simp: buf_wf_def slice_def)
  then show ?thesis
    using add_message_overflows [of ?b "replicate 8096 (CHR ''y'')"]
    by (simp add: NGX_NATS_MAX_MESSAGE_SIZE_def)
qed

end
