(* ===== verification/Nats_Buf_Inv.thy ===== *)
theory Nats_Buf_Inv
  imports Nats_Buf
begin

text \<open>
  The bounds that the comment of \<open>ngx_nats_buf_t\<close> states, \<open>0 <= pos <= end <= cap\<close> with \<open>cap\<close> the
  allocated length, as an invariant of all operations, including the reallocation that loses the
  contents. Unlike \<open>buf_wf\<close> it says nothing about which bytes are initialised.
\<close>

definition buf_shape :: "ngx_nats_buf \<Rightarrow> bool" where
  "buf_shape b \<longleftrightarrow> b_pos b \<le> b_end b \<and> b_end b \<le> b_cap b \<and> length (b_buf b) = b_cap b \<and> 0 < b_cap b
     \<and> b_cap b < 2 ^ 64"

lemma buf_shape_wf: "buf_wf b \<Longrightarrow> 0 < b_cap b \<Longrightarrow> b_cap b < 2 ^ 64 \<Longrightarrow> buf_shape b"
  by (auto simp: buf_shape_def buf_wf_def)

lemma reset_shape: "buf_shape b \<Longrightarrow> buf_shape (ngx_nats_buf_reset b)"
  by (simp add: buf_shape_def ngx_nats_buf_reset_def)

lemma reset_shape_wf: "buf_shape b \<Longrightarrow> buf_wf (ngx_nats_buf_reset b)"
  by (simp add: buf_shape_def buf_wf_def ngx_nats_buf_reset_def)

lemma reset_fields [simp]:
  "b_pos (ngx_nats_buf_reset b) = 0" "b_end (ngx_nats_buf_reset b) = 0"
  "b_cap (ngx_nats_buf_reset b) = b_cap b" "contents (ngx_nats_buf_reset b) = []"
  by (simp_all add: ngx_nats_buf_reset_def contents_def slice_def)

lemma move_down_shape:
  assumes "buf_shape b"
  shows "ret (buf_move_down b) (\<lambda>b'. buf_shape b' \<and> b_cap b' = b_cap b \<and> b_pos b' = 0)"
  using assms by (auto simp: ret_def buf_move_down_def bind_eq_Some_conv buf_shape_def
      dest!: mem_put_length)

lemma compact_shape:
  assumes "buf_shape b"
  shows "ret (ngx_nats_buf_compact b) (\<lambda>b'. buf_shape b' \<and> b_cap b' = b_cap b \<and> b_pos b' = 0)"
  unfolding ngx_nats_buf_compact_def
  by (intro vc ret_weaken [OF move_down_shape]) (use assms in \<open>auto simp: buf_shape_def\<close>)

lemma buf_grow_ge:
  assumes "buf_grow ns nt = Some r"
  shows "ns \<le> r \<and> nt \<le> r \<and> (ns < 2 ^ 64 \<longrightarrow> r < 2 ^ 64)"
  by (rule buf_grow.raw_induct
      [where P = "\<lambda>ns nt r. ns \<le> r \<and> nt \<le> r \<and> (ns < 2 ^ 64 \<longrightarrow> r < 2 ^ 64)", OF _ assms])
    (fastforce split: if_splits)

lemma buf_realloc_shape:
  assumes "buf_shape b" and "b_cap b < NGX_NATS_MAX_MESSAGE_SIZE"
    and "buf_grow (b_cap b * 2 mod 2 ^ 64) nt = Some ns"
    and "mem_put (replicate ns None) 0 xs = Some bnew"
  shows "buf_shape (b\<lparr>b_buf := bnew, b_cap := ns\<rparr>) \<and> b_cap b \<le> ns"
proof -
  have "b_cap b * 2 \<le> ns" "ns < 2 ^ 64"
    using buf_grow_ge [OF assms(3)] assms(2) mod_less_divisor [of "2 ^ 64" "b_cap b * 2"]
    by (simp_all add: NGX_NATS_MAX_MESSAGE_SIZE_def)
  with assms(1) mem_put_length [OF assms(4)] show ?thesis by (auto simp: buf_shape_def)
qed

text \<open>\<open>ensure\<close>: the bounds are kept and the memory never shrinks.\<close>

lemma ensure_shape:
  assumes "buf_shape b"
  shows "ret (ngx_nats_buf_ensure ok b sz compact) (\<lambda>(rc, b'). buf_shape b' \<and> b_cap b \<le> b_cap b')"
proof -
  let ?b = "if b_pos b = b_end b \<and> b_pos b \<noteq> 0 then b\<lparr>b_pos := 0, b_end := 0\<rparr> else b"
  have s: "buf_shape ?b" "b_cap ?b = b_cap b" using assms by (auto simp: buf_shape_def)
  have m: "ret (if compact \<noteq> 0 \<and> b_pos ?b > 0 \<and> sz \<le> usub (b_cap ?b) (b_end ?b) + b_pos ?b
      then buf_move_down ?b else Some ?b) (\<lambda>b'. buf_shape b' \<and> b_cap b' = b_cap b)"
    by (intro vc ret_weaken [OF move_down_shape]) (use s in auto)
  show ?thesis
    unfolding ngx_nats_buf_ensure_def Let_def
    by (intro vc ret_bind [OF m])
      (use s buf_realloc_shape in \<open>force simp: ret_def bind_eq_Some_conv\<close>)+
qed

lemma add_message_shape:
  assumes "buf_shape b"
  shows "ret (ngx_nats_add_message ok b message sz) (\<lambda>(rc, b'). buf_shape b' \<and> b_cap b \<le> b_cap b')"
proof -
  have put: "buf_shape (c\<lparr>b_buf := m, b_end := b_end c + n\<rparr>)"
    if "buf_shape c" "mem_get message 0 n = Some xs" "mem_put (b_buf c) (b_end c) (map Some xs) = Some m" for c m n xs
    using that by (auto simp: buf_shape_def mem_get_def mem_put_def split: if_splits)
  have ens: "buf_shape b' \<and> b_cap b \<le> b_cap b'" if "ngx_nats_buf_ensure ok b n 1 = Some (rc, b')" for n rc b'
    using retD [OF ensure_shape [OF assms] that] by simp
  show ?thesis
    using assms put ens by (fastforce simp: ret_def ngx_nats_add_message_def bind_eq_Some_conv split: if_splits)
qed

lemma consume_shape:
  "buf_shape b \<Longrightarrow> b_pos b + n \<le> b_end b \<Longrightarrow> buf_shape (buf_consume b n) \<and> b_cap (buf_consume b n) = b_cap b"
  by (auto simp: buf_shape_def buf_consume_def)

section \<open>Every run keeps the bounds\<close>

text \<open>The operations on a buffer: \<open>BFill\<close> is the read of \<open>n\<close> bytes at \<open>end\<close> that
  \<open>ngx_nats_read_from_nats\<close> makes, \<open>BTake\<close> the consumption of \<open>n\<close> bytes from \<open>pos\<close>.\<close>

datatype buf_op = BReset | BCompact | BEnsure bool nat int | BAdd bool bytes nat | BTake nat | BFill bytes

definition buf_fill :: "ngx_nats_buf \<Rightarrow> bytes \<Rightarrow> ngx_nats_buf option" where
  "buf_fill b xs = do { m \<leftarrow> mem_put (b_buf b) (b_end b) (map Some xs);
                        Some (b\<lparr>b_buf := m, b_end := b_end b + length xs\<rparr>) }"

fun buf_step :: "ngx_nats_buf \<Rightarrow> buf_op \<Rightarrow> ngx_nats_buf option" where
  "buf_step b BReset = Some (ngx_nats_buf_reset b)"
| "buf_step b BCompact = ngx_nats_buf_compact b"
| "buf_step b (BEnsure ok sz compact) = map_option snd (ngx_nats_buf_ensure ok b sz compact)"
| "buf_step b (BAdd ok message sz) = map_option snd (ngx_nats_add_message ok b message sz)"
| "buf_step b (BTake n) = (if n \<le> b_end b - b_pos b then Some (buf_consume b n) else None)"
| "buf_step b (BFill xs) = buf_fill b xs"

fun buf_run :: "ngx_nats_buf \<Rightarrow> buf_op list \<Rightarrow> ngx_nats_buf option" where
  "buf_run b [] = Some b"
| "buf_run b (op # ops) = do { b \<leftarrow> buf_step b op; buf_run b ops }"

lemma fill_shape:
  "buf_shape b \<Longrightarrow> ret (buf_fill b xs) (\<lambda>b'. buf_shape b' \<and> b_cap b' = b_cap b)"
  by (auto simp: ret_def buf_fill_def buf_shape_def mem_put_def split: if_splits)

lemma buf_step_shape:
  assumes "buf_shape b" and "buf_step b op = Some b'"
  shows "buf_shape b' \<and> b_cap b \<le> b_cap b'"
proof (cases op)
  case (BTake n)
  with assms have "b_pos b + n \<le> b_end b" "b' = buf_consume b n"
    by (auto simp: buf_shape_def split: if_splits)
  with consume_shape [OF assms(1), of n] show ?thesis by simp
next
  case BCompact
  with assms retD [OF compact_shape [OF assms(1)]] show ?thesis by simp
next
  case (BEnsure ok sz compact)
  with assms ensure_shape [OF assms(1), of ok sz compact] show ?thesis by (auto simp: ret_def)
next
  case (BAdd ok message sz)
  with assms add_message_shape [OF assms(1), of ok message sz] show ?thesis by (auto simp: ret_def)
next
  case (BFill xs)
  with assms retD [OF fill_shape [OF assms(1), of xs]] show ?thesis by simp
qed (use assms reset_shape in auto)

text \<open>
  The conditions under which the code calls the operations: an append names at least one byte of its
  message and neither it nor a growth reallocates a partly sent buffer (\<open>buf_movable\<close>), sizes stay
  below \<open>2 ^ 63\<close>, a read delivers at most the bytes that fit and a write takes at most the readable
  bytes.
\<close>

fun op_fits :: "ngx_nats_buf \<Rightarrow> buf_op \<Rightarrow> bool" where
  "op_fits b BReset = True"
| "op_fits b BCompact = True"
| "op_fits b (BEnsure ok sz compact) \<longleftrightarrow> buf_movable b sz compact \<and> b_end b - b_pos b + sz \<le> 2 ^ 63"
| "op_fits b (BAdd ok message sz) \<longleftrightarrow> 0 < sz \<and> sz \<le> length message \<and> buf_movable b sz 1 \<and> b_end b - b_pos b + sz \<le> 2 ^ 63"
| "op_fits b (BTake n) \<longleftrightarrow> n \<le> b_end b - b_pos b"
| "op_fits b (BFill xs) \<longleftrightarrow> b_end b + length xs \<le> b_cap b"

fun run_fits :: "ngx_nats_buf \<Rightarrow> buf_op list \<Rightarrow> bool" where
  "run_fits b [] = True"
| "run_fits b (op # ops) \<longleftrightarrow>
     op_fits b op \<and> (case buf_step b op of None \<Rightarrow> True | Some b' \<Rightarrow> run_fits b' ops)"

lemma buf_step_fits:
  assumes wf: "buf_wf b" and cap: "0 < b_cap b" and fit: "op_fits b op"
  shows "\<exists>b'. buf_step b op = Some b' \<and> buf_wf b'"
proof (cases op)
  case BCompact
  with compact_wf [OF wf] show ?thesis by (metis buf_step.simps(2))
next
  case (BEnsure ok sz compact)
  with fit have "buf_movable b sz compact" "length (contents b) + sz \<le> 2 ^ 63"
    by (simp_all add: length_contents [OF wf])
  with ensure_ok [OF wf _ cap, of sz compact ok] BEnsure show ?thesis by auto
next
  case (BAdd ok message sz)
  with fit have "buf_movable b sz 1" "0 < sz" "sz \<le> length message" "length (contents b) + sz \<le> 2 ^ 63"
    by (simp_all add: length_contents [OF wf])
  with add_message_ok [OF wf cap, of sz message ok] BAdd show ?thesis by auto
next
  case (BTake n)
  with fit consume_wf [OF wf, of n] length_contents [OF wf] show ?thesis by auto
next
  case (BFill xs)
  with fit put_at_end [OF wf, of xs] show ?thesis by (auto simp: buf_fill_def)
qed (use reset_wf [OF wf] in auto)

lemma buf_run_fits:
  "buf_shape b \<Longrightarrow> buf_wf b \<Longrightarrow> run_fits b ops \<Longrightarrow>
     \<exists>b'. buf_run b ops = Some b' \<and> buf_shape b' \<and> buf_wf b' \<and> b_cap b \<le> b_cap b'"
proof (induction ops arbitrary: b)
  case (Cons op ops)
  obtain c where c: "buf_step b op = Some c" "buf_wf c"
    using buf_step_fits Cons.prems by (auto simp: buf_shape_def)
  from buf_step_shape [OF Cons.prems(1) c(1)] Cons.IH [of c] Cons.prems(3) c show ?case by fastforce
qed simp

text \<open>
  C24: the bounds written in the comment of \<open>ngx_nats_buf_t\<close> are an invariant. On a buffer made by
  \<open>ngx_nats_buf_create\<close>, every sequence of resets, compactions, growths, appended messages, reads
  and consumptions, in which nothing reallocates a partly sent buffer and the sizes are as the
  code chooses them (\<open>run_fits\<close>), stays inside the memory of the buffer; at its end
  \<open>pos <= end <= cap\<close> holds, \<open>cap\<close> is the allocated length and has not shrunk, and the bytes between
  \<open>pos\<close> and \<open>end\<close> are initialised.
\<close>

theorem buf_bounds_invariant:
  assumes "ngx_nats_buf_create ok1 ok2 sz = Some b" and "0 < sz" and "sz < 2 ^ 64" and "run_fits b ops"
  shows "\<exists>b'. buf_run b ops = Some b' \<and> b_pos b' \<le> b_end b' \<and> b_end b' \<le> b_cap b'
    \<and> length (b_buf b') = b_cap b' \<and> sz \<le> b_cap b' \<and> None \<notin> set (slice (b_buf b') (b_pos b') (b_end b'))"
proof -
  have "buf_wf b" "b_cap b = sz" using create_wf [OF assms(1)] by simp_all
  with buf_run_fits [OF _ _ assms(4)] buf_shape_wf [of b] assms(2,3) show ?thesis by (auto simp: buf_wf_def)
qed

theorem buf_bounds_invariant_witness:
  "\<exists>b b'. ngx_nats_buf_create True True 4 = Some b
     \<and> buf_run b [BAdd True ''abc'' 3, BTake 2, BAdd True ''de'' 2, BCompact, BFill ''x''] = Some b'
     \<and> b_pos b' \<le> b_end b' \<and> b_end b' \<le> b_cap b'"
proof -
  let ?b = "\<lparr>b_buf = replicate 4 None, b_pos = 0, b_end = 0, b_cap = 4\<rparr>"
  let ?ops = "[BAdd True ''abc'' 3, BTake 2, BAdd True ''de'' 2, BCompact, BFill ''x'']"
  have c: "ngx_nats_buf_create True True 4 = Some ?b" by (simp add: ngx_nats_buf_create_def)
  have b: "?b = \<lparr>b_buf = [None, None, None, None], b_pos = 0, b_end = 0, b_cap = 4\<rparr>" by (simp add: numeral_eq_Suc)
  have f: "run_fits ?b ?ops"
    unfolding b by (simp add: buf_movable_def ngx_nats_add_message_def ngx_nats_buf_ensure_def ngx_nats_buf_compact_def buf_move_down_def
        buf_consume_def buf_fill_def Let_def mem_put_def mem_get_def)
  from buf_bounds_invariant [OF c _ _ f] c show ?thesis by auto
qed

end
