(* ===== verification/Nats_Conn.thy ===== *)
theory Nats_Conn
  imports "HOL-Library.Word" Nats_Buf Nats_Print Nats_Subs
begin

text \<open>
  The connection to NATS: the state of \<open>ngx_nats_comm.c\<close> and the functions that connect, send and
  close. The \<open>world\<close> is \<open>ngx_nats_data_t\<close> with the connection structure it points to. That structure
  is the first allocation of a pool that is reset for every connection, so it always lies at the same
  address: \<open>w_conn\<close> is its memory and \<open>w_live\<close> says whether \<open>nd->nc\<close> points to it or is \<open>NULL\<close>. What
  nginx and the network do (sockets, events, allocations) is the record \<open>env\<close>, asked at increasing
  ticks; what the clients do in their callbacks is the parameter \<open>cb\<close>, a function on the world.
  Closing, sending and connecting call one another; the reconnection that a close starts is the
  parameter \<open>recon\<close> of the others, and \<open>connect_fuel\<close> ties the knot.
\<close>

unbundle bit_operations_syntax

section \<open>Constants\<close>

definition NGX_NATS_REASON_CONNECT_FAILED :: int where "NGX_NATS_REASON_CONNECT_FAILED = 1"
definition NGX_NATS_REASON_CONNECT_REFUSED :: int where "NGX_NATS_REASON_CONNECT_REFUSED = 2"
definition NGX_NATS_REASON_READ_TIMEOUT :: int where "NGX_NATS_REASON_READ_TIMEOUT = 3"
definition NGX_NATS_REASON_WRITE_TIMEOUT :: int where "NGX_NATS_REASON_WRITE_TIMEOUT = 4"
definition NGX_NATS_REASON_BAD_PROTOCOL :: int where "NGX_NATS_REASON_BAD_PROTOCOL = 5"
definition NGX_NATS_REASON_DISCONNECTED :: int where "NGX_NATS_REASON_DISCONNECTED = 6"
definition NGX_NATS_REASON_NO_MEMORY :: int where "NGX_NATS_REASON_NO_MEMORY = 98"
definition NGX_NATS_REASON_INTERNAL_ERROR :: int where "NGX_NATS_REASON_INTERNAL_ERROR = 99"

lemmas reasons = NGX_NATS_REASON_CONNECT_FAILED_def NGX_NATS_REASON_CONNECT_REFUSED_def
  NGX_NATS_REASON_READ_TIMEOUT_def NGX_NATS_REASON_WRITE_TIMEOUT_def
  NGX_NATS_REASON_BAD_PROTOCOL_def NGX_NATS_REASON_DISCONNECTED_def
  NGX_NATS_REASON_NO_MEMORY_def NGX_NATS_REASON_INTERNAL_ERROR_def

type_synonym u8 = "8 word"

definition NGX_NATS_STATE_BYTES_EXCHANGED :: u8 where "NGX_NATS_STATE_BYTES_EXCHANGED = 0x01"
definition NGX_NATS_STATE_CONNECT_SENT :: u8 where "NGX_NATS_STATE_CONNECT_SENT = 0x02"
definition NGX_NATS_STATE_CONNECT_OKAYED :: u8 where "NGX_NATS_STATE_CONNECT_OKAYED = 0x04"
definition NGX_NATS_STATE_INFO_RECEIVED :: u8 where "NGX_NATS_STATE_INFO_RECEIVED = 0x08"
definition NGX_NATS_STATE_READY :: u8 where "NGX_NATS_STATE_READY = 0x0f"

lemmas states = NGX_NATS_STATE_BYTES_EXCHANGED_def NGX_NATS_STATE_CONNECT_SENT_def
  NGX_NATS_STATE_CONNECT_OKAYED_def NGX_NATS_STATE_INFO_RECEIVED_def NGX_NATS_STATE_READY_def

section \<open>State\<close>

text \<open>A client: its pointer, and whether its \<open>disconnected\<close> callback is set.\<close>

record ngx_nats_client =
  cl_id :: nat
  cl_disconnected :: bool

text \<open>\<open>nc_fd\<close>: the socket of the connection is open; \<open>nc_rtimer\<close>, \<open>nc_wtimer\<close>, \<open>nc_ping\<close>: the read, write
  and ping timers are set.\<close>

record ngx_nats_connection =
  nc_server :: nat
  nc_state :: u8
  nc_ping :: bool
  nc_fd :: bool
  nc_rtimer :: bool
  nc_wtimer :: bool
  srv_id :: "bytes option"
  srv_host :: "bytes option"
  srv_port :: int
  srv_version :: "bytes option"
  go_version :: "bytes option"
  srv_max_payload :: int
  srv_auth_required :: bool
  srv_ssl_required :: bool

definition conn_zero :: ngx_nats_connection where
  "conn_zero = \<lparr>nc_server = 0, nc_state = 0, nc_ping = False, nc_fd = False, nc_rtimer = False,
     nc_wtimer = False, srv_id = None, srv_host = None, srv_port = 0, srv_version = None,
     go_version = None, srv_max_payload = 0, srv_auth_required = False, srv_ssl_required = False\<rparr>"

text \<open>The message a handler is given.\<close>

record ngx_nats_message =
  mg_client :: nat
  mg_sid :: int
  mg_subject :: bytes
  mg_replyto :: "bytes option"
  mg_data :: bytes
  mg_sub_data :: nat

datatype callback = Connected nat | Disconnected nat | HandleMsg nat ngx_nats_message

text \<open>What is observed: callbacks, connection attempts (by server index) and bytes sent.\<close>

datatype event = Callback callback | Attempt nat | Sent "char option list"

text \<open>\<open>w_global\<close>: the variable \<open>ngx_nats_data\<close>, which the client functions use, points to this structure.\<close>

record world =
  w_global :: bool
  w_clients :: "ngx_nats_client list"
  w_subs :: subs
  w_next_id :: int
  w_conn :: ngx_nats_connection
  w_live :: bool
  w_rbuf :: ngx_nats_buf
  w_wbuf :: ngx_nats_buf
  w_rec_timer :: bool
  w_nconnects :: int
  w_curr :: int
  w_last :: int
  w_err_reported :: bool
  w_tick :: nat
  w_log :: "event list"

record env =
  e_servers :: nat
  e_user :: bytes
  e_password :: bytes
  e_snpf :: "nat \<Rightarrow> piece list \<Rightarrow> bytes"
  e_ceq :: "bytes \<Rightarrow> bytes \<Rightarrow> bool"
  e_alloc :: "nat \<Rightarrow> bool"
  e_json_alloc :: "nat \<Rightarrow> nat \<Rightarrow> bool"
  e_connect :: "nat \<Rightarrow> int"
  e_send :: "nat \<Rightarrow> nat \<Rightarrow> int"
  e_recv :: "nat \<Rightarrow> nat \<Rightarrow> int \<times> bytes"
  e_write_event :: "nat \<Rightarrow> int"
  e_read_event :: "nat \<Rightarrow> int"
  e_so_error :: "nat \<Rightarrow> bool"
  e_junk :: ngx_nats_subscription

type_synonym step = "world \<Rightarrow> world option"

definition tick :: "world \<Rightarrow> world" where
  "tick w = w\<lparr>w_tick := w_tick w + 1\<rparr>"

definition emit :: "event \<Rightarrow> world \<Rightarrow> world" where
  "emit ev w = w\<lparr>w_log := w_log w @ [ev]\<rparr>"

definition upd_conn :: "(ngx_nats_connection \<Rightarrow> ngx_nats_connection) \<Rightarrow> world \<Rightarrow> world" where
  "upd_conn f w = w\<lparr>w_conn := f (w_conn w)\<rparr>"

definition call :: "(callback \<Rightarrow> step) \<Rightarrow> callback \<Rightarrow> step" where
  "call cb c w = cb c (emit (Callback c) w)"

text \<open>A loop over the clients registered when it starts.\<close>

fun each_client :: "(ngx_nats_client \<Rightarrow> step) \<Rightarrow> ngx_nats_client list \<Rightarrow> step" where
  "each_client f [] w = Some w"
| "each_client f (c # cs) w = do { w \<leftarrow> f c w; each_client f cs w }"

section \<open>Closing\<close>

definition ngx_nats_add_reconnect_timer :: "world \<Rightarrow> world" where
  "ngx_nats_add_reconnect_timer w =
     (if \<not> w_rec_timer w then w\<lparr>w_curr := - 1, w_rec_timer := True\<rparr> else w)"

text \<open>The start of a close: the timers of the connection are deleted and its socket is closed.\<close>

definition hang_up :: "world \<Rightarrow> world" where
  "hang_up w = upd_conn (\<lambda>c. c\<lparr>nc_ping := False, nc_fd := False, nc_rtimer := False, nc_wtimer := False\<rparr>) w"

text \<open>The reset at the end of a close: subscriptions, \<open>nd->nc\<close> and both buffers.\<close>

definition forget_connection :: "world \<Rightarrow> world" where
  "forget_connection w =
     w\<lparr>w_subs := [], w_next_id := 0, w_live := False,
       w_rbuf := ngx_nats_buf_reset (w_rbuf w), w_wbuf := ngx_nats_buf_reset (w_wbuf w)\<rparr>"

definition ngx_nats_close_connection ::
  "(callback \<Rightarrow> step) \<Rightarrow> step \<Rightarrow> int \<Rightarrow> int \<Rightarrow> step" where
  "ngx_nats_close_connection cb recon reason reconnect w0 =
     (let w = hang_up w0;
          state = nc_state (w_conn w);
          immediate = (state AND NGX_NATS_STATE_BYTES_EXCHANGED = 0) in
      do { w \<leftarrow> (if immediate then Some w
                else if state = NGX_NATS_STATE_READY
                then each_client (\<lambda>c w. if cl_disconnected c then call cb (Disconnected (cl_id c)) w else Some w)
                       (w_clients w) w
                else Some w);
           let w = forget_connection w;
           if reconnect \<noteq> 0
           then if reason = NGX_NATS_REASON_DISCONNECTED \<or> immediate then recon w
                else Some (ngx_nats_add_reconnect_timer w)
           else Some w })"

section \<open>Sending\<close>

definition ngx_nats_check_connected :: "world \<Rightarrow> world" where
  "ngx_nats_check_connected w =
     (if nc_state (w_conn w) AND NGX_NATS_STATE_BYTES_EXCHANGED \<noteq> 0 then w
      else upd_conn (\<lambda>c. c\<lparr>nc_state := nc_state c OR NGX_NATS_STATE_BYTES_EXCHANGED, nc_ping := True\<rparr>) w)"

definition ngx_nats_flush :: "(callback \<Rightarrow> step) \<Rightarrow> step \<Rightarrow> env \<Rightarrow> step" where
  "ngx_nats_flush cb recon e w0 =
     (let b = w_wbuf w0; slen = usub (b_end b) (b_pos b) in
      if slen = 0 then Some (w0\<lparr>w_wbuf := b\<lparr>b_pos := 0, b_end := 0\<rparr>\<rparr>)
      else do {
        cells \<leftarrow> mem_get (b_buf b) (b_pos b) slen;
        let n = e_send e (w_tick w0) slen;
        let w = tick w0;
        if n > 0 then (
          let w = ngx_nats_check_connected (emit (Sent (take (nat n) cells)) w);
              w = w\<lparr>w_wbuf := buf_consume b (nat n)\<rparr> in
          if b_pos b + nat n = b_end b
          then if e_write_event e (w_tick w) \<noteq> NGX_OK
               then ngx_nats_close_connection cb recon NGX_NATS_REASON_INTERNAL_ERROR 1 (tick w)
               else Some (tick w)
          else Some w)
        else if n = NGX_ERROR
        then ngx_nats_close_connection cb recon NGX_NATS_REASON_DISCONNECTED 1 w
        else if n = NGX_AGAIN then (
          let w = upd_conn (\<lambda>c. c\<lparr>nc_wtimer := True\<rparr>) w in
          if e_write_event e (w_tick w) \<noteq> NGX_OK
          then ngx_nats_close_connection cb recon NGX_NATS_REASON_INTERNAL_ERROR 1 (tick w)
          else Some (tick w))
        else Some w })"

text \<open>\<open>ngx_nats_add_message\<close> on the connection's write buffer.\<close>

definition add_message :: "env \<Rightarrow> bytes \<Rightarrow> nat \<Rightarrow> world \<Rightarrow> (int \<times> world) option" where
  "add_message e message sz w =
     do { (rc, b) \<leftarrow> ngx_nats_add_message (e_alloc e (w_tick w)) (w_wbuf w) message sz;
          Some (rc, (tick w)\<lparr>w_wbuf := b\<rparr>) }"

definition connect_pieces :: "bytes \<Rightarrow> bytes \<Rightarrow> piece list" where
  "connect_pieces user password =
     [Lit (''CONNECT {'' @ [CHR 0x22] @ ''verbose'' @ [CHR 0x22] @ '':false,'' @ [CHR 0x22] @ ''pedantic''
           @ [CHR 0x22] @ '':false,'' @ [CHR 0x22] @ ''user'' @ [CHR 0x22] @ '':'' @ [CHR 0x22]),
      V user, Lit ([CHR 0x22] @ '','' @ [CHR 0x22] @ ''pass'' @ [CHR 0x22] @ '':'' @ [CHR 0x22]),
      V password, Lit ([CHR 0x22] @ '','' @ [CHR 0x22] @ ''lang'' @ [CHR 0x22] @ '':'' @ [CHR 0x22]
           @ ''c-nginx'' @ [CHR 0x22] @ ''}'' @ [CR, LF] @ ''PING'' @ [CR, LF])]"

definition ngx_nats_connection_init :: "env \<Rightarrow> step" where
  "ngx_nats_connection_init e w =
     (let connstr = e_snpf e (512 + 128) (connect_pieces (e_user e) (e_password e)) in
      if nc_state (w_conn w) AND NGX_NATS_STATE_CONNECT_SENT = 0
      then map_option snd (add_message e connstr (length connstr)
             (upd_conn (\<lambda>c. c\<lparr>nc_state := nc_state c OR NGX_NATS_STATE_CONNECT_SENT\<rparr>) w))
      else Some w)"

section \<open>Connecting\<close>

text \<open>The next server: \<open>Inl\<close> when all were tried and the timer was set, otherwise \<open>Inr\<close>.\<close>

definition next_server :: "env \<Rightarrow> world \<Rightarrow> world + world" where
  "next_server e w =
     (if w_curr w < 0 then Inr (w\<lparr>w_curr := w_last w, w_nconnects := w_nconnects w + 1\<rparr>)
      else (let c = (if w_curr w + 1 \<ge> int (e_servers e) then 0 else w_curr w + 1);
                w = w\<lparr>w_curr := c\<rparr> in
            if c = w_last w then Inl (ngx_nats_add_reconnect_timer (w\<lparr>w_err_reported := True\<rparr>))
            else Inr w))"

definition ngx_nats_connect_loop :: "(callback \<Rightarrow> step) \<Rightarrow> step \<Rightarrow> env \<Rightarrow> world \<Rightarrow> (int \<times> world) option" where
  "ngx_nats_connect_loop cb recon e w0 =
     (case next_server e w0 of
        Inl w \<Rightarrow> Some (NGX_DECLINED, w)
      | Inr w \<Rightarrow>
        (let w = w\<lparr>w_rbuf := ngx_nats_buf_reset (w_rbuf w), w_wbuf := ngx_nats_buf_reset (w_wbuf w)\<rparr>;
             ok = e_alloc e (w_tick w); w = tick w in
         if \<not> ok then Some (NGX_ERROR, w)
         else if w_curr w < 0 \<or> w_curr w \<ge> int (e_servers e) then None
         else
         (let w = emit (Attempt (nat (w_curr w)))
                    (w\<lparr>w_conn := conn_zero\<lparr>nc_server := nat (w_curr w)\<rparr>, w_live := True\<rparr>);
              rc = e_connect e (w_tick w); w = tick w in
          if rc = NGX_BUSY \<or> rc = NGX_ERROR \<or> rc = NGX_DECLINED then Some (NGX_AGAIN, w)
          else if rc = NGX_AGAIN
          then Some (NGX_OK, upd_conn (\<lambda>c. c\<lparr>nc_fd := True, nc_wtimer := True\<rparr>) w)
          else if rc = NGX_OK
          then do { w \<leftarrow> ngx_nats_connection_init e (upd_conn (\<lambda>c. c\<lparr>nc_fd := True\<rparr>) w);
                    w \<leftarrow> ngx_nats_flush cb recon e w;
                    Some (NGX_OK, w) }
          else Some (NGX_OK, w))))"

text \<open>\<open>ngx_nats_process_reconnect\<close>, given \<open>ngx_nats_connect\<close>.\<close>

definition ngx_nats_process_reconnect :: "step \<Rightarrow> step" where
  "ngx_nats_process_reconnect connect w = connect (w\<lparr>w_rec_timer := False\<rparr>)"

text \<open>The loop of \<open>ngx_nats_connect\<close>; every pass, nested ones included, takes one unit of fuel.\<close>

fun connect_fuel :: "(callback \<Rightarrow> step) \<Rightarrow> env \<Rightarrow> nat \<Rightarrow> step" where
  "connect_fuel cb e 0 = (\<lambda>w. None)"
| "connect_fuel cb e (Suc k) = (\<lambda>w. do {
     (rc, w) \<leftarrow> ngx_nats_connect_loop cb (ngx_nats_process_reconnect (connect_fuel cb e k)) e w;
     if rc = NGX_AGAIN then connect_fuel cb e k w else Some w })"

text \<open>There are at most \<open>n + 1\<close> passes for \<open>n\<close> servers (see \<open>connect_total\<close>).\<close>

definition ngx_nats_connect :: "(callback \<Rightarrow> step) \<Rightarrow> env \<Rightarrow> step" where
  "ngx_nats_connect cb e = connect_fuel cb e (e_servers e + 1)"

definition reconnect :: "(callback \<Rightarrow> step) \<Rightarrow> env \<Rightarrow> step" where
  "reconnect cb e = ngx_nats_process_reconnect (ngx_nats_connect cb e)"

definition close_connection :: "(callback \<Rightarrow> step) \<Rightarrow> env \<Rightarrow> int \<Rightarrow> int \<Rightarrow> step" where
  "close_connection cb e = ngx_nats_close_connection cb (reconnect cb e)"

definition flush :: "(callback \<Rightarrow> step) \<Rightarrow> env \<Rightarrow> step" where
  "flush cb e = ngx_nats_flush cb (reconnect cb e) e"

text \<open>\<open>ngx_nats_ping_handler\<close>; \<open>timer_set\<close> is \<open>ev->timer_set\<close> when it is called.\<close>

definition ngx_nats_ping_handler :: "(callback \<Rightarrow> step) \<Rightarrow> env \<Rightarrow> bool \<Rightarrow> step" where
  "ngx_nats_ping_handler cb e timer_set w =
     (if \<not> timer_set then Some w
      else do { (rc, w) \<leftarrow> add_message e (''PING'' @ [CR, LF]) 6 w;
                w \<leftarrow> flush cb e w;
                Some (upd_conn (\<lambda>c. c\<lparr>nc_ping := True\<rparr>) w) })"

definition ngx_nats_reconnect_handler :: "(callback \<Rightarrow> step) \<Rightarrow> env \<Rightarrow> step" where
  "ngx_nats_reconnect_handler cb e w = reconnect cb e w"

definition ngx_nats_init :: "(callback \<Rightarrow> step) \<Rightarrow> env \<Rightarrow> world \<Rightarrow> (int \<times> world) option" where
  "ngx_nats_init cb e w = do { w \<leftarrow> ngx_nats_connect cb e (w\<lparr>w_global := True\<rparr>); Some (NGX_OK, w) }"

definition ngx_nats_exit :: "world \<Rightarrow> world" where
  "ngx_nats_exit w = w\<lparr>w_global := False\<rparr>"

text \<open>\<open>ngx_nats_data_t\<close> as \<open>ngx_nats_core_init_module\<close> fills it, with the two buffers it created.\<close>

definition nats_data_init :: "ngx_nats_buf \<Rightarrow> ngx_nats_buf \<Rightarrow> world" where
  "nats_data_init rbuf wbuf =
     \<lparr>w_global = False, w_clients = [], w_subs = [], w_next_id = 0, w_conn = conn_zero, w_live = False,
      w_rbuf = rbuf, w_wbuf = wbuf, w_rec_timer = False, w_nconnects = 0, w_curr = - 1, w_last = 0,
      w_err_reported = False, w_tick = 0, w_log = []\<rparr>"

end
