(* ===== verification/Nats_Conn_Live.thy ===== *)
theory Nats_Conn_Live
  imports "HOL-Library.Word" Nats_Buf_Inv Nats_Conn
begin

text \<open>
  Connecting ends, and it ends well: \<open>ngx_nats_connect\<close> returns after at most \<open>n + 1\<close> passes for \<open>n\<close>
  servers, with the socket of a connection open or with the reconnect timer set. The servers are
  tried in the listed order from the one after the current one.
\<close>

section \<open>What the module relies on and keeps\<close>

text \<open>
  The documented behaviour of nginx: at least one server is configured (\<open>ngx_nats_block\<close> refuses
  the configuration otherwise), \<open>ngx_event_connect_peer\<close> returns one of its five codes, \<open>send\<close>
  accepts at most the bytes it is given and \<open>recv\<close> delivers at most the bytes it is asked for.
\<close>

definition env_ok :: "env \<Rightarrow> bool" where
  "env_ok e \<longleftrightarrow> 0 < e_servers e \<and> snprintf_ok (e_snpf e)
     \<and> (\<forall>t. e_connect e t \<in> {NGX_OK, NGX_AGAIN, NGX_BUSY, NGX_ERROR, NGX_DECLINED})
     \<and> (\<forall>t n. e_send e t n \<le> int n)
     \<and> (\<forall>t k n xs. e_recv e t k = (n, xs) \<longrightarrow> 0 < n \<longrightarrow> length xs = nat n \<and> nat n \<le> k)"

text \<open>
  The table of subscriptions is well formed and its counter \<open>next_id\<close> does not wrap around, as long as
  fewer than \<open>2 ^ 63\<close> requests were made to the environment (every subscription makes one).
\<close>

definition table_ok :: "nat \<Rightarrow> int \<Rightarrow> subs \<Rightarrow> bool" where
  "table_ok t n ss \<longleftrightarrow> (t < 2 ^ 63 \<longrightarrow> 0 \<le> n \<and> n \<le> int t \<and> subs_wf n ss)"

lemma table_ok_tick [simp]: "table_ok t n ss \<Longrightarrow> table_ok (Suc t) n ss"
  by (auto simp: table_ok_def)

lemma table_ok_empty [simp]: "table_ok t 0 []"
  by (simp add: table_ok_def subs_wf_def)

text \<open>The invariant of the state: bounds of the buffers and of the server index, and the table.\<close>

definition world_ok :: "env \<Rightarrow> world \<Rightarrow> bool" where
  "world_ok e w \<longleftrightarrow> buf_shape (w_rbuf w) \<and> buf_shape (w_wbuf w)
     \<and> w_last w = 0 \<and> - 1 \<le> w_curr w \<and> w_curr w < int (e_servers e)
     \<and> table_ok (w_tick w) (w_next_id w) (w_subs w)"

definition connected :: "world \<Rightarrow> bool" where
  "connected w \<longleftrightarrow> w_live w \<and> nc_fd (w_conn w)"

text \<open>The module will hear of NATS again: from the socket or from the timer.\<close>

definition settled :: "world \<Rightarrow> bool" where
  "settled w \<longleftrightarrow> connected w \<or> w_rec_timer w"

fun attempts :: "event list \<Rightarrow> nat list" where
  "attempts [] = []"
| "attempts (Attempt i # evs) = i # attempts evs"
| "attempts (Callback c # evs) = attempts evs"
| "attempts (Sent s # evs) = attempts evs"

fun callbacks :: "event list \<Rightarrow> callback list" where
  "callbacks [] = []"
| "callbacks (Attempt i # evs) = callbacks evs"
| "callbacks (Callback c # evs) = c # callbacks evs"
| "callbacks (Sent s # evs) = callbacks evs"

lemma attempts_append [simp]: "attempts (a @ b) = attempts a @ attempts b"
  by (induction a rule: attempts.induct) simp_all

lemma callbacks_append [simp]: "callbacks (a @ b) = callbacks a @ callbacks b"
  by (induction a rule: callbacks.induct) simp_all

text \<open>The state changed without attempts, callbacks or new clients.\<close>

definition quiet :: "world \<Rightarrow> world \<Rightarrow> bool" where
  "quiet w w' \<longleftrightarrow> w_clients w' = w_clients w
     \<and> (\<exists>evs. w_log w' = w_log w @ evs \<and> attempts evs = [] \<and> callbacks evs = [])"

lemmas world_defs = tick_def emit_def upd_conn_def

lemma quietI:
  "w_clients w' = w_clients w \<Longrightarrow> w_log w' = w_log w @ evs \<Longrightarrow> attempts evs = [] \<Longrightarrow> callbacks evs = []
     \<Longrightarrow> quiet w w'"
  by (auto simp: quiet_def)

lemma quiet_refl: "w_clients w' = w_clients w \<Longrightarrow> w_log w' = w_log w \<Longrightarrow> quiet w w'"
  by (simp add: quiet_def)

lemma quiet_trans: "quiet a b \<Longrightarrow> quiet b c \<Longrightarrow> quiet a c"
  by (fastforce simp: quiet_def)

section \<open>The first message and the first send\<close>

lemma connect_text_nonempty: "render_all (connect_pieces u p) \<noteq> []"
  by (simp add: connect_pieces_def render_all_def)

lemma length_snpf: "env_ok e \<Longrightarrow> length (e_snpf e lim ps) \<le> lim"
  by (simp add: env_ok_def snprintf_ok_def)

lemma connstr_nonempty: "env_ok e \<Longrightarrow> e_snpf e (512 + 128) (connect_pieces u p) \<noteq> []"
  using connect_text_nonempty [of u p] by (simp add: env_ok_def snprintf_ok_def)

text \<open>\<open>ngx_nats_connection_init\<close> on a new connection returns: the buffer is empty and starts at 0.\<close>

lemma connection_init_first:
  assumes "env_ok e" and "nc_state (w_conn w) = 0" and "w_wbuf w = ngx_nats_buf_reset b" and "buf_shape b"
  shows "post (ngx_nats_connection_init e w) (\<lambda>w'. \<exists>b'. buf_shape b' \<and>
     w' = w\<lparr>w_conn := (w_conn w)\<lparr>nc_state := NGX_NATS_STATE_CONNECT_SENT\<rparr>, w_wbuf := b', w_tick := w_tick w + 1\<rparr>)"
proof -
  let ?s = "e_snpf e (512 + 128) (connect_pieces (e_user e) (e_password e))"
  let ?w = "upd_conn (\<lambda>c. c\<lparr>nc_state := nc_state c OR NGX_NATS_STATE_CONNECT_SENT\<rparr>) w"
  have "length ?s \<le> 640" "?s \<noteq> []" using length_snpf [OF assms(1), of 640] connstr_nonempty [OF assms(1)] by auto
  then obtain rc b' where b': "ngx_nats_add_message (e_alloc e (w_tick w)) (w_wbuf w) ?s (length ?s) = Some (rc, b')"
    using add_message_ok [of "w_wbuf w" "length ?s" ?s "e_alloc e (w_tick w)"] assms(3,4) reset_shape_wf [OF assms(4)]
    by (auto simp: buf_movable_def buf_shape_def)
  have sh: "buf_shape b'"
    using retD [OF add_message_shape b'] assms(3) reset_shape [OF assms(4)] by simp
  have am: "add_message e ?s (length ?s) ?w = Some (rc, (tick ?w)\<lparr>w_wbuf := b'\<rparr>)"
    using b' by (simp add: add_message_def world_defs)
  have "ngx_nats_connection_init e w = Some ((tick ?w)\<lparr>w_wbuf := b'\<rparr>)"
    unfolding ngx_nats_connection_init_def Let_def am using assms(2) by simp
  moreover have "(tick ?w)\<lparr>w_wbuf := b'\<rparr> = w\<lparr>w_conn := (w_conn w)\<lparr>nc_state := NGX_NATS_STATE_CONNECT_SENT\<rparr>,
      w_wbuf := b', w_tick := w_tick w + 1\<rparr>" using assms(2) by (simp add: world_defs)
  ultimately show ?thesis using sh by (auto simp: post_def)
qed

text \<open>Closing a connection that is not ready calls no client.\<close>

lemma close_not_ready:
  assumes "nc_state (w_conn w) \<noteq> NGX_NATS_STATE_READY"
  shows "ngx_nats_close_connection cb recon reason rc w =
     (let w' = forget_connection (hang_up w) in
      if rc \<noteq> 0
      then if reason = NGX_NATS_REASON_DISCONNECTED \<or> nc_state (w_conn w) AND NGX_NATS_STATE_BYTES_EXCHANGED = 0
           then recon w' else Some (ngx_nats_add_reconnect_timer w')
      else Some w')"
  using assms by (simp add: ngx_nats_close_connection_def hang_up_def upd_conn_def Let_def)

lemma forget_ok: "world_ok e w \<Longrightarrow> world_ok e (forget_connection w)"
  by (auto simp: world_ok_def forget_connection_def reset_shape)

lemma hang_up_ok [simp]: "world_ok e (hang_up w) = world_ok e w"
  by (simp add: world_ok_def hang_up_def upd_conn_def)

lemma forget_hang_up [simp]:
  "w_curr (forget_connection (hang_up w)) = w_curr w" "w_log (forget_connection (hang_up w)) = w_log w"
  "w_clients (forget_connection (hang_up w)) = w_clients w"
  by (simp_all add: forget_connection_def hang_up_def upd_conn_def)

lemma timer_ok: "world_ok e w \<Longrightarrow> 0 < e_servers e \<Longrightarrow> world_ok e (ngx_nats_add_reconnect_timer w)
    \<and> w_rec_timer (ngx_nats_add_reconnect_timer w) \<and> quiet w (ngx_nats_add_reconnect_timer w)"
  by (simp add: world_ok_def ngx_nats_add_reconnect_timer_def quiet_def)


lemma sent_shape:
  assumes "buf_shape b" and "n \<le> int (usub (b_end b) (b_pos b))"
  shows "buf_shape (buf_consume b (nat n))"
proof -
  have "b_pos b + nat n \<le> b_end b" using assms by (auto simp: buf_shape_def)
  from consume_shape [OF assms(1) this] show ?thesis by simp
qed

text \<open>
  The first flush of a connection: it leaves the socket open, or sets the timer (only when an event
  cannot be registered), or goes on with \<open>recon\<close>.
\<close>

lemma flush_first:
  assumes e: "env_ok e" and w: "world_ok e w" and st: "nc_state (w_conn w) = NGX_NATS_STATE_CONNECT_SENT"
    and open_: "\<And>w'. world_ok e w' \<Longrightarrow> quiet w w' \<Longrightarrow> w_curr w' = w_curr w \<Longrightarrow> w_live w' = w_live w \<Longrightarrow>
      nc_fd (w_conn w') = nc_fd (w_conn w) \<Longrightarrow> nc_server (w_conn w') = nc_server (w_conn w) \<Longrightarrow> Q w'"
    and timer: "\<And>w' t. world_ok e w' \<Longrightarrow> quiet w w' \<Longrightarrow> w_rec_timer w' \<Longrightarrow> e_write_event e t \<noteq> NGX_OK \<Longrightarrow> Q w'"
    and recon: "\<And>w'. world_ok e w' \<Longrightarrow> quiet w w' \<Longrightarrow> w_curr w' = w_curr w \<Longrightarrow> post (recon w') Q"
  shows "post (ngx_nats_flush cb recon e w) Q"
proof -
  let ?b = "w_wbuf w"
  let ?slen = "usub (b_end ?b) (b_pos ?b)" and ?n = "e_send e (w_tick w) (usub (b_end ?b) (b_pos ?b))"
  have sh: "buf_shape ?b" using w by (simp add: world_ok_def)
  have n0: "0 < e_servers e" and n: "?n \<le> int ?slen" using e by (simp_all add: env_ok_def)
  have ok_b: "world_ok e (v\<lparr>w_wbuf := b\<rparr>)" if "world_ok e v" "buf_shape b" for v b
    using that by (simp add: world_ok_def)
  have close: "post (ngx_nats_close_connection cb recon reason 1 v) Q"
    if v: "world_ok e v" "quiet w v" "w_curr v = w_curr w" "nc_state (w_conn v) \<noteq> NGX_NATS_STATE_READY"
      and r: "reason \<noteq> NGX_NATS_REASON_DISCONNECTED \<Longrightarrow> e_write_event e t \<noteq> NGX_OK" for v t reason
  proof -
    let ?v = "forget_connection (hang_up v)"
    have f: "world_ok e ?v" "quiet w ?v" "w_curr ?v = w_curr w"
      using v forget_ok [of e "hang_up v"] by (simp_all add: quiet_def)
    from timer_ok [OF f(1) n0] quiet_trans [OF f(2)]
    have t: "world_ok e (ngx_nats_add_reconnect_timer ?v)" "quiet w (ngx_nats_add_reconnect_timer ?v)"
      "w_rec_timer (ngx_nats_add_reconnect_timer ?v)" by blast+
    show ?thesis
      unfolding close_not_ready [OF v(4)] Let_def
      using recon [OF f] timer [OF t] r by (auto simp: post_def)
  qed
  show ?thesis
  proof (cases "?slen = 0")
    case True
    have "buf_shape (?b\<lparr>b_pos := 0, b_end := 0\<rparr>)" using sh by (simp add: buf_shape_def)
    with True ok_b [OF w] show ?thesis
      by (auto simp: ngx_nats_flush_def Let_def quiet_def intro!: open_ post_Some)
  next
    case False
    then obtain cells where cells: "mem_get (b_buf ?b) (b_pos ?b) ?slen = Some cells"
      using sh by (auto simp: mem_get_def buf_shape_def)
    define s where "s = (ngx_nats_check_connected (emit (Sent (take (nat ?n) cells)) (tick w)))\<lparr>w_wbuf := buf_consume ?b (nat ?n)\<rparr>"
    define t where "t = upd_conn (\<lambda>c. c\<lparr>nc_wtimer := True\<rparr>) (tick w)"
    have flush: "ngx_nats_flush cb recon e w =
       (if ?n > 0
        then if b_pos ?b + nat ?n = b_end ?b
             then if e_write_event e (w_tick s) \<noteq> NGX_OK
                  then ngx_nats_close_connection cb recon NGX_NATS_REASON_INTERNAL_ERROR 1 (tick s)
                  else Some (tick s)
             else Some s
        else if ?n = NGX_ERROR then ngx_nats_close_connection cb recon NGX_NATS_REASON_DISCONNECTED 1 (tick w)
        else if ?n = NGX_AGAIN
             then if e_write_event e (w_tick t) \<noteq> NGX_OK
                  then ngx_nats_close_connection cb recon NGX_NATS_REASON_INTERNAL_ERROR 1 (tick t)
                  else Some (tick t)
             else Some (tick w))"
      unfolding ngx_nats_flush_def Let_def cells s_def t_def using False by (simp only: if_False bind.bind_lunit)
    have tick_ok: "world_ok e v \<Longrightarrow> world_ok e (tick v)" for v by (simp add: world_ok_def tick_def)
    have c: "buf_shape (buf_consume ?b (nat ?n))" if "?n > 0"
      using sent_shape [OF sh n] .
    have S: "world_ok e s" "quiet w s" "w_curr s = w_curr w" "nc_state (w_conn s) \<noteq> NGX_NATS_STATE_READY"
      "w_live s = w_live w" "nc_fd (w_conn s) = nc_fd (w_conn w)" "nc_server (w_conn s) = nc_server (w_conn w)"
      if "?n > 0"
      using w st c [OF that]
      by (auto simp: world_ok_def quiet_def ngx_nats_check_connected_def world_defs states s_def)
    have T: "world_ok e t" "quiet w t" "w_curr t = w_curr w" "nc_state (w_conn t) \<noteq> NGX_NATS_STATE_READY"
      "w_live t = w_live w" "nc_fd (w_conn t) = nc_fd (w_conn w)" "nc_server (w_conn t) = nc_server (w_conn w)"
      using w st by (auto simp: world_ok_def quiet_def world_defs states t_def)
    have W: "world_ok e (tick w)" "quiet w (tick w)" "w_curr (tick w) = w_curr w"
      "nc_state (w_conn (tick w)) \<noteq> NGX_NATS_STATE_READY"
      using w st by (auto simp: world_ok_def quiet_def world_defs states)
    have tq: "quiet w v \<Longrightarrow> quiet w (tick v)" "w_curr (tick v) = w_curr v" "w_conn (tick v) = w_conn v"
      "w_live (tick v) = w_live v" for v by (auto simp: quiet_def tick_def)
    have opn: "post (Some v) Q" if "world_ok e v" "quiet w v" "w_curr v = w_curr w" "w_live v = w_live w"
      "nc_fd (w_conn v) = nc_fd (w_conn w)" "nc_server (w_conn v) = nc_server (w_conn w)" for v
      using open_ [OF that] by (rule post_Some)
    have nd: "NGX_NATS_REASON_INTERNAL_ERROR \<noteq> NGX_NATS_REASON_DISCONNECTED" by (simp add: reasons)
    show ?thesis
      unfolding flush
    proof (intro post_if)
      assume n: "0 < ?n" and ev: "e_write_event e (w_tick s) \<noteq> NGX_OK"
      show "post (ngx_nats_close_connection cb recon NGX_NATS_REASON_INTERNAL_ERROR 1 (tick s)) Q"
        by (rule close [where t = "w_tick s"]) (use S [OF n] tq tick_ok ev in auto)
    next
      assume ev: "e_write_event e (w_tick t) \<noteq> NGX_OK"
      show "post (ngx_nats_close_connection cb recon NGX_NATS_REASON_INTERNAL_ERROR 1 (tick t)) Q"
        by (rule close [where t = "w_tick t"]) (use T tq tick_ok ev in auto)
    next
      show "post (ngx_nats_close_connection cb recon NGX_NATS_REASON_DISCONNECTED 1 (tick w)) Q"
        by (rule close [OF W]) simp
    qed (intro opn; use S T W tq tick_ok in simp)+
  qed
qed

section \<open>The loop over the servers\<close>

text \<open>
  What a call of \<open>ngx_nats_connect\<close> does: it tries the servers \<open>curr + 1, curr + 2, ...\<close> in this order,
  up to some \<open>m\<close>, and ends connected to the last one tried, or with the reconnect timer set. The
  latter happens after the last server of the list, or when nginx cannot register an event.
\<close>

definition connect_result :: "env \<Rightarrow> world \<Rightarrow> world \<Rightarrow> bool" where
  "connect_result e w w' \<longleftrightarrow> world_ok e w' \<and> w_clients w' = w_clients w
     \<and> (\<exists>evs m. w_log w' = w_log w @ evs \<and> callbacks evs = [] \<and> nat (w_curr w + 1) \<le> m \<and> m \<le> e_servers e
          \<and> attempts evs = [nat (w_curr w + 1)..<m]
          \<and> (connected w' \<and> Suc (nc_server (w_conn w')) = m
             \<or> w_rec_timer w' \<and> (m = e_servers e \<or> (\<exists>t. e_write_event e t \<noteq> NGX_OK))))"

lemma connect_result_settled: "connect_result e w w' \<Longrightarrow> settled w' \<and> world_ok e w'"
  by (auto simp: connect_result_def settled_def)

lemma connect_result_quiet:
  assumes "quiet v w" and "w_curr v = w_curr w" and "connect_result e w w'"
  shows "connect_result e v w'"
proof -
  obtain evs where "w_log w = w_log v @ evs" "attempts evs = []" "callbacks evs = []" "w_clients w = w_clients v"
    using assms(1) by (auto simp: quiet_def)
  moreover obtain evs' m where "w_log w' = w_log w @ evs'" "callbacks evs' = []" "nat (w_curr w + 1) \<le> m" "m \<le> e_servers e"
    "attempts evs' = [nat (w_curr w + 1)..<m]" "world_ok e w'" "w_clients w' = w_clients w"
    "connected w' \<and> Suc (nc_server (w_conn w')) = m
       \<or> w_rec_timer w' \<and> (m = e_servers e \<or> (\<exists>t. e_write_event e t \<noteq> NGX_OK))"
    using assms(3) by (auto simp: connect_result_def)
  ultimately show ?thesis unfolding connect_result_def using assms(2)
    by (intro conjI exI [of _ "evs @ evs'"] exI [of _ m]) auto
qed

text \<open>A pass that tried the next server in vain.\<close>

lemma connect_result_Cons:
  assumes "quiet v w" and "w_log v = w_log u @ [Attempt (nat (w_curr w))]" and "w_clients v = w_clients u"
    and "w_curr w = w_curr u + 1" and "- 1 \<le> w_curr u" and "w_curr w < int (e_servers e)"
    and "connect_result e w w'"
  shows "connect_result e u w'"
proof -
  obtain evs where 1: "w_log w = w_log v @ evs" "attempts evs = []" "callbacks evs = []" "w_clients w = w_clients v"
    using assms(1) by (auto simp: quiet_def)
  obtain evs' m where 2: "w_log w' = w_log w @ evs'" "callbacks evs' = []" "nat (w_curr w + 1) \<le> m" "m \<le> e_servers e"
    "attempts evs' = [nat (w_curr w + 1)..<m]" "world_ok e w'" "w_clients w' = w_clients w"
    "connected w' \<and> Suc (nc_server (w_conn w')) = m
       \<or> w_rec_timer w' \<and> (m = e_servers e \<or> (\<exists>t. e_write_event e t \<noteq> NGX_OK))"
    using assms(7) by (auto simp: connect_result_def)
  have c: "nat (w_curr w + 1) = Suc (nat (w_curr u + 1))" "nat (w_curr w) = nat (w_curr u + 1)"
    using assms(4,5) by auto
  then have "nat (w_curr w) # [nat (w_curr w + 1)..<m] = [nat (w_curr u + 1)..<m]"
    using 2(3) by (simp add: upt_conv_Cons)
  moreover have "nat (w_curr u + 1) \<le> m" using c 2(3) by simp
  ultimately show ?thesis unfolding connect_result_def using 1 2 assms(2,3)
    by (intro conjI exI [of _ "[Attempt (nat (w_curr w))] @ evs @ evs'"] exI [of _ m]) auto
qed

lemma next_server_cases:
  assumes "world_ok e w" and "0 < e_servers e"
  obtains (all) "next_server e w = Inl (ngx_nats_add_reconnect_timer (w\<lparr>w_curr := 0, w_err_reported := True\<rparr>))"
      "w_curr w + 1 = int (e_servers e)"
    | (more) n where "next_server e w = Inr (w\<lparr>w_curr := w_curr w + 1, w_nconnects := n\<rparr>)"
      "w_curr w + 1 < int (e_servers e)"
proof -
  have w: "w_last w = 0" "- 1 \<le> w_curr w" "w_curr w < int (e_servers e)" using assms by (auto simp: world_ok_def)
  consider "w_curr w = - 1" | "0 \<le> w_curr w" "w_curr w + 1 = int (e_servers e)"
    | "0 \<le> w_curr w" "w_curr w + 1 < int (e_servers e)" using w by linarith
  then show thesis
  proof cases
    case 1
    with w assms(2) show thesis by (intro more [of "w_nconnects w + 1"]) (simp_all add: next_server_def)
  next
    case 2
    with w show thesis by (intro all) (simp_all add: next_server_def Let_def)
  next
    case 3
    with w show thesis by (intro more [of "w_nconnects w"]) (simp_all add: next_server_def Let_def)
  qed
qed

text \<open>The world in which a server is tried, from the world in which it was chosen.\<close>

definition trying :: "world \<Rightarrow> world" where
  "trying w = tick (emit (Attempt (nat (w_curr w)))
     ((tick (w\<lparr>w_rbuf := ngx_nats_buf_reset (w_rbuf w), w_wbuf := ngx_nats_buf_reset (w_wbuf w)\<rparr>))
        \<lparr>w_conn := conn_zero\<lparr>nc_server := nat (w_curr w)\<rparr>, w_live := True\<rparr>))"

lemma connect_loop_all:
  "next_server e w = Inl w' \<Longrightarrow> ngx_nats_connect_loop cb recon e w = Some (NGX_DECLINED, w')"
  by (simp add: ngx_nats_connect_loop_def)

lemma connect_loop_more:
  assumes "next_server e w = Inr v" and "e_alloc e (w_tick v)" and "0 \<le> w_curr v" and "w_curr v < int (e_servers e)"
  shows "ngx_nats_connect_loop cb recon e w =
     (let rc = e_connect e (w_tick v + 1); u = trying v in
      if rc = NGX_BUSY \<or> rc = NGX_ERROR \<or> rc = NGX_DECLINED then Some (NGX_AGAIN, u)
      else if rc = NGX_AGAIN
      then Some (NGX_OK, upd_conn (\<lambda>c. c\<lparr>nc_fd := True, nc_wtimer := True\<rparr>) u)
      else if rc = NGX_OK
      then do { w \<leftarrow> ngx_nats_connection_init e (upd_conn (\<lambda>c. c\<lparr>nc_fd := True\<rparr>) u);
                w \<leftarrow> ngx_nats_flush cb recon e w;
                Some (NGX_OK, w) }
      else Some (NGX_OK, u))"
  using assms by (simp add: ngx_nats_connect_loop_def trying_def Let_def world_defs)

lemma trying_ok:
  assumes "world_ok e w"
  shows "world_ok e (trying w)" "w_curr (trying w) = w_curr w" "w_clients (trying w) = w_clients w"
    "w_log (trying w) = w_log w @ [Attempt (nat (w_curr w))]" "w_live (trying w)"
    "w_conn (trying w) = conn_zero\<lparr>nc_server := nat (w_curr w)\<rparr>"
    "w_wbuf (trying w) = ngx_nats_buf_reset (w_wbuf w)"
  using assms by (auto simp: trying_def world_ok_def world_defs reset_shape)

text \<open>The end of a pass that chose server \<open>curr + 1\<close> and connected to it, or went on.\<close>

lemma connect_result_here:
  assumes "w_log v = w_log u @ [Attempt (nat (w_curr u + 1))]" and "w_clients v = w_clients u"
    and "- 1 \<le> w_curr u" and "w_curr u + 1 < int (e_servers e)"
    and "quiet v w'" and "world_ok e w'"
    and "connected w' \<and> nc_server (w_conn w') = nat (w_curr u + 1)
      \<or> w_rec_timer w' \<and> (\<exists>t. e_write_event e t \<noteq> NGX_OK)"
  shows "connect_result e u w'"
proof -
  obtain evs where evs: "w_log w' = w_log v @ evs" "attempts evs = []" "callbacks evs = []" "w_clients w' = w_clients v"
    using assms(5) by (auto simp: quiet_def)
  have "nat (w_curr u + 1) < e_servers e" using assms(3,4) by linarith
  then show ?thesis
    unfolding connect_result_def using evs assms(1,2,6,7)
    by (intro conjI exI [of _ "[Attempt (nat (w_curr u + 1))] @ evs"] exI [of _ "Suc (nat (w_curr u + 1))"]) auto
qed

lemma first_flush_result:
  assumes e: "env_ok e" and w: "world_ok e w" "w_curr w + 1 < int (e_servers e)"
    and v: "v = w\<lparr>w_curr := w_curr w + 1, w_nconnects := n\<rparr>" and u: "u = trying v"
    and recon: "\<And>v. world_ok e v \<Longrightarrow> w_curr v = w_curr w + 1 \<Longrightarrow> post (recon v) (connect_result e v)"
  shows "post (do { w \<leftarrow> ngx_nats_connection_init e (upd_conn (\<lambda>c. c\<lparr>nc_fd := True\<rparr>) u);
                w \<leftarrow> ngx_nats_flush cb recon e w;
                Some (NGX_OK, w) }) (\<lambda>(rc, w'). rc = NGX_OK \<and> connect_result e w w')"
proof -
  have c: "- 1 \<le> w_curr w" using w by (simp add: world_ok_def)
  have ok: "world_ok e v" using w by (auto simp: world_ok_def v)
  note U = trying_ok [OF ok, folded u]
  let ?u = "upd_conn (\<lambda>c. c\<lparr>nc_fd := True\<rparr>) u"
  have "nc_state (w_conn ?u) = 0" "w_wbuf ?u = ngx_nats_buf_reset (w_wbuf v)" "buf_shape (w_wbuf v)"
    using U ok by (simp_all add: upd_conn_def conn_zero_def world_ok_def)
  from connection_init_first [OF e this] obtain b where b: "buf_shape b" and init: "ngx_nats_connection_init e ?u =
      Some (?u\<lparr>w_conn := (w_conn ?u)\<lparr>nc_state := NGX_NATS_STATE_CONNECT_SENT\<rparr>, w_wbuf := b, w_tick := w_tick ?u + 1\<rparr>)"
    by (auto simp: post_def)
  let ?i = "?u\<lparr>w_conn := (w_conn ?u)\<lparr>nc_state := NGX_NATS_STATE_CONNECT_SENT\<rparr>, w_wbuf := b, w_tick := w_tick ?u + 1\<rparr>"
  have i: "world_ok e ?i" "nc_state (w_conn ?i) = NGX_NATS_STATE_CONNECT_SENT"
    using U b by (auto simp: world_ok_def upd_conn_def)
  have log: "w_log ?i = w_log w @ [Attempt (nat (w_curr w + 1))]" "w_clients ?i = w_clients w" "w_curr ?i = w_curr w + 1"
    "w_live ?i" "nc_fd (w_conn ?i)" "nc_server (w_conn ?i) = nat (w_curr w + 1)"
    using U by (simp_all add: upd_conn_def v)
  note here = connect_result_here [OF log(1,2) c w(2)]
  have "post (ngx_nats_flush cb recon e ?i) (connect_result e w)"
  proof (rule flush_first [OF e i])
    fix w'
    assume "world_ok e w'" "quiet ?i w'" "w_live w' = w_live ?i" "nc_fd (w_conn w') = nc_fd (w_conn ?i)"
      "nc_server (w_conn w') = nc_server (w_conn ?i)"
    then show "connect_result e w w'" using log by (intro here) (auto simp: connected_def)
  next
    fix w' t
    assume "world_ok e w'" "quiet ?i w'" "w_rec_timer w'" "e_write_event e t \<noteq> NGX_OK"
    then show "connect_result e w w'" by (intro here) auto
  next
    fix w'
    assume w': "world_ok e w'" "quiet ?i w'" "w_curr w' = w_curr ?i"
    with log have curr: "w_curr w' = w_curr w + 1" by simp
    show "post (recon w') (connect_result e w)"
      by (rule post_weaken [OF recon [OF w'(1) curr]], rule connect_result_Cons [OF w'(2)])
        (use log curr c w(2) in auto)
  qed
  then show ?thesis unfolding init by (auto simp: post_def)
qed

lemma connect_loop_post:
  assumes e: "env_ok e" and al: "\<forall>t. e_alloc e t" and w: "world_ok e w"
    and recon: "\<And>v. world_ok e v \<Longrightarrow> w_curr v = w_curr w + 1 \<Longrightarrow> w_curr v < int (e_servers e) \<Longrightarrow>
      post (recon v) (connect_result e v)"
  shows "post (ngx_nats_connect_loop cb recon e w) (\<lambda>(rc, w').
     if rc = NGX_AGAIN then world_ok e w' \<and> w_curr w' = w_curr w + 1 \<and> w_curr w' < int (e_servers e)
       \<and> w_log w' = w_log w @ [Attempt (nat (w_curr w'))] \<and> w_clients w' = w_clients w
     else connect_result e w w')" (is "post _ ?Q")
proof -
  have n: "0 < e_servers e" and rc: "e_connect e t \<in> {NGX_OK, NGX_AGAIN, NGX_BUSY, NGX_ERROR, NGX_DECLINED}" for t
    using e by (auto simp: env_ok_def)
  have c: "- 1 \<le> w_curr w" using w by (simp add: world_ok_def)
  show ?thesis
  proof (cases rule: next_server_cases [OF w n])
    case 1
    let ?w = "w\<lparr>w_curr := 0, w_err_reported := True\<rparr>"
    have "world_ok e ?w" using w n by (auto simp: world_ok_def)
    from timer_ok [OF this n] have t: "world_ok e (ngx_nats_add_reconnect_timer ?w)"
      "w_rec_timer (ngx_nats_add_reconnect_timer ?w)" "w_log (ngx_nats_add_reconnect_timer ?w) = w_log w"
      "w_clients (ngx_nats_add_reconnect_timer ?w) = w_clients w"
      by (auto simp: ngx_nats_add_reconnect_timer_def)
    have "connect_result e w (ngx_nats_add_reconnect_timer ?w)"
      unfolding connect_result_def using t 1(2)
      by (intro conjI exI [of _ "[]"] exI [of _ "e_servers e"]) auto
    then show ?thesis by (simp add: connect_loop_all [OF 1(1)] post_def)
  next
    case (2 k)
    let ?v = "w\<lparr>w_curr := w_curr w + 1, w_nconnects := k\<rparr>"
    have v: "world_ok e ?v" "0 \<le> w_curr ?v" "w_curr ?v < int (e_servers e)"
      using w 2(2) by (auto simp: world_ok_def)
    note U = trying_ok [OF v(1)]
    let ?a = "upd_conn (\<lambda>c. c\<lparr>nc_fd := True, nc_wtimer := True\<rparr>) (trying ?v)"
    have a: "world_ok e ?a" "quiet (trying ?v) ?a" "connected ?a" "nc_server (w_conn ?a) = nat (w_curr w + 1)"
      using U by (auto simp: world_ok_def quiet_def upd_conn_def connected_def)
    have "connect_result e w ?a"
      by (rule connect_result_here [OF _ _ c 2(2) a(2)]) (use U a in auto)
    moreover have "post (do { w \<leftarrow> ngx_nats_connection_init e (upd_conn (\<lambda>c. c\<lparr>nc_fd := True\<rparr>) (trying ?v));
        w \<leftarrow> ngx_nats_flush cb recon e w; Some (NGX_OK, w) }) ?Q"
      by (rule post_weaken [OF first_flush_result [OF e w 2(2) refl refl recon]]) (use 2(2) in auto)
    ultimately show ?thesis
      unfolding connect_loop_more [OF 2(1) al [rule_format] v(2,3)] Let_def
      using rc [of "w_tick ?v + 1"] U 2(2) by (intro post_if post_Some) auto
  qed
qed

lemma connect_post:
  assumes e: "env_ok e" and al: "\<forall>t. e_alloc e t"
  shows "world_ok e w \<Longrightarrow> nat (int (e_servers e) - w_curr w) \<le> k \<Longrightarrow>
     post (connect_fuel cb e k w) (connect_result e w)"
proof (induction k arbitrary: w)
  case 0
  then show ?case by (simp add: world_ok_def)
next
  case (Suc k)
  let ?r = "ngx_nats_process_reconnect (connect_fuel cb e k)"
  have fuel: "nat (int (e_servers e) - w_curr v) \<le> k" if "w_curr v = w_curr w + 1" "world_ok e v" for v
    using Suc.prems(2) that by (auto simp: world_ok_def)
  have recon: "post (?r v) (connect_result e v)" if v: "world_ok e v" "w_curr v = w_curr w + 1" for v
  proof -
    let ?v = "v\<lparr>w_rec_timer := False\<rparr>"
    have ok: "world_ok e ?v" "w_curr ?v = w_curr w + 1" using v by (simp_all add: world_ok_def)
    have "post (?r v) (connect_result e ?v)"
      using Suc.IH [OF ok(1) fuel [OF ok(2,1)]] by (simp add: ngx_nats_process_reconnect_def)
    then show ?thesis by (rule post_weaken) (auto simp: connect_result_def)
  qed
  have loop: "post (ngx_nats_connect_loop cb ?r e w) (\<lambda>(rc, w').
     if rc = NGX_AGAIN then world_ok e w' \<and> w_curr w' = w_curr w + 1 \<and> w_curr w' < int (e_servers e)
       \<and> w_log w' = w_log w @ [Attempt (nat (w_curr w'))] \<and> w_clients w' = w_clients w
     else connect_result e w w')"
    by (rule connect_loop_post [OF e al Suc.prems(1)]) (use recon in blast)
  have c: "- 1 \<le> w_curr w" using Suc.prems(1) by (simp add: world_ok_def)
  have again: "post (connect_fuel cb e k v) (connect_result e w)"
    if v: "world_ok e v" "w_curr v = w_curr w + 1" "w_curr v < int (e_servers e)"
      "w_log v = w_log w @ [Attempt (nat (w_curr v))]" "w_clients v = w_clients w" for v
    by (rule post_weaken [OF Suc.IH [OF v(1) fuel [OF v(2,1)]]],
        rule connect_result_Cons [OF quiet_refl v(4,5,2) c v(3)]) simp_all
  show ?case
    unfolding connect_fuel.simps
    by (rule post_bind [OF loop]) (use again in \<open>auto simp: post_def split: if_splits\<close>)
qed

section \<open>Fuel\<close>

lemma each_client_ext [ext_intros]:
  "(\<And>c w. opt_le (f c w) (g c w)) \<Longrightarrow> opt_le (each_client f cs w) (each_client g cs w)"
  by (induction cs arbitrary: w) (auto intro!: ext_intros)

lemma close_ext [ext_intros]:
  "(\<And>w. opt_le (r w) (r' w)) \<Longrightarrow>
     opt_le (ngx_nats_close_connection cb r reason k w) (ngx_nats_close_connection cb r' reason k w)"
  unfolding ngx_nats_close_connection_def by (intro ext_intros) auto

lemma flush_ext [ext_intros]:
  "(\<And>w. opt_le (r w) (r' w)) \<Longrightarrow> opt_le (ngx_nats_flush cb r e w) (ngx_nats_flush cb r' e w)"
  unfolding ngx_nats_flush_def by (intro ext_intros) auto

lemma opt_le_sum [ext_intros]:
  "(\<And>x. opt_le (f x) (f' x)) \<Longrightarrow> (\<And>y. opt_le (g y) (g' y)) \<Longrightarrow>
     opt_le (case r of Inl x \<Rightarrow> f x | Inr y \<Rightarrow> g y) (case r of Inl x \<Rightarrow> f' x | Inr y \<Rightarrow> g' y)"
  by (cases r) auto

lemma connect_loop_ext [ext_intros]:
  "(\<And>w. opt_le (r w) (r' w)) \<Longrightarrow>
     opt_le (ngx_nats_connect_loop cb r e w) (ngx_nats_connect_loop cb r' e w)"
  unfolding ngx_nats_connect_loop_def by (intro ext_intros) auto

lemma connect_fuel_Suc: "opt_le (connect_fuel cb e k w) (connect_fuel cb e (Suc k) w)"
proof (induction k arbitrary: w)
  case 0
  then show ?case by (simp add: opt_le_def)
next
  case (Suc k)
  have "opt_le (ngx_nats_process_reconnect (connect_fuel cb e k) v)
      (ngx_nats_process_reconnect (connect_fuel cb e (Suc k)) v)" for v
    unfolding ngx_nats_process_reconnect_def by (rule Suc.IH)
  with Suc.IH show ?case
    unfolding connect_fuel.simps(2) [of cb e k] connect_fuel.simps(2) [of cb e "Suc k"]
    by (intro ext_intros)
qed

lemma connect_fuel_mono: "k \<le> k' \<Longrightarrow> opt_le (connect_fuel cb e k w) (connect_fuel cb e k' w)"
proof (induction k' rule: dec_induct)
  case base
  show ?case by (rule opt_le_refl)
next
  case (step n)
  then show ?case using connect_fuel_Suc [of cb e n w] unfolding opt_le_def by blast
qed

section \<open>The properties\<close>

lemma connect_ok:
  assumes "env_ok e" and "\<forall>t. e_alloc e t" and "world_ok e w"
  shows "post (ngx_nats_connect cb e w) (connect_result e w)"
proof -
  have "nat (int (e_servers e) - w_curr w) \<le> e_servers e + 1"
    using assms(3) by (auto simp: world_ok_def)
  from connect_post [OF assms this] show ?thesis by (simp add: ngx_nats_connect_def)
qed

text \<open>An environment for the witnesses: \<open>n\<close> servers, each attempt to connect returns \<open>rc\<close>.\<close>

definition try_env :: "nat \<Rightarrow> int \<Rightarrow> env" where
  "try_env n rc = \<lparr>e_servers = n, e_user = ''u'', e_password = ''p'', e_snpf = snprintf, e_ceq = casecmp,
     e_alloc = \<lambda>t. True, e_json_alloc = \<lambda>t i. True, e_connect = \<lambda>t. rc, e_send = \<lambda>t k. int k, e_recv = \<lambda>t k. (NGX_AGAIN, []),
     e_write_event = \<lambda>t. NGX_OK, e_read_event = \<lambda>t. NGX_OK, e_so_error = \<lambda>t. False,
     e_junk = \<lparr>su_client = 0, su_handler = 0, su_data = 0, su_sid = 0, su_max = 0, su_recv = 0\<rparr>\<rparr>"

definition buf_new :: "nat \<Rightarrow> ngx_nats_buf" where
  "buf_new n = \<lparr>b_buf = replicate n None, b_pos = 0, b_end = 0, b_cap = n\<rparr>"

lemma try_env_ok:
  "0 < n \<Longrightarrow> rc \<in> {NGX_OK, NGX_AGAIN, NGX_BUSY, NGX_ERROR, NGX_DECLINED} \<Longrightarrow> env_ok (try_env n rc)"
  by (simp add: env_ok_def try_env_def)

lemma init_world_ok:
  "0 < n \<Longrightarrow> 0 < m \<Longrightarrow> n < 2 ^ 64 \<Longrightarrow> m < 2 ^ 64 \<Longrightarrow> world_ok e (nats_data_init (buf_new n) (buf_new m))"
  by (simp add: world_ok_def nats_data_init_def buf_new_def buf_shape_def)

text \<open>
  C6: connecting always ends well. When allocations succeed, \<open>ngx_nats_connect\<close> returns from every state
  that satisfies the invariant and keeps the invariant; it has tried the servers
  \<open>curr + 1, curr + 2, ..., m - 1\<close> in the listed order, each once, without calling a client back; and it
  ends with an open socket to the last of them, or with the reconnect timer set, and then every
  server up to the end of the list was tried unless nginx failed to register an event. In no case
  is the module left without a connection and without a timer.
\<close>

theorem connect_settles:
  assumes "env_ok e" and "\<forall>t. e_alloc e t" and "world_ok e w"
  shows "\<exists>w' evs m. ngx_nats_connect cb e w = Some w' \<and> world_ok e w' \<and> w_clients w' = w_clients w
    \<and> w_log w' = w_log w @ evs \<and> callbacks evs = []
    \<and> attempts evs = [nat (w_curr w + 1)..<m] \<and> m \<le> e_servers e
    \<and> (connected w' \<and> Suc (nc_server (w_conn w')) = m
       \<or> w_rec_timer w' \<and> (m = e_servers e \<or> (\<exists>t. e_write_event e t \<noteq> NGX_OK)))"
  using connect_ok [OF assms, of cb] by (fastforce simp: post_def connect_result_def)

theorem connect_settles_witness:
  "\<exists>w'. ngx_nats_connect (\<lambda>c. Some) (try_env 3 NGX_DECLINED) (nats_data_init (buf_new 8) (buf_new 8)) = Some w'
     \<and> attempts (w_log w') = [0, 1, 2] \<and> w_rec_timer w'"
proof -
  let ?e = "try_env 3 NGX_DECLINED" and ?w = "nats_data_init (buf_new 8) (buf_new 8)"
  have e: "env_ok ?e" by (rule try_env_ok) simp_all
  have al: "\<forall>t. e_alloc ?e t" and w: "world_ok ?e ?w" by (simp_all add: try_env_def init_world_ok)
  let ?c = "ngx_nats_connect (\<lambda>c. Some) ?e ?w"
  have nc: "\<not> connected (the ?c)" by code_simp
  obtain w' m where "?c = Some w'" "attempts (w_log w') = [0..<m]"
    "connected w' \<or> w_rec_timer w' \<and> (m = 3 \<or> (\<exists>t. e_write_event ?e t \<noteq> NGX_OK))"
    using connect_settles [OF e al w, of "\<lambda>c. Some"]
    by (auto simp: nats_data_init_def try_env_def)
  with nc show ?thesis by (auto simp: try_env_def upt_rec numeral_eq_Suc)
qed

text \<open>
  C11: the recursion between connecting, sending and closing terminates: from every state that satisfies
  the invariant the result is reached within \<open>n + 1\<close> passes of the connect loop for \<open>n\<close> servers, and a
  larger bound on the passes gives the same result.
\<close>

theorem connect_terminates:
  assumes "env_ok e" and "\<forall>t. e_alloc e t" and "world_ok e w" and "e_servers e + 1 \<le> k"
  shows "\<exists>w'. connect_fuel cb e k w = Some w' \<and> ngx_nats_connect cb e w = Some w'"
proof -
  obtain w' where "ngx_nats_connect cb e w = Some w'"
    using connect_ok [OF assms(1-3)] by (auto simp: post_def)
  with connect_fuel_mono [OF assms(4), of cb e w] show ?thesis
    by (auto simp: ngx_nats_connect_def opt_le_def)
qed

theorem connect_terminates_witness:
  "\<exists>w'. connect_fuel (\<lambda>c. Some) (try_env 2 NGX_OK) 50 (nats_data_init (buf_new 8) (buf_new 8)) = Some w'"
proof -
  have "env_ok (try_env 2 NGX_OK)" by (rule try_env_ok) simp_all
  moreover have "\<forall>t. e_alloc (try_env 2 NGX_OK) t" "e_servers (try_env 2 NGX_OK) + 1 \<le> 50"
    by (simp_all add: try_env_def)
  moreover have "world_ok (try_env 2 NGX_OK) (nats_data_init (buf_new 8) (buf_new 8))"
    by (simp add: init_world_ok try_env_def)
  ultimately show ?thesis using connect_terminates by blast
qed

text \<open>
  C35: after a disconnection from server \<open>i\<close> the reconnection tries only the servers after \<open>i\<close> in the list
  before it waits; in particular, when \<open>i\<close> is the last server (for example the only one), it tries
  none and sets the timer. The README says that all listed servers are tried before waiting.
\<close>

theorem reconnect_skips_earlier:
  assumes "env_ok e" and "\<forall>t. e_alloc e t" and "world_ok e w" and "w_curr w = int i"
  shows "\<exists>w' evs. reconnect cb e w = Some w' \<and> w_log w' = w_log w @ evs
    \<and> (\<forall>j. j \<in> set (attempts evs) \<longrightarrow> i < j)
    \<and> (Suc i = e_servers e \<longrightarrow> attempts evs = [] \<and> settled w')"
proof -
  let ?w = "w\<lparr>w_rec_timer := False\<rparr>"
  have "world_ok e ?w" using assms(3) by (simp add: world_ok_def)
  from connect_ok [OF assms(1,2) this, of cb] obtain w' where
    w': "ngx_nats_connect cb e ?w = Some w'" "connect_result e ?w w'" by (rule postE)
  moreover obtain evs m where "w_log w' = w_log w @ evs" "attempts evs = [nat (int i + 1)..<m]" "m \<le> e_servers e"
    using w'(2) assms(4) by (auto simp: connect_result_def)
  moreover have "nat (int i + 1) = Suc i" by simp
  ultimately show ?thesis using connect_result_settled [OF w'(2)]
    by (auto simp: reconnect_def ngx_nats_process_reconnect_def)
qed

theorem reconnect_skips_earlier_witness:
  "\<exists>w'. reconnect (\<lambda>c. Some) (try_env 1 NGX_OK)
       ((nats_data_init (buf_new 8) (buf_new 8))\<lparr>w_curr := 0\<rparr>) = Some w' \<and> attempts (w_log w') = []"
proof -
  let ?e = "try_env 1 NGX_OK" and ?w = "(nats_data_init (buf_new 8) (buf_new 8))\<lparr>w_curr := 0\<rparr>"
  have e: "env_ok ?e" by (rule try_env_ok) simp_all
  have al: "\<forall>t. e_alloc ?e t" by (simp add: try_env_def)
  have w: "world_ok ?e ?w"
    using init_world_ok [of 8 8 ?e] by (simp add: world_ok_def nats_data_init_def try_env_def)
  have c: "w_curr ?w = int 0" by simp
  have n: "Suc 0 = e_servers ?e" and l: "w_log ?w = []" by (simp_all add: try_env_def nats_data_init_def)
  obtain w' evs where "reconnect (\<lambda>c. Some) ?e ?w = Some w'" "w_log w' = w_log ?w @ evs"
    "Suc 0 = e_servers ?e \<longrightarrow> attempts evs = [] \<and> settled w'"
    using reconnect_skips_earlier [OF e al w c, of "\<lambda>c. Some"] by blast
  with n l show ?thesis by simp
qed

text \<open>
  When the connection structure cannot be allocated, connecting is given up for good. From a state
  with no connection and no timer, in which there is a server left to try, \<open>ngx_nats_connect\<close> returns
  with no connection and no timer set, so that nothing will ever call it again.
\<close>

theorem connect_gives_up:
  assumes "world_ok e w" and "w_curr w + 1 < int (e_servers e)" and "\<not> e_alloc e (w_tick w)"
    and "\<not> settled w" and "\<not> w_live w"
  shows "\<exists>w'. ngx_nats_connect cb e w = Some w' \<and> \<not> settled w' \<and> w_log w' = w_log w"
proof -
  have n: "0 < e_servers e" using assms(1,2) by (auto simp: world_ok_def)
  show ?thesis
  proof (cases rule: next_server_cases [OF assms(1) n])
    case 1
    with assms(2) show ?thesis by simp
  next
    case (2 k)
    let ?w = "tick (w\<lparr>w_curr := w_curr w + 1, w_nconnects := k, w_rbuf := ngx_nats_buf_reset (w_rbuf w),
      w_wbuf := ngx_nats_buf_reset (w_wbuf w)\<rparr>)"
    have "ngx_nats_connect_loop cb r e w = Some (NGX_ERROR, ?w)" for r
      using 2(1) assms(3) by (simp add: ngx_nats_connect_loop_def Let_def)
    then have "ngx_nats_connect cb e w = Some ?w" by (simp add: ngx_nats_connect_def)
    then show ?thesis using assms(4,5) by (simp add: settled_def connected_def tick_def)
  qed
qed

theorem connect_gives_up_witness:
  "\<exists>w'. ngx_nats_connect (\<lambda>c. Some) ((try_env 1 NGX_OK)\<lparr>e_alloc := \<lambda>t. False\<rparr>)
       (nats_data_init (buf_new 8) (buf_new 8)) = Some w' \<and> \<not> settled w'"
proof -
  let ?e = "(try_env 1 NGX_OK)\<lparr>e_alloc := \<lambda>t. False\<rparr>" and ?w = "nats_data_init (buf_new 8) (buf_new 8)"
  have "world_ok ?e ?w" by (simp add: init_world_ok)
  moreover have "w_curr ?w + 1 < int (e_servers ?e)" "\<not> e_alloc ?e (w_tick ?w)" "\<not> settled ?w" "\<not> w_live ?w"
    by (simp_all add: try_env_def nats_data_init_def settled_def connected_def)
  ultimately show ?thesis using connect_gives_up by blast
qed

section \<open>The CONNECT message\<close>

text \<open>The text the protocol asks for: CONNECT with its options, then PING.\<close>

definition connect_text :: "bytes \<Rightarrow> bytes \<Rightarrow> bytes" where
  "connect_text user password = render_all (connect_pieces user password)"

lemma length_connect_text: "length (connect_text u p) = 87 + length u + length p"
  by (simp add: connect_text_def render_all_def connect_pieces_def)

lemma add_message_room:
  assumes "buf_wf b" and "b_end b + length xs \<le> b_cap b" and "xs \<noteq> []" and "b_pos b = 0"
  shows "\<exists>b'. ngx_nats_add_message ok b xs (length xs) = Some (NGX_OK, b') \<and> contents b' = contents b @ xs"
proof -
  have "length xs \<le> usub (b_cap b) (b_end b)" using assms(2) buf_wfD(2) [OF assms(1)] by simp
  then have "ngx_nats_buf_ensure ok b (length xs) 1 = Some (NGX_OK, b)"
    using assms(4) by (simp add: ngx_nats_buf_ensure_def Let_def)
  with put_at_end [OF assms(1,2)] assms(3) show ?thesis
    by (auto simp: ngx_nats_add_message_def mem_get_def)
qed

text \<open>
  C32: the CONNECT message is never truncated. The configuration accepts a user and a password of together
  at most 512 bytes (\<open>NGX_NATS_MAS_USER_PASS_LEN\<close>); then the text fits the local buffer of 640 bytes,
  and on a new connection, whose write buffer is empty and has its initial size or more, exactly that
  text is queued for sending, whatever the allocator does.
\<close>

theorem connect_text_complete:
  assumes "snprintf_ok (e_snpf e)" and "length (e_user e) + length (e_password e) \<le> 512"
    and "nc_state (w_conn w) = 0" and "w_wbuf w = ngx_nats_buf_reset b" and "buf_shape b" and "640 \<le> b_cap b"
  shows "\<exists>w'. ngx_nats_connection_init e w = Some w'
    \<and> contents (w_wbuf w') = connect_text (e_user e) (e_password e)
    \<and> nc_state (w_conn w') = NGX_NATS_STATE_CONNECT_SENT"
proof -
  let ?t = "connect_text (e_user e) (e_password e)"
  have len: "length ?t \<le> 640" using assms(2) by (simp add: length_connect_text)
  then have s: "e_snpf e (512 + 128) (connect_pieces (e_user e) (e_password e)) = ?t"
    using assms(1) by (simp add: snprintf_ok_def connect_text_def)
  have "?t \<noteq> []" using length_connect_text [of "e_user e" "e_password e"] by auto
  then obtain b' where b': "ngx_nats_add_message (e_alloc e (w_tick w)) (w_wbuf w) ?t (length ?t) = Some (NGX_OK, b')"
    "contents b' = ?t"
    using add_message_room [of "w_wbuf w" ?t "e_alloc e (w_tick w)"] reset_shape_wf [OF assms(5)] assms(4,6) len by auto
  show ?thesis
    unfolding ngx_nats_connection_init_def Let_def s using b' assms(3)
    by (simp add: add_message_def world_defs)
qed

theorem connect_text_complete_witness:
  "\<exists>w'. ngx_nats_connection_init (try_env 1 NGX_OK)
       (nats_data_init (buf_new 4096) (ngx_nats_buf_reset (buf_new 4096))) = Some w'
     \<and> contents (w_wbuf w') = connect_text ''u'' ''p''"
proof -
  let ?e = "try_env 1 NGX_OK" and ?w = "nats_data_init (buf_new 4096) (ngx_nats_buf_reset (buf_new 4096))"
  have "snprintf_ok (e_snpf ?e)" "length (e_user ?e) + length (e_password ?e) \<le> 512" "nc_state (w_conn ?w) = 0"
    "w_wbuf ?w = ngx_nats_buf_reset (buf_new 4096)" "buf_shape (buf_new 4096)" "640 \<le> b_cap (buf_new 4096)"
    by (simp_all add: try_env_def nats_data_init_def conn_zero_def buf_shape_def buf_new_def)
  from connect_text_complete [OF this] show ?thesis by (auto simp: try_env_def)
qed

end
