(* ===== verification/Nats_Client.thy ===== *)
theory Nats_Client
  imports "HOL-Library.Word" Nats_Conn_Live
begin

text \<open>
  The client functions of \<open>ngx_nats_comm.c\<close>: \<open>ngx_nats_add_client\<close>, \<open>ngx_nats_publish\<close>,
  \<open>ngx_nats_subscribe\<close>, \<open>ngx_nats_unsubscribe\<close>. A result is the returned code and the new state. A
  \<open>NULL\<close> string is \<open>None\<close>; \<open>data\<close> of a publish is the memory at the caller's pointer.

  A client module is a program that answers a callback with calls of these functions
  (\<open>client_cb\<close>). The functions call back themselves, through a close, so a bound on the nesting
  depth is part of the definition; a deeper nesting is the value \<open>None\<close>.
\<close>

section \<open>The functions\<close>

definition ngx_nats_add_client ::
  "(callback \<Rightarrow> step) \<Rightarrow> env \<Rightarrow> ngx_nats_client \<Rightarrow> world \<Rightarrow> (int \<times> world) option" where
  "ngx_nats_add_client cb e client w0 =
     (if \<not> w_global w0 then Some (NGX_ABORT, w0)
      else let ok = e_alloc e (w_tick w0); w = tick w0 in
      if \<not> ok then Some (NGX_ERROR, w)
      else let w = w\<lparr>w_clients := w_clients w @ [client]\<rparr> in
      if \<not> w_live w then Some (NGX_OK, w)
      else if nc_state (w_conn w) \<noteq> NGX_NATS_STATE_READY then Some (NGX_OK, w)
      else do { w \<leftarrow> call cb (Connected (cl_id client)) w; Some (NGX_OK, w) })"

definition pub_pieces :: "bytes \<Rightarrow> bytes option \<Rightarrow> nat \<Rightarrow> piece list" where
  "pub_pieces subject replyto len =
     (case replyto of
        Some r \<Rightarrow> [Lit ''PUB '', V subject, Lit '' '', V r, Lit '' '', UI len, Lit [CR, LF]]
      | None \<Rightarrow> [Lit ''PUB '', V subject, Lit '' '', UI len, Lit [CR, LF]])"

text \<open>The three messages that \<open>ngx_nats_publish\<close> appends, up to the first failure.\<close>

definition pub_messages :: "env \<Rightarrow> bytes \<Rightarrow> bytes \<Rightarrow> nat \<Rightarrow> world \<Rightarrow> (int \<times> world) option" where
  "pub_messages e header data len w =
     do { (rc, w) \<leftarrow> add_message e header (length header) w;
          if rc \<noteq> NGX_OK then Some (rc, w)
          else do {
            (rc, w) \<leftarrow> add_message e data len w;
            if rc \<noteq> NGX_OK then Some (rc, w)
            else add_message e [CR, LF] 2 w } }"

definition ngx_nats_publish ::
  "(callback \<Rightarrow> step) \<Rightarrow> env \<Rightarrow> bytes option \<Rightarrow> bytes option \<Rightarrow> bytes \<Rightarrow> nat \<Rightarrow> world
     \<Rightarrow> (int \<times> world) option" where
  "ngx_nats_publish cb e subject replyto data len w =
     (if \<not> w_global w then Some (NGX_ABORT, w)
      else if \<not> w_live w then Some (NGX_ERROR, w)
      else if nc_state (w_conn w) \<noteq> NGX_NATS_STATE_READY then Some (NGX_ERROR, w)
      else case subject of None \<Rightarrow> Some (NGX_ERROR, w)
      | Some s \<Rightarrow>
        if length s + (case replyto of Some r \<Rightarrow> length r | None \<Rightarrow> 0) > 512 then Some (NGX_DECLINED, w)
        else do {
          (rc, w) \<leftarrow> pub_messages e (e_snpf e (512 + 64) (pub_pieces s replyto len)) data len w;
          if rc \<noteq> NGX_OK then Some (rc, w)
          else do { w \<leftarrow> flush cb e w; Some (NGX_OK, w) } })"

definition sub_pieces :: "bytes \<Rightarrow> int \<Rightarrow> piece list" where
  "sub_pieces subject sid = [Lit ''SUB '', V subject, Lit '' '', UI (u64 sid), Lit [CR, LF]]"

definition unsub_max_pieces :: "int \<Rightarrow> int \<Rightarrow> piece list" where
  "unsub_max_pieces sid lim = [Lit ''UNSUB '', UI (u64 sid), Lit '' '', UI (u64 lim), Lit [CR, LF]]"

definition unsub_pieces :: "int \<Rightarrow> piece list" where
  "unsub_pieces sid = [Lit ''UNSUB '', UI (u64 sid), Lit [CR, LF]]"

text \<open>\<open>ngx_snprintf\<close> into the local array \<open>header[512+64]\<close>, then \<open>ngx_nats_add_message\<close>.\<close>

definition add_header :: "env \<Rightarrow> piece list \<Rightarrow> world \<Rightarrow> (int \<times> world) option" where
  "add_header e ps w = (let header = e_snpf e (512 + 64) ps in add_message e header (length header) w)"

definition ngx_nats_subscribe ::
  "(callback \<Rightarrow> step) \<Rightarrow> env \<Rightarrow> nat \<Rightarrow> bytes \<Rightarrow> int \<Rightarrow> nat \<Rightarrow> nat \<Rightarrow> world \<Rightarrow> (int \<times> world) option" where
  "ngx_nats_subscribe cb e client subject lim handler data w0 =
     (if \<not> w_global w0 then Some (NGX_ABORT, w0)
      else if \<not> w_live w0 then Some (NGX_ERROR, w0)
      else if nc_state (w_conn w0) \<noteq> NGX_NATS_STATE_READY then Some (NGX_ERROR, w0)
      else let sid = s64 (w_next_id w0 + 1); ok = e_alloc e (w_tick w0);
               w = (tick w0)\<lparr>w_next_id := sid\<rparr> in
      case fill_subscription ok (e_junk e) (w_subs w) sid client handler data lim of
        None \<Rightarrow> Some (NGX_ERROR, w)
      | Some ss \<Rightarrow> do {
          (rc, w) \<leftarrow> add_header e (sub_pieces subject sid) (w\<lparr>w_subs := ss\<rparr>);
          if rc \<noteq> NGX_OK then Some (rc, w)
          else do {
            (rc, w) \<leftarrow> (if lim > 0 then add_header e (unsub_max_pieces sid lim) w else Some (NGX_OK, w));
            if rc \<noteq> NGX_OK then Some (rc, w)
            else do { w \<leftarrow> flush cb e w; Some (sid, w) } } })"

definition ngx_nats_unsubscribe ::
  "(callback \<Rightarrow> step) \<Rightarrow> env \<Rightarrow> int \<Rightarrow> world \<Rightarrow> (int \<times> world) option" where
  "ngx_nats_unsubscribe cb e sid w =
     (if sid = 0 then Some (NGX_DECLINED, w)
      else if \<not> w_global w then Some (NGX_ABORT, w)
      else if \<not> w_live w then Some (NGX_ERROR, w)
      else if nc_state (w_conn w) \<noteq> NGX_NATS_STATE_READY then Some (NGX_ERROR, w)
      else let (removed, ss) = ngx_nats_remove_subscription (w_subs w) sid; w = w\<lparr>w_subs := ss\<rparr> in
      if removed = 0 then Some (NGX_DECLINED, w)
      else do {
        (rc, w) \<leftarrow> add_header e (unsub_pieces sid) w;
        if rc \<noteq> NGX_OK then Some (rc, w)
        else do { w \<leftarrow> flush cb e w; Some (NGX_OK, w) } })"

section \<open>Client modules\<close>

datatype client_call =
    AddClient ngx_nats_client
  | Publish "bytes option" "bytes option" bytes nat
  | Subscribe nat bytes int nat nat
  | Unsubscribe int

fun run_call :: "(callback \<Rightarrow> step) \<Rightarrow> env \<Rightarrow> client_call \<Rightarrow> world \<Rightarrow> (int \<times> world) option" where
  "run_call cb e (AddClient client) w = ngx_nats_add_client cb e client w"
| "run_call cb e (Publish subject replyto data len) w = ngx_nats_publish cb e subject replyto data len w"
| "run_call cb e (Subscribe client subject lim handler data) w =
     ngx_nats_subscribe cb e client subject lim handler data w"
| "run_call cb e (Unsubscribe sid) w = ngx_nats_unsubscribe cb e sid w"

fun run_calls :: "(callback \<Rightarrow> step) \<Rightarrow> env \<Rightarrow> client_call list \<Rightarrow> step" where
  "run_calls cb e [] w = Some w"
| "run_calls cb e (c # cs) w = do { (rc, w) \<leftarrow> run_call cb e c w; run_calls cb e cs w }"

text \<open>\<open>prog c w\<close>: the calls the clients make when they are called back with \<open>c\<close> in state \<open>w\<close>.\<close>

fun client_cb :: "(callback \<Rightarrow> world \<Rightarrow> client_call list) \<Rightarrow> env \<Rightarrow> nat \<Rightarrow> callback \<Rightarrow> step" where
  "client_cb prog e 0 c w = None"
| "client_cb prog e (Suc k) c w = run_calls (client_cb prog e k) e (prog c w) w"

end
