(* ===== verification/Nats_Read.thy ===== *)
theory Nats_Read
  imports "HOL-Library.Word" Nats_Json Nats_Conn_Live
begin

text \<open>
  The read path of \<open>ngx_nats_comm.c\<close>: from the bytes the socket delivers to the messages and what they
  do (\<open>ngx_nats_connection_ready\<close>, \<open>ngx_nats_parse_info\<close>, \<open>ngx_nats_process_msg\<close>,
  \<open>_nats_process_buffer_msg\<close>, \<open>ngx_nats_process_buffer\<close>, \<open>ngx_nats_read_from_nats\<close>) and the event
  handlers. \<open>None\<close> is an access outside the memory, the use of a \<open>NULL\<close> pointer or of an
  uninitialised byte, or a loop that does not end.
\<close>

section \<open>INFO and the handshake\<close>

text \<open>
  The text logged when the connection is ready contains \<open>*nc->srv_version\<close>, which is \<open>NULL\<close> until an
  INFO message with a version was received.
\<close>

definition ngx_nats_connection_ready :: "(callback \<Rightarrow> step) \<Rightarrow> step" where
  "ngx_nats_connection_ready cb w0 =
     (let w = w0\<lparr>w_err_reported := False\<rparr> in
      if srv_version (w_conn w) = None then None
      else each_client (\<lambda>c. call cb (Connected (cl_id c))) (w_clients w) w)"

text \<open>One field of the INFO object; \<open>None\<close> is the return of \<open>NGX_ERROR\<close>. Other names are ignored.\<close>

definition info_field ::
  "(bytes \<Rightarrow> bytes \<Rightarrow> bool) \<Rightarrow> bytes \<Rightarrow> json \<Rightarrow> ngx_nats_connection \<Rightarrow> ngx_nats_connection option" where
  "info_field ceq name v c =
     (if ceq name ''server_id'' then (case v of JString s \<Rightarrow> Some (c\<lparr>srv_id := Some s\<rparr>) | _ \<Rightarrow> None)
      else if ceq name ''host'' then (case v of JString s \<Rightarrow> Some (c\<lparr>srv_host := Some s\<rparr>) | _ \<Rightarrow> None)
      else if ceq name ''port'' then (case v of JInt i \<Rightarrow> Some (c\<lparr>srv_port := i\<rparr>) | _ \<Rightarrow> None)
      else if ceq name ''version'' then (case v of JString s \<Rightarrow> Some (c\<lparr>srv_version := Some s\<rparr>) | _ \<Rightarrow> None)
      else if ceq name ''auth_required'' then (case v of JBool b \<Rightarrow> Some (c\<lparr>srv_auth_required := b\<rparr>) | _ \<Rightarrow> None)
      else if ceq name ''ssl_required'' then (case v of JBool b \<Rightarrow> Some (c\<lparr>srv_ssl_required := b\<rparr>) | _ \<Rightarrow> None)
      else if ceq name ''max_payload'' then (case v of JInt i \<Rightarrow> Some (c\<lparr>srv_max_payload := i\<rparr>) | _ \<Rightarrow> None)
      else if ceq name ''go'' then (case v of JString s \<Rightarrow> Some (c\<lparr>go_version := Some s\<rparr>) | _ \<Rightarrow> None)
      else Some c)"

fun info_fields ::
  "(bytes \<Rightarrow> bytes \<Rightarrow> bool) \<Rightarrow> (bytes \<times> json) list \<Rightarrow> ngx_nats_connection \<Rightarrow> int \<times> ngx_nats_connection" where
  "info_fields ceq [] c = (NGX_OK, c)"
| "info_fields ceq ((name, v) # fs) c =
     (case info_field ceq (cstr name) v c of
        None \<Rightarrow> (NGX_ERROR, c)
      | Some c' \<Rightarrow> info_fields ceq fs c')"

text \<open>\<open>ngx_nats_parse_info\<close> of \<open>ngx_nats_comm.c\<close> on the text of the INFO message.\<close>

definition parse_info_json :: "env \<Rightarrow> bytes \<Rightarrow> world \<Rightarrow> (int \<times> world) option" where
  "parse_info_json e msg_str w0 =
     do { (rc, json) \<leftarrow> ngx_nats_json_parse (e_ceq e) (e_json_alloc e (w_tick w0)) 0 msg_str;
          let w = tick w0;
          if rc < 0 then Some (NGX_ERROR, w)
          else case json of
            Some (JObject fs) \<Rightarrow>
              (let (rc, c) = info_fields (e_ceq e) fs (w_conn w) in Some (rc, w\<lparr>w_conn := c\<rparr>))
          | _ \<Rightarrow> Some (NGX_ERROR, w) }"

section \<open>Messages\<close>

text \<open>The bytes of a string of the message; \<open>None\<close> when it does not lie in the input.\<close>

definition str_bytes :: "bytes \<Rightarrow> ngx_str \<Rightarrow> bytes option" where
  "str_bytes s x = mem_get s (s_off x) (s_len x)"

definition ngx_nats_process_msg :: "(callback \<Rightarrow> step) \<Rightarrow> env \<Rightarrow> bytes \<Rightarrow> ngx_nats_msg \<Rightarrow> step" where
  "ngx_nats_process_msg cb e s msg w0 =
     (case ngx_nats_get_subscription (w_subs w0) (m_sid msg) of
        None \<Rightarrow> Some w0
      | Some i \<Rightarrow>
        let sub = w_subs w0 ! i;
            w = w0\<lparr>w_subs := count_delivery (w_subs w0) i\<rparr>;
            ok1 = e_alloc e (w_tick w); w = tick w in
        if \<not> ok1 then Some w
        else let ok2 = e_alloc e (w_tick w); w = tick w in
        if \<not> ok2 then Some w
        else do {
          subject \<leftarrow> str_bytes s (m_subject msg);
          r \<leftarrow> (if s_len (m_replyto msg) > 0 then map_option Some (str_bytes s (m_replyto msg)) else Some None);
          data \<leftarrow> mem_get s (m_bstart msg) (usub (m_bend msg) (m_bstart msg));
          call cb (HandleMsg (su_handler sub)
                     \<lparr>mg_client = su_client sub, mg_sid = m_sid msg, mg_subject = subject, mg_replyto = r,
                      mg_data = data, mg_sub_data = su_data sub\<rparr>) w })"

text \<open>The bytes between \<open>pos\<close> and \<open>end\<close>; \<open>None\<close> when they are not all inside the memory and written.\<close>

definition readable :: "ngx_nats_buf \<Rightarrow> bytes option" where
  "readable b = do { xs \<leftarrow> mem_get (b_buf b) (b_pos b) (usub (b_end b) (b_pos b));
                     if None \<in> set xs then None else Some (map the xs) }"

text \<open>The input is incomplete: the buffer is compacted and grown when it is full.\<close>

definition incomplete_msg :: "(callback \<Rightarrow> step) \<Rightarrow> env \<Rightarrow> world \<Rightarrow> (int \<times> world) option" where
  "incomplete_msg cb e w0 =
     do { b \<leftarrow> ngx_nats_buf_compact (w_rbuf w0);
          let w = w0\<lparr>w_rbuf := b\<rparr>;
          if b_end b \<ge> usub (b_cap b) 1
          then if srv_max_payload (w_conn w) > 0 \<and> b_cap b \<ge> u64 (srv_max_payload (w_conn w))
                    \<or> b_cap b \<ge> NGX_NATS_MAX_MESSAGE_SIZE
               then do { w \<leftarrow> close_connection cb e NGX_NATS_REASON_BAD_PROTOCOL 1 w; Some (NGX_ERROR, w) }
               else do {
                 (rc, b) \<leftarrow> ngx_nats_buf_ensure (e_alloc e (w_tick w)) b (usub (b_cap b) 1) 0;
                 let w = (tick w)\<lparr>w_rbuf := b\<rparr>;
                 if rc \<noteq> NGX_OK
                 then do { w \<leftarrow> close_connection cb e NGX_NATS_REASON_NO_MEMORY 1 w; Some (NGX_ERROR, w) }
                 else Some (NGX_OK, w) }
          else Some (NGX_OK, w) }"

definition close_bad :: "(callback \<Rightarrow> step) \<Rightarrow> env \<Rightarrow> world \<Rightarrow> (int \<times> world) option" where
  "close_bad cb e w = do { w \<leftarrow> close_connection cb e NGX_NATS_REASON_BAD_PROTOCOL 1 w; Some (NGX_ERROR, w) }"

definition connect_pending :: "ngx_nats_connection \<Rightarrow> bool" where
  "connect_pending c \<longleftrightarrow> nc_state c AND NGX_NATS_STATE_CONNECT_SENT \<noteq> 0
     \<and> nc_state c AND NGX_NATS_STATE_CONNECT_OKAYED = 0"

text \<open>What a complete message does; \<open>skip\<close> is its length, \<open>s\<close> the input after it was parsed.\<close>

definition handle_message ::
  "(callback \<Rightarrow> step) \<Rightarrow> env \<Rightarrow> int \<Rightarrow> ngx_nats_msg \<Rightarrow> bytes \<Rightarrow> world \<Rightarrow> (int \<times> world) option" where
  "handle_message cb e skip msg s w =
     (if m_type msg = NGX_NATS_MSG_OK then Some (skip, w)
      else if m_type msg = NGX_NATS_MSG_ERR then
        (if connect_pending (w_conn w)
         then do { w \<leftarrow> close_connection cb e NGX_NATS_REASON_CONNECT_REFUSED 1 w; Some (NGX_ERROR, w) }
         else Some (skip, w))
      else if m_type msg = NGX_NATS_MSG_PING then
        do { (rc, w) \<leftarrow> add_message e (''PONG'' @ [CR, LF]) 6 w; Some (skip, w) }
      else if m_type msg = NGX_NATS_MSG_PONG then
        (if nc_state (w_conn w) AND NGX_NATS_STATE_CONNECT_OKAYED = 0
         then do { w \<leftarrow> ngx_nats_connection_ready cb (upd_conn (\<lambda>c. c\<lparr>nc_state := NGX_NATS_STATE_READY\<rparr>) w);
                   Some (skip, w) }
         else Some (skip, w))
      else if m_type msg = NGX_NATS_MSG_INFO then
        (if m_bstart msg \<ge> m_bend msg then close_bad cb e w
         else do { msg_str \<leftarrow> mem_get s (m_bstart msg) (m_bend msg - m_bstart msg);
                   (rc, w) \<leftarrow> parse_info_json e msg_str w;
                   if rc \<noteq> NGX_OK then close_bad cb e w else Some (skip, w) })
      else if m_type msg = NGX_NATS_MSG_MSG then
        do { w \<leftarrow> ngx_nats_process_msg cb e s msg w; Some (skip, w) }
      else close_bad cb e w)"

text \<open>\<open>_nats_process_buffer_msg\<close>; the parser works on the buffer's memory, which it may change.\<close>

definition nats_process_buffer_msg :: "(callback \<Rightarrow> step) \<Rightarrow> env \<Rightarrow> world \<Rightarrow> (int \<times> world) option" where
  "nats_process_buffer_msg cb e w0 =
     (let b = w_rbuf w0 in
      if b_pos b = b_end b
      then do { b \<leftarrow> ngx_nats_buf_compact b; Some (NGX_OK, w0\<lparr>w_rbuf := b\<rparr>) }
      else do {
        bytes \<leftarrow> readable b;
        (rc, msg, s) \<leftarrow> ngx_nats_parse (e_ceq e) bytes;
        m \<leftarrow> mem_put (b_buf b) (b_pos b) (map Some s);
        let w = w0\<lparr>w_rbuf := b\<lparr>b_buf := m\<rparr>\<rparr>;
        if rc \<le> 0
        then if rc = NGX_NATS_PROTO_AGAIN then incomplete_msg cb e w else close_bad cb e w
        else handle_message cb e rc msg s w })"

text \<open>\<open>buf->pos += rc\<close>.\<close>

definition skip_message :: "int \<Rightarrow> world \<Rightarrow> world" where
  "skip_message rc w = w\<lparr>w_rbuf := (w_rbuf w)\<lparr>b_pos := (b_pos (w_rbuf w) + nat rc) mod 2 ^ 64\<rparr>\<rparr>"

partial_function (option) ngx_nats_process_buffer ::
  "(callback \<Rightarrow> step) \<Rightarrow> env \<Rightarrow> world \<Rightarrow> (int \<times> world) option" where
  "ngx_nats_process_buffer cb e w =
     do { (rc, w) \<leftarrow> nats_process_buffer_msg cb e w;
          if rc \<le> 0 then Some (rc, w)
          else ngx_nats_process_buffer cb e (skip_message rc w) }"

section \<open>Reading\<close>

text \<open>The result of the loop: \<open>True\<close> when it ended with \<open>break\<close>, \<open>False\<close> when it closed and returned.\<close>

partial_function (option) read_loop :: "(callback \<Rightarrow> step) \<Rightarrow> env \<Rightarrow> world \<Rightarrow> (bool \<times> world) option" where
  "read_loop cb e w0 =
     (let b = w_rbuf w0; (n, xs) = e_recv e (w_tick w0) (usub (usub (b_cap b) (b_end b)) 1); w = tick w0 in
      if n = NGX_AGAIN
      then (let rc = e_read_event e (w_tick w); w = tick w in
            if rc \<noteq> NGX_OK
            then do { w \<leftarrow> close_connection cb e NGX_NATS_REASON_INTERNAL_ERROR 1 w; Some (False, w) }
            else Some (True, w))
      else if n \<le> 0
      then do { w \<leftarrow> close_connection cb e NGX_NATS_REASON_DISCONNECTED 1 w; Some (False, w) }
      else do {
        m \<leftarrow> mem_put (b_buf b) (b_end b) (map Some xs);
        let w = ngx_nats_check_connected w;
        (rc, w) \<leftarrow> ngx_nats_process_buffer cb e (w\<lparr>w_rbuf := b\<lparr>b_buf := m, b_end := b_end b + nat n\<rparr>\<rparr>);
        if rc \<noteq> NGX_OK
        then do { w \<leftarrow> close_connection cb e NGX_NATS_REASON_BAD_PROTOCOL 1 w; Some (False, w) }
        else read_loop cb e w })"

definition pending :: "ngx_nats_buf \<Rightarrow> nat" where
  "pending b = usub (b_end b) (b_pos b)"

definition ngx_nats_read_from_nats :: "(callback \<Rightarrow> step) \<Rightarrow> env \<Rightarrow> step" where
  "ngx_nats_read_from_nats cb e w0 =
     (let wlen = pending (w_wbuf w0) in
      do { (go_on, w) \<leftarrow> read_loop cb e w0;
           if go_on \<and> wlen < pending (w_wbuf w) then flush cb e w else Some w })"

section \<open>Event handlers\<close>

definition ngx_nats_write_event_handler :: "(callback \<Rightarrow> step) \<Rightarrow> env \<Rightarrow> bool \<Rightarrow> step" where
  "ngx_nats_write_event_handler cb e timedout w =
     (if timedout then close_connection cb e NGX_NATS_REASON_WRITE_TIMEOUT 1 w
      else do { w \<leftarrow> ngx_nats_connection_init e (upd_conn (\<lambda>c. c\<lparr>nc_wtimer := False\<rparr>) w);
                flush cb e w })"

text \<open>\<open>e_so_error\<close>: \<open>getsockopt\<close> (or the pending end of file of kqueue) reports an error.\<close>

definition ngx_nats_test_connect :: "env \<Rightarrow> world \<Rightarrow> int" where
  "ngx_nats_test_connect e w = (if e_so_error e (w_tick w) then NGX_ERROR else NGX_OK)"

definition ngx_nats_read_event_handler :: "(callback \<Rightarrow> step) \<Rightarrow> env \<Rightarrow> bool \<Rightarrow> step" where
  "ngx_nats_read_event_handler cb e timedout w =
     (if timedout then close_connection cb e NGX_NATS_REASON_READ_TIMEOUT 1 w
      else if ngx_nats_test_connect e w \<noteq> NGX_OK
      then close_connection cb e NGX_NATS_REASON_CONNECT_FAILED 1 (tick w)
      else ngx_nats_read_from_nats cb e (tick w))"

text \<open>\<open>write\<close> and \<open>timedout\<close> are the flags of the event.\<close>

definition ngx_nats_connection_handler :: "(callback \<Rightarrow> step) \<Rightarrow> env \<Rightarrow> bool \<Rightarrow> bool \<Rightarrow> step" where
  "ngx_nats_connection_handler cb e write timedout w =
     (if write then ngx_nats_write_event_handler cb e timedout w
      else ngx_nats_read_event_handler cb e timedout w)"

end
