(* ===== verification/Nats_System.thy ===== *)
theory Nats_System
  imports "HOL-Library.Word" Nats_Client Nats_Read
begin

text \<open>
  The module as a state machine: every handler and every client function keeps the invariant of the
  state (\<open>world_ok\<close>) and never leaves the module without a connection and without a timer
  (\<open>settled\<close>). The locale \<open>client_callbacks\<close> is the contract between the module and the clients it
  calls back; the interpretation \<open>nested\<close> discharges it for all client modules that use the client
  functions, up to any nesting depth. \<open>reachable\<close> are the states of a worker process.
\<close>

section \<open>The contract of callbacks\<close>

text \<open>
  The invariant, in an environment that behaves as nginx documents it and in which allocations succeed.
\<close>

definition inv :: "env \<Rightarrow> world \<Rightarrow> bool" where
  "inv e w \<longleftrightarrow> env_ok e \<and> (\<forall>t. e_alloc e t) \<and> world_ok e w"

definition keeps :: "env \<Rightarrow> world \<Rightarrow> world \<Rightarrow> bool" where
  "keeps e w w' \<longleftrightarrow> inv e w' \<and> (settled w \<longrightarrow> settled w')"

definition good :: "env \<Rightarrow> world \<Rightarrow> bool" where
  "good e w \<longleftrightarrow> inv e w \<and> settled w"

lemma keeps_good: "good e w' \<Longrightarrow> keeps e w w'"
  by (simp add: good_def keeps_def)

lemma keeps_trans: "keeps e a b \<Longrightarrow> keeps e b c \<Longrightarrow> keeps e a c"
  by (simp add: keeps_def)

lemma keeps_world: "keeps e w w' \<Longrightarrow> inv e w'"
  by (simp add: keeps_def)

lemma settled_same [simp]:
  "settled (tick w) = settled w" "settled (emit ev w) = settled w"
  "settled (w\<lparr>w_rbuf := b\<rparr>) = settled w" "settled (w\<lparr>w_wbuf := b\<rparr>) = settled w"
  "settled (w\<lparr>w_subs := ss\<rparr>) = settled w" "settled (w\<lparr>w_next_id := n\<rparr>) = settled w"
  "settled (w\<lparr>w_clients := cs\<rparr>) = settled w" "settled (w\<lparr>w_err_reported := x\<rparr>) = settled w"
  by (simp_all add: settled_def connected_def world_defs)

lemma settled_upd_conn: "nc_fd (f (w_conn w)) = nc_fd (w_conn w) \<Longrightarrow> settled (upd_conn f w) = settled w"
  by (simp add: settled_def connected_def upd_conn_def)

lemma settled_check [simp]: "settled (ngx_nats_check_connected w) = settled w"
  by (simp add: ngx_nats_check_connected_def settled_upd_conn)

lemma world_same [simp]:
  "inv e w \<Longrightarrow> inv e (tick w)" "inv e (emit ev w) = inv e w"
  "inv e (upd_conn f w) = inv e w"
  "inv e (w\<lparr>w_clients := cs\<rparr>) = inv e w" "inv e (w\<lparr>w_err_reported := x\<rparr>) = inv e w"
  by (simp_all add: inv_def world_ok_def world_defs)

lemma world_check [simp]: "inv e (ngx_nats_check_connected w) = inv e w"
  by (simp add: ngx_nats_check_connected_def)

lemma world_wbuf: "inv e w \<Longrightarrow> buf_shape b \<Longrightarrow> inv e (w\<lparr>w_wbuf := b\<rparr>)"
  by (simp add: inv_def world_ok_def)

lemma world_rbuf: "inv e w \<Longrightarrow> buf_shape b \<Longrightarrow> inv e (w\<lparr>w_rbuf := b\<rparr>)"
  by (simp add: inv_def world_ok_def)

lemma world_bufs: "inv e w \<Longrightarrow> buf_shape (w_wbuf w)" "inv e w \<Longrightarrow> buf_shape (w_rbuf w)"
  by (simp_all add: inv_def world_ok_def)

lemma add_message_keeps:
  assumes "inv e w"
  shows "ret (add_message e m sz w) (\<lambda>(rc, w'). keeps e w w' \<and> w_conn w' = w_conn w)"
  unfolding add_message_def
  by (rule ret_bind [OF add_message_shape [OF world_bufs(1) [OF assms]]])
    (use assms in \<open>auto simp: ret_def keeps_def tick_def inv_def world_ok_def settled_def connected_def\<close>)

abbreviation keeps2 :: "env \<Rightarrow> world \<Rightarrow> 'a \<times> world \<Rightarrow> bool" where
  "keeps2 e w \<equiv> \<lambda>(rc, w'). keeps e w w'"

lemma bind2:
  "ret a (keeps2 e w) \<Longrightarrow> (\<And>rc v. keeps e w v \<Longrightarrow> ret (f rc v) Q) \<Longrightarrow> ret (do { (rc, v) \<leftarrow> a; f rc v }) Q"
  by (rule ret_bind [where P = "keeps2 e w"]) auto

lemma ret2: "keeps e w v \<Longrightarrow> ret (Some (rc, v)) (keeps2 e w)"
  by (simp add: ret_Some)

lemma weaken2: "ret a (keeps2 e v) \<Longrightarrow> keeps e w v \<Longrightarrow> ret a (keeps2 e w)"
  by (rule ret_weaken [where P = "keeps2 e v"]) (auto intro: keeps_trans)

lemma add_message_keeps2:
  assumes "inv e w"
  shows "ret (add_message e m sz w) (keeps2 e w)"
  by (rule ret_weaken [OF add_message_keeps [OF assms]]) auto

lemma keeps_same: "inv e w' \<Longrightarrow> settled w' = settled w \<Longrightarrow> keeps e w w'"
  by (simp add: keeps_def)

lemma keeps_refl: "inv e w \<Longrightarrow> keeps e w w"
  by (simp add: keeps_def)

lemma fill_table_ok:
  assumes "table_ok t n ss" and "fill_subscription ok junk ss (s64 (n + 1)) client handler data lim = Some ss'"
  shows "table_ok (Suc t) (s64 (n + 1)) ss'"
proof (cases "Suc t < 2 ^ 63")
  case True
  with assms(1) have n: "0 \<le> n" "n \<le> int t" "subs_wf n ss" by (auto simp: table_ok_def)
  with True have s: "s64 (n + 1) = n + 1" by (intro s64_id) auto
  with fill_wf(1) [OF n(3,1)] assms(2) n show ?thesis by (auto simp: table_ok_def)
qed (simp add: table_ok_def)

lemma skip_table_ok:
  assumes "table_ok t n ss"
  shows "table_ok (Suc t) (s64 (n + 1)) ss"
proof (cases "Suc t < 2 ^ 63")
  case True
  with assms have n: "0 \<le> n" "n \<le> int t" "subs_wf n ss" by (auto simp: table_ok_def)
  with True have "s64 (n + 1) = n + 1" by (intro s64_id) auto
  with n show ?thesis by (fastforce simp: table_ok_def subs_wf_def)
qed (simp add: table_ok_def)

lemma remove_table_ok:
  "table_ok t n ss \<Longrightarrow> table_ok t n (snd (ngx_nats_remove_subscription ss sid))"
  using remove_wf(1) by (simp add: table_ok_def)

locale client_callbacks =
  fixes e :: env and cb :: "callback \<Rightarrow> step"
  assumes cb_keeps: "inv e w \<Longrightarrow> ret (cb c w) (keeps e w)"
begin

lemma call_keeps: "inv e w \<Longrightarrow> ret (call cb c w) (keeps e w)"
  unfolding call_def by (rule ret_weaken [OF cb_keeps]) (auto simp: keeps_def)

lemma each_keeps:
  assumes "\<And>c w. inv e w \<Longrightarrow> ret (f c w) (keeps e w)"
  shows "inv e w \<Longrightarrow> ret (each_client f cs w) (keeps e w)"
proof (induction cs arbitrary: w)
  case Nil
  then show ?case by (simp add: ret_def keeps_def)
next
  case (Cons c cs)
  show ?case
    unfolding each_client.simps
    by (rule ret_bind [OF assms [OF Cons.prems]], rule ret_weaken [OF Cons.IH])
      (auto intro: keeps_world keeps_trans)
qed

lemma reconnect_good:
  assumes "inv e w"
  shows "ret (reconnect cb e w) (good e)"
proof -
  let ?w = "w\<lparr>w_rec_timer := False\<rparr>"
  have e: "env_ok e" "\<forall>t. e_alloc e t" and w: "world_ok e ?w" using assms by (simp_all add: inv_def world_ok_def)
  from connect_ok [OF e w, of cb] have "ret (ngx_nats_connect cb e ?w) (connect_result e ?w)"
    by (rule post_ret)
  then show ?thesis
    unfolding reconnect_def ngx_nats_process_reconnect_def good_def inv_def
    by (rule ret_weaken) (use e in \<open>blast dest: connect_result_settled\<close>)
qed

lemma timer_good: "inv e v \<Longrightarrow> good e (ngx_nats_add_reconnect_timer v)"
  using timer_ok [of e v] by (simp add: inv_def env_ok_def good_def settled_def)

lemma forget_inv: "inv e w \<Longrightarrow> inv e (forget_connection w)"
  by (simp add: inv_def forget_ok)

lemma close_good:
  assumes "inv e w"
  shows "ret (close_connection cb e reason 1 w) (good e)"
proof -
  have w: "inv e (hang_up w)" using assms by (simp add: inv_def)
  have step: "ret (if cl_disconnected c then call cb (Disconnected (cl_id c)) w else Some w) (keeps e w)"
    if "inv e w" for c w
    by (intro vc call_keeps that) (simp add: keeps_def that)
  have each: "ret (each_client (\<lambda>c w. if cl_disconnected c then call cb (Disconnected (cl_id c)) w else Some w) cs v)
      (inv e)" if "inv e v" for cs v
    by (rule ret_weaken [where P = "keeps e v"], rule each_keeps [OF _ that], rule step, assumption)
      (rule keeps_world)
  have "ret (if c then Some v else if d then each_client
      (\<lambda>c w. if cl_disconnected c then call cb (Disconnected (cl_id c)) w else Some w) cs v else Some v)
      (inv e)" if "inv e v" for v c d cs
    using each that by (intro vc) simp_all
  then show ?thesis
    unfolding close_connection_def ngx_nats_close_connection_def Let_def
    by (rule ret_bind) (use w timer_good reconnect_good forget_inv in \<open>auto intro!: ret_Some\<close>)
qed

lemma close_keeps: "inv e w \<Longrightarrow> ret (close_connection cb e reason 1 w) (keeps e v)"
  by (rule ret_weaken [OF close_good]) (simp_all add: keeps_good)

lemma flush_keeps:
  assumes w: "inv e w"
  shows "ret (flush cb e w) (keeps e w)"
proof -
  let ?b = "w_wbuf w"
  let ?slen = "usub (b_end ?b) (b_pos ?b)"
  have sh: "buf_shape ?b" by (rule world_bufs [OF w])
  have n: "e_send e (w_tick w) ?slen \<le> int ?slen" using w by (simp add: inv_def env_ok_def)
  have zero: "buf_shape (?b\<lparr>b_pos := 0, b_end := 0\<rparr>)" using sh by (simp add: buf_shape_def)
  have cl: "ret (ngx_nats_close_connection cb (reconnect cb e) reason 1 v) (keeps e w)" if "inv e v" for v reason
    using close_keeps [OF that] by (simp add: close_connection_def)
  note ok = w world_wbuf [OF w zero] world_wbuf [OF _ sent_shape [OF sh n]]
  show ?thesis
    unfolding flush_def ngx_nats_flush_def Let_def
    by (rule vc, simp add: ret_Some keeps_def ok, rule ret_bind [where P = "\<lambda>_. True"], simp add: ret_def)
      (intro vc cl; simp add: keeps_def settled_upd_conn ok del: usub_le)
qed

lemma flush_world: "inv e w \<Longrightarrow> ret (do { w \<leftarrow> flush cb e w; Some (rc, w) }) (\<lambda>(rc, w'). keeps e w w')"
  by (rule ret_bind [OF flush_keeps]) (simp_all add: ret_Some)

lemma flush_from:
  assumes "keeps e w v"
  shows "ret (do { v \<leftarrow> flush cb e v; Some (rc, v) }) (keeps2 e w)"
  by (rule weaken2 [OF flush_world [OF keeps_world [OF assms]] assms])

lemma add_from: "keeps e w v \<Longrightarrow> ret (add_message e m sz v) (keeps2 e w)"
  by (rule weaken2 [OF add_message_keeps2 [OF keeps_world]])

lemma add_client_keeps:
  assumes "inv e w"
  shows "ret (ngx_nats_add_client cb e client w) (keeps2 e w)"
proof -
  let ?w = "(tick w)\<lparr>w_clients := w_clients (tick w) @ [client]\<rparr>"
  have w: "keeps e w (tick w)" "keeps e w ?w" using assms by (simp_all add: keeps_def)
  have "ret (do { v \<leftarrow> call cb c ?w; Some (NGX_OK, v) }) (keeps2 e w)" for c
    by (rule ret_bind [OF call_keeps [OF keeps_world [OF w(2)]]]) (auto intro!: ret2 keeps_trans [OF w(2)])
  with w keeps_refl [OF assms] show ?thesis
    unfolding ngx_nats_add_client_def Let_def by (intro vc) (simp_all add: ret_Some)
qed

lemma pub_messages_keeps:
  assumes "inv e w"
  shows "ret (pub_messages e header data len w) (keeps2 e w)"
  unfolding pub_messages_def by (intro vc bind2 [OF add_from] ret2 add_from) (use assms in \<open>auto intro: keeps_refl\<close>)

lemma publish_keeps:
  assumes "inv e w"
  shows "ret (ngx_nats_publish cb e subject replyto data len w) (keeps2 e w)"
  unfolding ngx_nats_publish_def
  by (intro vc bind2 [OF pub_messages_keeps] flush_from) (use assms in \<open>auto intro: keeps_refl\<close>)

lemma add_header_from: "keeps e w v \<Longrightarrow> ret (add_header e ps v) (keeps2 e w)"
  unfolding add_header_def Let_def by (rule add_from)

lemma subscribe_keeps:
  assumes "inv e w"
  shows "ret (ngx_nats_subscribe cb e client subject lim handler data w) (keeps2 e w)"
proof -
  let ?v = "(tick w)\<lparr>w_next_id := s64 (w_next_id w + 1)\<rparr>"
  have fail: "keeps e w ?v"
    using assms skip_table_ok by (intro keeps_same) (auto simp: inv_def world_ok_def tick_def settled_def connected_def)
  have fill: "keeps e w (?v\<lparr>w_subs := ss\<rparr>)"
    if "fill_subscription ok j (w_subs ?v) (s64 (w_next_id w + 1)) client handler data lim = Some ss" for ok j ss
    using assms fill_table_ok [OF _ that] by (intro keeps_same) (auto simp: inv_def world_ok_def tick_def settled_def connected_def)
  have unsub: "ret (if lim > 0 then add_header e ps v else Some (NGX_OK, v)) (keeps2 e w)" if "keeps e w v" for ps v
    using that by (intro vc add_header_from ret2)
  show ?thesis
    unfolding ngx_nats_subscribe_def Let_def
    by (intro vc bind2 [OF add_header_from] bind2 [OF unsub] flush_from)
      (use assms fail fill in \<open>auto intro: keeps_refl\<close>)
qed

lemma unsubscribe_keeps:
  assumes "inv e w"
  shows "ret (ngx_nats_unsubscribe cb e sid w) (keeps2 e w)"
proof -
  have rm: "keeps e w (w\<lparr>w_subs := ss\<rparr>)"
    if "ngx_nats_remove_subscription (w_subs w) sid = (r, ss)" for r ss
    using assms remove_table_ok [of "w_tick w" "w_next_id w" "w_subs w" sid] that
    by (intro keeps_same) (auto simp: inv_def world_ok_def)
  show ?thesis
    unfolding ngx_nats_unsubscribe_def Let_def
    by (intro vc bind2 [OF add_header_from] flush_from) (use assms rm in \<open>auto intro: keeps_refl\<close>)
qed

lemma run_call_keeps: "inv e w \<Longrightarrow> ret (run_call cb e c w) (keeps2 e w)"
  by (cases c) (simp_all add: add_client_keeps publish_keeps subscribe_keeps unsubscribe_keeps)

lemma run_calls_keeps: "inv e w \<Longrightarrow> ret (run_calls cb e cs w) (keeps e w)"
proof (induction cs arbitrary: w)
  case (Cons c cs)
  show ?case
    unfolding run_calls.simps
    by (rule bind2 [OF run_call_keeps [OF Cons.prems]], rule ret_weaken [OF Cons.IH])
      (auto intro: keeps_world keeps_trans)
qed (simp add: ret_Some keeps_refl)

end

section \<open>Client modules satisfy the contract\<close>

lemma client_cb_keeps: "inv e w \<Longrightarrow> ret (client_cb prog e k c w) (keeps e w)"
proof (induction k arbitrary: c w)
  case (Suc k)
  have "client_callbacks e (client_cb prog e k)" by unfold_locales (rule Suc.IH)
  from client_callbacks.run_calls_keeps [OF this Suc.prems] show ?case by simp
qed simp

interpretation nested: client_callbacks e "client_cb prog e k" for e prog k
  by unfold_locales (rule client_cb_keeps)

section \<open>The read path\<close>

text \<open>
  After \<open>buf->pos += rc\<close> the buffer is in bounds, or \<open>pos\<close> lies beyond \<open>end\<close> because a callback has
  reset the buffer; in that case the next look at the buffer reads outside its memory.
\<close>

definition overrun :: "ngx_nats_buf \<Rightarrow> bool" where
  "overrun b \<longleftrightarrow> b_end b < b_pos b \<and> length (b_buf b) < 2 ^ 64"

lemma overrun_crash:
  assumes "overrun (w_rbuf w)"
  shows "nats_process_buffer_msg cb e w = None"
proof -
  have "\<not> b_pos (w_rbuf w) + usub (b_end (w_rbuf w)) (b_pos (w_rbuf w)) \<le> length (b_buf (w_rbuf w))"
    using assms by (cases "b_pos (w_rbuf w) \<le> b_end (w_rbuf w) + 2 ^ 64") (auto simp: overrun_def usub_def)
  then have "readable (w_rbuf w) = None" by (simp add: readable_def mem_get_def)
  with assms show ?thesis by (simp add: nats_process_buffer_msg_def overrun_def Let_def)
qed

lemma skip_cases:
  assumes "inv e w"
  shows "keeps e w (skip_message rc w) \<or> overrun (w_rbuf (skip_message rc w))"
proof -
  let ?p = "(b_pos (w_rbuf w) + nat rc) mod 2 ^ 64"
  have s: "settled (skip_message rc w) = settled w" by (simp add: skip_message_def)
  have "buf_shape (w_rbuf w)" using assms by (simp add: inv_def world_ok_def)
  then consider "buf_shape ((w_rbuf w)\<lparr>b_pos := ?p\<rparr>)" | "overrun ((w_rbuf w)\<lparr>b_pos := ?p\<rparr>)"
    by (fastforce simp: buf_shape_def overrun_def)
  then show ?thesis
    using assms s by cases (auto simp: keeps_def inv_def world_ok_def skip_message_def)
qed

lemma deliver_table_ok:
  assumes "table_ok t n ss" and "i < length ss"
  shows "table_ok t n (count_delivery ss i)"
proof -
  let ?s = "(ss ! i)\<lparr>su_recv := s64 (su_recv (ss ! i) + 1)\<rparr>"
  have "table_ok t n (ss[i := ?s])"
  proof (cases "t < 2 ^ 63")
    case True
    with assms have wf: "subs_wf n ss" "0 \<le> su_sid (ss ! i)" "su_sid (ss ! i) \<le> n"
      by (auto simp: table_ok_def subs_wf_def)
    have "su_sid ?s = 0 \<or> (\<forall>j < length ss. j \<noteq> i \<longrightarrow> su_sid (ss ! j) \<noteq> su_sid ?s)"
      using wf(1) assms(2) by (auto simp: subs_wf_def)
    with subs_wf_update [OF wf(1) assms(2) order_refl, of ?s] wf assms(1) show ?thesis
      by (simp add: table_ok_def)
  qed (simp add: table_ok_def)
  with assms(1) remove_table_ok show ?thesis by (simp add: count_delivery_def Let_def)
qed

lemma process_msg_count:
  assumes "inv e w" and "ngx_nats_get_subscription (w_subs w) sid = Some i"
  shows "keeps e w (w\<lparr>w_subs := count_delivery (w_subs w) i\<rparr>)"
  using assms deliver_table_ok [of "w_tick w" "w_next_id w" "w_subs w" i] find_sid_Some [of sid "w_subs w" i]
  by (intro keeps_same) (auto simp: inv_def world_ok_def ngx_nats_get_subscription_def)

lemma upd_conn_keeps:
  "inv e w \<Longrightarrow> nc_fd (f (w_conn w)) = nc_fd (w_conn w) \<Longrightarrow> keeps e w (upd_conn f w)"
  by (intro keeps_same) (simp_all add: settled_upd_conn)

lemma set_conn_keeps:
  "inv e w \<Longrightarrow> nc_fd c = nc_fd (w_conn w) \<Longrightarrow> keeps e w (w\<lparr>w_conn := c\<rparr>)"
  using upd_conn_keeps [of e w "\<lambda>_. c"] by (simp add: upd_conn_def)

lemma rbuf_keeps: "inv e w \<Longrightarrow> buf_shape b \<Longrightarrow> keeps e w (w\<lparr>w_rbuf := b\<rparr>)"
  by (intro keeps_same) (simp_all add: inv_def world_ok_def)

lemma tick_keeps: "keeps e w v \<Longrightarrow> keeps e w (tick v)"
  by (simp add: keeps_def)

lemma info_field_fd: "info_field ceq name v c = Some c' \<Longrightarrow> nc_fd c' = nc_fd c"
  by (auto simp: info_field_def split: if_splits json.splits)

lemma info_fields_fd: "nc_fd (snd (info_fields ceq fs c)) = nc_fd c"
  by (induction ceq fs c rule: info_fields.induct) (auto split: option.split dest: info_field_fd)

lemma parse_info_keeps:
  assumes "inv e w"
  shows "ret (parse_info_json e m w) (keeps2 e w)"
proof -
  have "keeps e w ((tick w)\<lparr>w_conn := c\<rparr>)" if "info_fields ceq fs (w_conn (tick w)) = (rc, c)" for ceq fs rc c
    using set_conn_keeps [of e "tick w" c] info_fields_fd [of ceq fs "w_conn (tick w)"] that assms
    by (auto simp: keeps_def)
  moreover have "keeps e w (tick w)" using assms by (simp add: keeps_def)
  ultimately show ?thesis
    unfolding parse_info_json_def Let_def
    by (intro ret_bind [where P = "\<lambda>_. True"]) (auto simp: ret_def split: option.splits json.splits prod.splits if_splits)
qed

context client_callbacks
begin

lemma process_msg_keeps:
  assumes "inv e w"
  shows "ret (ngx_nats_process_msg cb e s msg w) (keeps e w)"
proof -
  have w: "keeps e w w" by (rule keeps_refl [OF assms])
  have cal: "ret (call cb c v) (keeps e w)" if "keeps e w v" for c v
    by (rule ret_weaken [OF call_keeps [OF keeps_world [OF that]]]) (rule keeps_trans [OF that])
  show ?thesis
    unfolding ngx_nats_process_msg_def Let_def
    by (intro vc ret_bind [where P = "\<lambda>_. True"] cal tick_keeps w process_msg_count [OF assms]) (simp_all add: ret_def)
qed

lemma close_then: "inv e v \<Longrightarrow> ret (do { v \<leftarrow> close_connection cb e reason 1 v; Some (rc, v) }) (keeps2 e w)"
  by (rule ret_bind [OF close_keeps [where v = w]]) (auto intro: ret2)

lemma close_bad_keeps: "inv e v \<Longrightarrow> ret (close_bad cb e v) (keeps2 e w)"
  unfolding close_bad_def by (rule close_then)

lemma incomplete_keeps:
  assumes "inv e w"
  shows "ret (incomplete_msg cb e w) (keeps2 e w)"
proof -
  have sh: "buf_shape (w_rbuf w)" using assms by (simp add: inv_def world_ok_def)
  show ?thesis
    unfolding incomplete_msg_def Let_def
  proof (rule ret_bind [OF compact_shape [OF sh]], goal_cases)
    case (1 b)
    have k: "keeps e w (w\<lparr>w_rbuf := b\<rparr>)" using rbuf_keeps [OF assms] 1 by simp
    have g: "keeps e w ((tick (w\<lparr>w_rbuf := b\<rparr>))\<lparr>w_rbuf := c\<rparr>)" if "buf_shape c" for c
      by (rule keeps_trans [OF tick_keeps [OF k]], rule rbuf_keeps [OF _ that])
        (use tick_keeps [OF k] keeps_world in blast)
    have ens: "ret (ngx_nats_buf_ensure ok b n 0) (\<lambda>(rc, c). buf_shape c)" for ok n
      by (rule ret_weaken [OF ensure_shape]) (use 1 in auto)
    show ?case
      by (intro vc close_then ret2 k keeps_world [OF k] ret_bind [OF ens]) (auto intro: g keeps_world [OF g])
  qed
qed

lemma ready_keeps:
  assumes "inv e w"
  shows "ret (ngx_nats_connection_ready cb w) (keeps e w)"
proof -
  have w: "inv e (w\<lparr>w_err_reported := False\<rparr>)" using assms by simp
  have "ret (each_client (\<lambda>c. call cb (Connected (cl_id c))) (w_clients w) (w\<lparr>w_err_reported := False\<rparr>))
      (keeps e (w\<lparr>w_err_reported := False\<rparr>))"
    by (rule each_keeps [OF _ w]) (rule call_keeps)
  then show ?thesis
    unfolding ngx_nats_connection_ready_def Let_def
    by (intro vc) (auto simp: ret_def keeps_def)
qed

lemma handle_keeps:
  assumes "inv e w"
  shows "ret (handle_message cb e skip msg s w) (keeps2 e w)"
proof -
  let ?r = "upd_conn (\<lambda>c. c\<lparr>nc_state := NGX_NATS_STATE_READY\<rparr>) w"
  have w: "keeps e w w" by (rule keeps_refl [OF assms])
  have r: "keeps e w ?r" by (rule upd_conn_keeps [OF assms]) simp
  have ready: "ret (do { v \<leftarrow> ngx_nats_connection_ready cb ?r; Some (skip, v) }) (keeps2 e w)"
    by (rule ret_bind [OF ready_keeps [OF keeps_world [OF r]]]) (auto intro: ret2 keeps_trans [OF r])
  have msg: "ret (do { v \<leftarrow> ngx_nats_process_msg cb e s msg w; Some (skip, v) }) (keeps2 e w)"
    by (rule ret_bind [OF process_msg_keeps [OF assms]]) (auto intro: ret2)
  have ping: "ret (do { (rc, v) \<leftarrow> add_message e m n w; Some (skip, v) }) (keeps2 e w)" for m n
    by (rule bind2 [OF add_from [OF w]]) (rule ret2)
  have info: "ret (do { m \<leftarrow> a; (rc, v) \<leftarrow> parse_info_json e m w;
      if rc \<noteq> NGX_OK then close_bad cb e v else Some (skip, v) }) (keeps2 e w)" for a
    by (rule ret_bind [where P = "\<lambda>_. True"], simp add: ret_def, rule bind2 [OF parse_info_keeps [OF assms]])
      (auto intro!: vc close_bad_keeps dest: keeps_world)
  show ?thesis
    unfolding handle_message_def
    by (intro vc close_then close_bad_keeps ready msg ping info ret2 w assms)
qed

lemma buffer_msg_keeps:
  assumes "inv e w"
  shows "ret (nats_process_buffer_msg cb e w) (keeps2 e w)"
proof -
  have sh: "buf_shape (w_rbuf w)" using assms by (simp add: inv_def world_ok_def)
  have put: "keeps e w (w\<lparr>w_rbuf := (w_rbuf w)\<lparr>b_buf := m\<rparr>\<rparr>)"
    if "mem_put (b_buf (w_rbuf w)) i xs = Some m" for i xs m
    using rbuf_keeps [OF assms] sh mem_put_length [OF that] by (simp add: buf_shape_def)
  have rest: "ret (if c then (if d then incomplete_msg cb e v else close_bad cb e v) else handle_message cb e rc msg s v)
      (keeps2 e w)" if "keeps e w v" for c d v rc msg s
    by (intro vc close_bad_keeps keeps_world [OF that] weaken2 [OF incomplete_keeps that] weaken2 [OF handle_keeps that])
  have compact: "ret (do { b \<leftarrow> ngx_nats_buf_compact (w_rbuf w); Some (NGX_OK, w\<lparr>w_rbuf := b\<rparr>) }) (keeps2 e w)"
    by (rule ret_bind [OF compact_shape [OF sh]]) (auto intro!: ret2 rbuf_keeps [OF assms])
  show ?thesis
    unfolding nats_process_buffer_msg_def Let_def
  proof (rule ret_if [OF compact], rule ret_bind [where P = "\<lambda>_. True"], simp add: ret_def,
      rule ret_bind [where P = "\<lambda>_. True"], simp add: ret_def, intro ret_prod)
    fix rc y msg s
    show "ret (do { m \<leftarrow> mem_put (b_buf (w_rbuf w)) (b_pos (w_rbuf w)) (map Some s);
        if rc \<le> 0 then if rc = NGX_NATS_PROTO_AGAIN then incomplete_msg cb e (w\<lparr>w_rbuf := (w_rbuf w)\<lparr>b_buf := m\<rparr>\<rparr>)
          else close_bad cb e (w\<lparr>w_rbuf := (w_rbuf w)\<lparr>b_buf := m\<rparr>\<rparr>)
        else handle_message cb e rc msg s (w\<lparr>w_rbuf := (w_rbuf w)\<lparr>b_buf := m\<rparr>\<rparr>) }) (keeps2 e w)"
      by (rule ret_bind [where P = "\<lambda>m. mem_put (b_buf (w_rbuf w)) (b_pos (w_rbuf w)) (map Some s) = Some m"])
        (simp add: ret_def, rule rest [OF put])
  qed
qed

text \<open>The loop over the messages in the buffer.\<close>

lemma process_buffer_step:
  assumes IH: "\<And>w y. f cb e w = Some y \<Longrightarrow> (inv e w \<longrightarrow> keeps2 e w y) \<and> \<not> overrun (w_rbuf w)"
    and body: "do { (rc, w) \<leftarrow> nats_process_buffer_msg cb e w;
      if rc \<le> 0 then Some (rc, w) else f cb e (skip_message rc w) } = Some y"
  shows "(inv e w \<longrightarrow> keeps2 e w y) \<and> \<not> overrun (w_rbuf w)"
proof (intro conjI impI notI)
  assume "overrun (w_rbuf w)"
  from overrun_crash [OF this] body show False by simp
next
  assume w: "inv e w"
  obtain rc v where m: "nats_process_buffer_msg cb e w = Some (rc, v)" using body by (auto simp: bind_eq_Some_conv)
  have v: "keeps e w v" using retD [OF buffer_msg_keeps [OF w] m] by simp
  show "keeps2 e w y"
  proof (cases "rc \<le> 0")
    case True
    with m body v show ?thesis by auto
  next
    case False
    with m body have y: "f cb e (skip_message rc v) = Some y" by simp
    with IH skip_cases [OF keeps_world [OF v], of rc] have "keeps e v (skip_message rc v)" by blast
    from keeps_trans [OF v this] IH [OF y] show ?thesis
      by (auto dest: keeps_world intro: keeps_trans)
  qed
qed

lemma process_buffer_keeps:
  assumes "inv e w"
  shows "ret (ngx_nats_process_buffer cb e w) (keeps2 e w)"
proof -
  have step: "c = cb \<longrightarrow> d = e \<longrightarrow> (inv e v \<longrightarrow> keeps2 e v y) \<and> \<not> overrun (w_rbuf v)"
    if "ngx_nats_process_buffer c d v = Some y" for c d v y
  proof (rule ngx_nats_process_buffer.raw_induct
      [where P = "\<lambda>c d v y. c = cb \<longrightarrow> d = e \<longrightarrow> (inv e v \<longrightarrow> keeps2 e v y) \<and> \<not> overrun (w_rbuf v)", OF _ that],
      intro impI, goal_cases)
    case (1 f c d v y)
    then have IH: "(inv e w \<longrightarrow> keeps2 e w y) \<and> \<not> overrun (w_rbuf w)" if "f cb e w = Some y" for w y
      using that by blast
    show ?case by (rule process_buffer_step [of f, OF IH]) (use 1(2) [unfolded 1(3,4)] in simp_all)
  qed
  then have "inv e w \<longrightarrow> keeps2 e w y" if "ngx_nats_process_buffer cb e w = Some y" for y using that by blast
  with assms show ?thesis by (auto simp: ret_def)
qed

text \<open>The loop over the reads.\<close>

lemma read_step_inv:
  assumes w: "inv e w" and r: "e_recv e (w_tick w) (usub (usub (b_cap (w_rbuf w)) (b_end (w_rbuf w))) 1) = (n, xs)"
    and n: "0 < n" and m: "mem_put (b_buf (w_rbuf w)) (b_end (w_rbuf w)) (map Some xs) = Some m"
  shows "keeps e w ((ngx_nats_check_connected (tick w))\<lparr>w_rbuf := (w_rbuf w)\<lparr>b_buf := m, b_end := b_end (w_rbuf w) + nat n\<rparr>\<rparr>)"
proof -
  have len: "length xs = nat n" using w r n by (fastforce simp: inv_def env_ok_def)
  have "buf_shape (w_rbuf w)" using w by (simp add: inv_def world_ok_def)
  with m len mem_put_length [OF m] have "buf_shape ((w_rbuf w)\<lparr>b_buf := m, b_end := b_end (w_rbuf w) + nat n\<rparr>)"
    by (auto simp: buf_shape_def mem_put_def split: if_splits)
  moreover have "keeps e w (ngx_nats_check_connected (tick w))" using w by (intro keeps_same) simp_all
  ultimately show ?thesis by (blast intro: keeps_trans rbuf_keeps keeps_world)
qed

lemma read_loop_step:
  assumes f: "\<And>v. inv e v \<Longrightarrow> ret (f v) (keeps2 e v)" and w: "inv e w"
  shows "ret (let b = w_rbuf w; (n, xs) = e_recv e (w_tick w) (usub (usub (b_cap b) (b_end b)) 1); v = tick w in
      if n = NGX_AGAIN
      then (let rc = e_read_event e (w_tick v); v = tick v in
            if rc \<noteq> NGX_OK
            then do { v \<leftarrow> close_connection cb e NGX_NATS_REASON_INTERNAL_ERROR 1 v; Some (False, v) }
            else Some (True, v))
      else if n \<le> 0
      then do { v \<leftarrow> close_connection cb e NGX_NATS_REASON_DISCONNECTED 1 v; Some (False, v) }
      else do {
        m \<leftarrow> mem_put (b_buf b) (b_end b) (map Some xs);
        let v = ngx_nats_check_connected v;
        (rc, v) \<leftarrow> ngx_nats_process_buffer cb e (v\<lparr>w_rbuf := b\<lparr>b_buf := m, b_end := b_end b + nat n\<rparr>\<rparr>);
        if rc \<noteq> NGX_OK
        then do { v \<leftarrow> close_connection cb e NGX_NATS_REASON_BAD_PROTOCOL 1 v; Some (False, v) }
        else f v }) (keeps2 e w)"
proof -
  have t: "keeps e w (tick w)" "keeps e w (tick (tick w))" using w by (simp_all add: keeps_def)
  obtain n xs where r: "e_recv e (w_tick w) (usub (usub (b_cap (w_rbuf w)) (b_end (w_rbuf w))) 1) = (n, xs)"
    by fastforce
  have pb: "ret (ngx_nats_process_buffer cb e v) (keeps2 e w)" if "keeps e w v" for v
    by (rule weaken2 [OF process_buffer_keeps [OF keeps_world [OF that]] that])
  have go: "ret (f v) (keeps2 e w)" if "keeps e w v" for v
    by (rule weaken2 [OF f [OF keeps_world [OF that]] that])
  have rest: "ret (do { (rc, v) \<leftarrow> ngx_nats_process_buffer cb e v;
        if rc \<noteq> NGX_OK then do { v \<leftarrow> close_connection cb e NGX_NATS_REASON_BAD_PROTOCOL 1 v; Some (False, v) }
        else f v }) (keeps2 e w)" if "keeps e w v" for v
    by (rule bind2 [OF pb [OF that]]) (intro vc close_then keeps_world go; assumption)
  show ?thesis
    unfolding Let_def r prod.case
  proof (intro ret_if)
    assume n: "\<not> n \<le> 0"
    show "ret (do { m \<leftarrow> mem_put (b_buf (w_rbuf w)) (b_end (w_rbuf w)) (map Some xs);
        (rc, v) \<leftarrow> ngx_nats_process_buffer cb e ((ngx_nats_check_connected (tick w))
          \<lparr>w_rbuf := (w_rbuf w)\<lparr>b_buf := m, b_end := b_end (w_rbuf w) + nat n\<rparr>\<rparr>);
        if rc \<noteq> NGX_OK then do { v \<leftarrow> close_connection cb e NGX_NATS_REASON_BAD_PROTOCOL 1 v; Some (False, v) }
        else f v }) (keeps2 e w)"
      by (rule ret_bind [where P = "\<lambda>m. mem_put (b_buf (w_rbuf w)) (b_end (w_rbuf w)) (map Some xs) = Some m"])
        (simp add: ret_def, rule rest [OF read_step_inv [OF w r _]], use n in simp_all)
  qed (use t in \<open>auto intro: ret2 close_then keeps_world\<close>)
qed

lemma read_loop_keeps:
  assumes "inv e w"
  shows "ret (read_loop cb e w) (keeps2 e w)"
proof -
  have step: "c = cb \<longrightarrow> d = e \<longrightarrow> inv e v \<longrightarrow> keeps2 e v y" if "read_loop c d v = Some y" for c d v y
  proof (rule read_loop.raw_induct
      [where P = "\<lambda>c d v y. c = cb \<longrightarrow> d = e \<longrightarrow> inv e v \<longrightarrow> keeps2 e v y", OF _ that], intro impI, goal_cases)
    case (1 f c d v y)
    then have IH: "ret (f cb e w) (keeps2 e w)" if "inv e w" for w
      using that unfolding ret_def by blast
    show ?case
      by (rule retD [OF read_loop_step [of "f cb e", OF IH 1(5)] 1(2) [unfolded 1(3,4)]])
  qed
  then have "inv e w \<longrightarrow> keeps2 e w y" if "read_loop cb e w = Some y" for y using that by blast
  with assms show ?thesis by (auto simp: ret_def)
qed

text \<open>The handlers.\<close>

lemma flush_after: "keeps e w v \<Longrightarrow> ret (flush cb e v) (keeps e w)"
  by (rule ret_weaken [OF flush_keeps [OF keeps_world]]) (auto intro: keeps_trans)

lemma read_keeps:
  assumes "inv e w"
  shows "ret (ngx_nats_read_from_nats cb e w) (keeps e w)"
  unfolding ngx_nats_read_from_nats_def Let_def
  by (rule bind2 [OF read_loop_keeps [OF assms]]) (auto intro!: vc flush_after)

lemma connection_init_keeps:
  assumes "keeps e w v"
  shows "ret (ngx_nats_connection_init e v) (keeps e w)"
proof -
  let ?v = "upd_conn (\<lambda>c. c\<lparr>nc_state := nc_state c OR NGX_NATS_STATE_CONNECT_SENT\<rparr>) v"
  have "keeps e w ?v" using assms by (rule keeps_trans) (rule upd_conn_keeps [OF keeps_world [OF assms]], simp)
  from add_from [OF this] have "ret (map_option snd (add_message e m n ?v)) (keeps e w)" for m n
    by (fastforce simp: ret_def)
  with assms show ?thesis unfolding ngx_nats_connection_init_def Let_def by (intro vc) simp_all
qed

lemma write_handler_keeps:
  assumes "inv e w"
  shows "ret (ngx_nats_write_event_handler cb e timedout w) (keeps e w)"
proof -
  have "keeps e w (upd_conn (\<lambda>c. c\<lparr>nc_wtimer := False\<rparr>) w)" by (rule upd_conn_keeps [OF assms]) simp
  then show ?thesis
    unfolding ngx_nats_write_event_handler_def
    by (intro vc close_keeps [OF assms] ret_bind [OF connection_init_keeps] flush_after)
qed

lemma handler_keeps:
  assumes "inv e w"
  shows "ret (ngx_nats_connection_handler cb e write timedout w) (keeps e w)"
proof -
  have t: "inv e (tick w)" using assms by simp
  have "ret (ngx_nats_read_from_nats cb e (tick w)) (keeps e w)"
    by (rule ret_weaken [OF read_keeps [OF t]]) (simp add: keeps_def)
  then show ?thesis
    unfolding ngx_nats_connection_handler_def ngx_nats_read_event_handler_def
    by (intro vc write_handler_keeps close_keeps assms t)
qed

lemma ping_keeps:
  assumes "inv e w"
  shows "ret (ngx_nats_ping_handler cb e timer_set w) (keeps e w)"
  unfolding ngx_nats_ping_handler_def
proof (intro ret_if bind2 [OF add_from [OF keeps_refl [OF assms]]] ret_bind [OF flush_after])
  fix v
  assume v: "keeps e w v"
  show "ret (Some (upd_conn (\<lambda>c. c\<lparr>nc_ping := True\<rparr>) v)) (keeps e w)"
    by (rule ret_Some, rule keeps_trans [OF v], rule upd_conn_keeps [OF keeps_world [OF v]]) simp
qed (auto intro: ret_Some keeps_refl assms)

lemma init_good:
  assumes "inv e w"
  shows "ret (ngx_nats_init cb e w) (\<lambda>(rc, w'). rc = NGX_OK \<and> good e w')"
proof -
  let ?w = "w\<lparr>w_global := True\<rparr>"
  have e: "env_ok e" "\<forall>t. e_alloc e t" and w: "world_ok e ?w" using assms by (simp_all add: inv_def world_ok_def)
  from post_ret [OF connect_ok [OF e w, of cb]] show ?thesis
    unfolding ngx_nats_init_def
    by (rule ret_bind) (use e in \<open>auto intro!: ret_Some simp: good_def inv_def dest: connect_result_settled\<close>)
qed

end

section \<open>The states of a worker process\<close>

text \<open>
  A step is the dispatch of an event by nginx or a call of a client function from elsewhere. nginx
  clears \<open>timer_set\<close> of an event when its timer expires, before it calls the handler. Socket events
  may arrive at any time, also late ones of a socket that was closed.
\<close>

inductive nats_step :: "(callback \<Rightarrow> step) \<Rightarrow> env \<Rightarrow> world \<Rightarrow> world \<Rightarrow> bool" for cb e where
  socket: "ngx_nats_connection_handler cb e write timedout w = Some w' \<Longrightarrow> nats_step cb e w w'"
| ping: "nc_ping (w_conn w) \<Longrightarrow>
    ngx_nats_ping_handler cb e timer_set (upd_conn (\<lambda>c. c\<lparr>nc_ping := False\<rparr>) w) = Some w' \<Longrightarrow> nats_step cb e w w'"
| reconnect: "w_rec_timer w \<Longrightarrow>
    ngx_nats_reconnect_handler cb e (w\<lparr>w_rec_timer := False\<rparr>) = Some w' \<Longrightarrow> nats_step cb e w w'"
| client: "run_call cb e c w = Some (rc, w') \<Longrightarrow> nats_step cb e w w'"
| exit: "nats_step cb e w (ngx_nats_exit w)"

text \<open>From the state that \<open>ngx_nats_core_init_module\<close> leaves, with buffers of 4096 bytes.\<close>

inductive reachable :: "(callback \<Rightarrow> step) \<Rightarrow> env \<Rightarrow> world \<Rightarrow> bool" for cb e where
  start: "ngx_nats_init cb e (nats_data_init (buf_new 4096) (buf_new 4096)) = Some (rc, w) \<Longrightarrow> reachable cb e w"
| step: "reachable cb e w \<Longrightarrow> nats_step cb e w w' \<Longrightarrow> reachable cb e w'"

context client_callbacks
begin

lemma step_good:
  assumes "good e w" and "nats_step cb e w w'"
  shows "good e w'"
proof -
  have w: "inv e w" "settled w" using assms(1) by (simp_all add: good_def)
  have k: "keeps e v w' \<Longrightarrow> settled v \<Longrightarrow> good e w'" for v by (simp add: keeps_def good_def)
  from assms(2) show ?thesis
  proof (cases rule: nats_step.cases)
    case (socket wr_ev timedout)
    with retD [OF handler_keeps [OF w(1)] socket(1)] w k show ?thesis by blast
  next
    case (ping timer_set)
    let ?v = "upd_conn (\<lambda>c. c\<lparr>nc_ping := False\<rparr>) w"
    have "inv e ?v" "settled ?v" using w by (simp_all add: settled_upd_conn)
    with retD [OF ping_keeps ping(2)] k show ?thesis by blast
  next
    case reconnect
    have "inv e (w\<lparr>w_rec_timer := False\<rparr>)" using w by (simp add: inv_def world_ok_def)
    from retD [OF reconnect_good [OF this]] reconnect(2) show ?thesis
      by (simp add: ngx_nats_reconnect_handler_def)
  next
    case (client c rc)
    with retD [OF run_call_keeps [OF w(1)] client(1)] w k show ?thesis by auto
  next
    case exit
    with w show ?thesis by (simp add: good_def inv_def world_ok_def ngx_nats_exit_def settled_def connected_def)
  qed
qed

lemma reachable_good:
  assumes "env_ok e" and "\<forall>t. e_alloc e t" and "reachable cb e w"
  shows "good e w"
  using assms(3)
proof (induction rule: reachable.induct)
  case (start rc w)
  have "inv e (nats_data_init (buf_new 4096) (buf_new 4096))"
    using assms init_world_ok [of 4096 4096 e] by (simp add: inv_def)
  from retD [OF init_good [OF this] start] show ?case by simp
qed (rule step_good)

end

text \<open>The handler of the reconnect timer always returns; it needs no callback.\<close>

lemma reconnect_returns:
  assumes "inv e w"
  shows "\<exists>w'. ngx_nats_reconnect_handler cb e (w\<lparr>w_rec_timer := False\<rparr>) = Some w' \<and> good e w'"
proof -
  let ?w = "w\<lparr>w_rec_timer := False\<rparr>\<lparr>w_rec_timer := False\<rparr>"
  have e: "env_ok e" "\<forall>t. e_alloc e t" and w: "world_ok e ?w" using assms by (simp_all add: inv_def world_ok_def)
  from connect_ok [OF e w, of cb] obtain w' where "ngx_nats_connect cb e ?w = Some w'" "connect_result e ?w w'"
    by (auto simp: post_def)
  then show ?thesis
    using e by (auto simp: ngx_nats_reconnect_handler_def reconnect_def ngx_nats_process_reconnect_def good_def inv_def
        dest: connect_result_settled)
qed

text \<open>
  C1: the module never gives up. When no allocation fails and the environment behaves as nginx
  documents it (\<open>env_ok\<close>), with client modules that answer callbacks with any calls of the client
  functions, in every state that a worker process reaches by steps that return, the module is
  connected or has its reconnect timer set, and when the timer is set, the handler of the timer
  returns. The buffers satisfy their documented bounds, the server index lies in the list of
  servers, and (for fewer than \<open>2 ^ 63\<close> subscriptions) the sids in the table are distinct and were
  given out. Other steps need not return (\<open>Nats_Read_Faults\<close>, \<open>Nats_Close\<close>).
\<close>

theorem reachable_invariant:
  assumes "env_ok e" and "\<forall>t. e_alloc e t" and "reachable (client_cb prog e k) e w"
  shows "(w_live w \<and> nc_fd (w_conn w) \<or> w_rec_timer w)
    \<and> (\<exists>w'. ngx_nats_reconnect_handler (client_cb prog e k) e (w\<lparr>w_rec_timer := False\<rparr>) = Some w')
    \<and> buf_shape (w_rbuf w) \<and> buf_shape (w_wbuf w)
    \<and> - 1 \<le> w_curr w \<and> w_curr w < int (e_servers e)
    \<and> table_ok (w_tick w) (w_next_id w) (w_subs w)"
proof -
  have g: "good e w" by (rule nested.reachable_good [OF assms])
  then have "\<exists>w'. ngx_nats_reconnect_handler (client_cb prog e k) e (w\<lparr>w_rec_timer := False\<rparr>) = Some w'"
    using reconnect_returns unfolding good_def by blast
  with g show ?thesis by (simp add: good_def inv_def world_ok_def settled_def connected_def)
qed

theorem reachable_invariant_witness:
  "\<exists>w. reachable (client_cb (\<lambda>c w. [Unsubscribe 1]) (try_env 2 NGX_OK) 3) (try_env 2 NGX_OK) w
     \<and> (w_live w \<and> nc_fd (w_conn w) \<or> w_rec_timer w)"
proof -
  let ?e = "try_env 2 NGX_OK" and ?w = "(nats_data_init (buf_new 4096) (buf_new 4096))\<lparr>w_global := True\<rparr>"
  let ?cb = "client_cb (\<lambda>c w. [Unsubscribe 1]) ?e 3"
  have e: "env_ok ?e" by (rule try_env_ok) simp_all
  have al: "\<forall>t. e_alloc ?e t" by (simp add: try_env_def)
  have "world_ok ?e ?w" using init_world_ok [of 4096 4096 ?e] by (simp add: world_ok_def)
  from connect_ok [OF e al this, of ?cb] obtain w where "ngx_nats_connect ?cb ?e ?w = Some w"
    by (auto simp: post_def)
  then have "ngx_nats_init ?cb ?e (nats_data_init (buf_new 4096) (buf_new 4096)) = Some (NGX_OK, w)"
    by (simp add: ngx_nats_init_def)
  then have "reachable ?cb ?e w" by (rule reachable.start)
  with reachable_invariant [OF e al this] show ?thesis by blast
qed

end
