(* ===== verification/Nats_Publish.thy ===== *)
theory Nats_Publish
  imports "HOL-Library.Word" Nats_Client
begin

text \<open>
  What the client functions put on the wire. \<open>out w\<close> is the byte stream of the connection: what was
  sent and what is still in the write buffer. Publishing and subscribing append exactly the text
  of the protocol, when the buffer need not be reallocated while partly sent (see \<open>Nats_Buf\<close>) and no
  error occurs. The other properties show what happens outside these conditions.
\<close>

section \<open>The stream\<close>

fun sent_bytes :: "event list \<Rightarrow> char option list" where
  "sent_bytes [] = []"
| "sent_bytes (Sent s # evs) = s @ sent_bytes evs"
| "sent_bytes (Attempt i # evs) = sent_bytes evs"
| "sent_bytes (Callback c # evs) = sent_bytes evs"

definition out :: "world \<Rightarrow> char option list" where
  "out w = sent_bytes (w_log w) @ map Some (contents (w_wbuf w))"

lemma sent_append [simp]: "sent_bytes (a @ b) = sent_bytes a @ sent_bytes b"
  by (induction a rule: sent_bytes.induct) simp_all

text \<open>A write buffer of which nothing was sent yet, or everything.\<close>

definition unsent :: "ngx_nats_buf \<Rightarrow> bool" where
  "unsent b \<longleftrightarrow> buf_wf b \<and> b_pos b = 0 \<and> 0 < b_cap b"

lemma ensure_unsent: "b_pos b = 0 \<Longrightarrow> ret (ngx_nats_buf_ensure ok b sz compact) (\<lambda>(rc, b'). b_pos b' = 0)"
  unfolding ngx_nats_buf_ensure_def Let_def by (intro vc) (auto simp: ret_def bind_eq_Some_conv)

lemma length_unsent: "unsent b \<Longrightarrow> length (contents b) = b_end b"
  using length_contents [of b] by (simp add: unsent_def)

text \<open>Up to 256 MB, appending succeeds when allocations do.\<close>

lemma add_message_unsent:
  assumes b: "unsent b" and xs: "xs = take sz message" "0 < sz" "sz \<le> length message"
    and room: "b_end b + sz \<le> NGX_NATS_MAX_MESSAGE_SIZE" and ok: "ok"
  shows "\<exists>b'. ngx_nats_add_message ok b message sz = Some (NGX_OK, b') \<and> unsent b' \<and> contents b' = contents b @ xs"
proof -
  have wf: "buf_wf b" "b_pos b = 0" "0 < b_cap b" using b by (simp_all add: unsent_def)
  have "length (contents b) + sz \<le> 2 ^ 63"
    using room length_unsent [OF b] by (simp add: NGX_NATS_MAX_MESSAGE_SIZE_def)
  from ensure_from_zero [OF wf this, of ok 1] obtain rc c where
    c: "ngx_nats_buf_ensure ok b sz 1 = Some (rc, c)" "buf_wf c" "contents c = contents b" "b_cap b \<le> b_cap c"
    "rc = NGX_OK \<and> b_end c + sz \<le> b_cap c
        \<or> rc = NGX_ERROR \<and> (\<not> ok \<or> NGX_NATS_MAX_MESSAGE_SIZE \<le> b_cap b)" by blast
  have fits: "ngx_nats_buf_ensure ok b sz 1 = Some (NGX_OK, b)" if "NGX_NATS_MAX_MESSAGE_SIZE \<le> b_cap b"
    using that room wf buf_wfD(2) [OF wf(1)] by (simp add: ngx_nats_buf_ensure_def Let_def)
  have rc: "rc = NGX_OK" "b_end c + sz \<le> b_cap c" using c(1,5) fits ok by auto
  have "b_pos c = 0" using retD [OF ensure_unsent [OF wf(2)] c(1)] by simp
  moreover obtain m where m: "mem_put (b_buf c) (b_end c) (map Some xs) = Some m"
    "buf_wf (c\<lparr>b_buf := m, b_end := b_end c + sz\<rparr>)"
    "contents (c\<lparr>b_buf := m, b_end := b_end c + sz\<rparr>) = contents b @ xs"
    using put_at_end [OF c(2), of xs] rc(2) xs c(3) by auto
  moreover have "ngx_nats_add_message ok b message sz = Some (NGX_OK, c\<lparr>b_buf := m, b_end := b_end c + sz\<rparr>)"
    using xs c(1) rc(1) m(1) by (simp add: ngx_nats_add_message_def mem_get_def)
  ultimately show ?thesis using c(4) wf(3) by (auto simp: unsent_def)
qed

text \<open>The state after messages were appended: only the buffer and the clock have changed.\<close>

definition appended :: "world \<Rightarrow> bytes \<Rightarrow> world \<Rightarrow> bool" where
  "appended w xs w' \<longleftrightarrow> (\<exists>b t. w' = w\<lparr>w_wbuf := b, w_tick := t\<rparr> \<and> unsent b \<and> contents b = contents (w_wbuf w) @ xs)"

lemma appended_trans: "appended u xs v \<Longrightarrow> appended v ys w \<Longrightarrow> appended u (xs @ ys) w"
  by (force simp: appended_def)

lemma appended_end: "unsent (w_wbuf u) \<Longrightarrow> appended u xs v \<Longrightarrow> unsent (w_wbuf v) \<and> b_end (w_wbuf v) = b_end (w_wbuf u) + length xs"
  using length_unsent [of "w_wbuf u"] length_unsent [of "w_wbuf v"] by (auto simp: appended_def)

lemma add_message_appended:
  assumes "unsent (w_wbuf w)" and "\<forall>t. e_alloc e t" and "xs = take sz message" "0 < sz" "sz \<le> length message"
    and "b_end (w_wbuf w) + sz \<le> NGX_NATS_MAX_MESSAGE_SIZE"
  shows "\<exists>w'. add_message e message sz w = Some (NGX_OK, w') \<and> appended w xs w'"
proof -
  obtain b where b: "ngx_nats_add_message (e_alloc e (w_tick w)) (w_wbuf w) message sz = Some (NGX_OK, b)"
    "unsent b" "contents b = contents (w_wbuf w) @ xs"
    using add_message_unsent [OF assms(1,3-6), of "e_alloc e (w_tick w)"] assms(2) by blast
  have "(tick w)\<lparr>w_wbuf := b\<rparr> = w\<lparr>w_wbuf := b, w_tick := w_tick w + 1\<rparr>" by (simp add: tick_def)
  with b show ?thesis by (auto simp: add_message_def appended_def)
qed

section \<open>Flushing\<close>

text \<open>Sending does not fail: \<open>send\<close> accepts bytes or asks to wait, and events can be registered.\<close>

definition sends_ok :: "env \<Rightarrow> bool" where
  "sends_ok e \<longleftrightarrow> (\<forall>t n. e_send e t n \<noteq> NGX_ERROR \<and> e_send e t n \<le> int n) \<and> (\<forall>t. e_write_event e t = NGX_OK)"

lemma flush_out:
  assumes e: "sends_ok e" and b: "unsent (w_wbuf w)"
  shows "\<exists>w'. flush cb e w = Some w' \<and> out w' = out w \<and> w_subs w' = w_subs w \<and> w_next_id w' = w_next_id w
    \<and> w_live w' = w_live w \<and> callbacks (w_log w') = callbacks (w_log w)"
proof -
  let ?b = "w_wbuf w"
  have wf: "buf_wf ?b" "b_pos ?b = 0" using b by (simp_all add: unsent_def)
  have end0: "b_end ?b = 0 \<Longrightarrow> contents ?b = []" using wf(2) by (simp add: contents_def)
  define n where "n = e_send e (w_tick w) (b_end ?b)"
  have n: "n \<noteq> NGX_ERROR" "nat n \<le> b_end ?b" and ev: "e_write_event e t = NGX_OK" for t
    using e by (auto simp: sends_ok_def n_def nat_le_iff)
  have cells: "mem_get (b_buf ?b) (b_pos ?b) (b_end ?b) = Some (map Some (contents ?b))"
    using buf_wfD [OF wf(1)] wf(2) by (simp add: mem_get_def Nats_Prelude.slice_def)
  have len: "length (contents ?b) = b_end ?b" by (rule length_unsent [OF b])
  have cons: "contents (buf_consume ?b (nat n)) = drop (nat n) (contents ?b)"
    using consume_wf [OF wf(1), of "nat n"] n len by simp
  have c0: "contents (?b\<lparr>b_pos := 0, b_end := 0\<rparr>) = []" by (simp add: contents_def)
  have split: "take (nat n) (map Some (contents ?b)) @ map Some (drop (nat n) (contents ?b)) = map Some (contents ?b)"
    by (simp add: take_map flip: map_append)
  let ?s = "ngx_nats_check_connected (emit (Sent (take (nat n) (map Some (contents ?b)))) (tick w))"
  have "flush cb e w =
     (if b_end ?b = 0 then Some (w\<lparr>w_wbuf := ?b\<lparr>b_pos := 0, b_end := 0\<rparr>\<rparr>)
      else if n > 0 then
        (if nat n = b_end ?b then Some (tick (?s\<lparr>w_wbuf := buf_consume ?b (nat n)\<rparr>))
         else Some (?s\<lparr>w_wbuf := buf_consume ?b (nat n)\<rparr>))
      else if n = NGX_AGAIN then Some (tick (upd_conn (\<lambda>c. c\<lparr>nc_wtimer := True\<rparr>) (tick w)))
      else Some (tick w))"
    using n(1) ev cells wf(2) by (simp add: flush_def ngx_nats_flush_def Let_def n_def [symmetric])
  moreover have "w_wbuf ?s = ?b" "w_log ?s = w_log w @ [Sent (take (nat n) (map Some (contents ?b)))]"
    "w_subs ?s = w_subs w" "w_next_id ?s = w_next_id w" "w_live ?s = w_live w"
    by (simp_all add: ngx_nats_check_connected_def world_defs)
  ultimately show ?thesis
    using cons split end0 c0 by (auto simp: out_def world_defs)
qed

section \<open>Publishing\<close>

definition ready :: "world \<Rightarrow> bool" where
  "ready w \<longleftrightarrow> w_global w \<and> w_live w \<and> nc_state (w_conn w) = NGX_NATS_STATE_READY"

text \<open>The text of a PUB in the NATS protocol.\<close>

definition pub_text :: "bytes \<Rightarrow> bytes option \<Rightarrow> bytes \<Rightarrow> bytes" where
  "pub_text subject replyto payload =
     ''PUB '' @ subject @ (case replyto of None \<Rightarrow> [] | Some r \<Rightarrow> [SP] @ r)
       @ [SP] @ dec (length payload) @ [CR, LF] @ payload @ [CR, LF]"

definition pub_line :: "bytes \<Rightarrow> bytes option \<Rightarrow> nat \<Rightarrow> bytes" where
  "pub_line subject replyto len = render_all (pub_pieces subject replyto len)"

lemma pub_text_line:
  "pub_text s r payload = pub_line s r (length payload) @ payload @ [CR, LF]"
  by (simp add: pub_text_def pub_line_def pub_pieces_def render_all_def split: option.split)

text \<open>The line fits the local array of 576 bytes.\<close>

lemma pub_line_fits:
  assumes "snprintf_ok snpf" and "length s + (case r of Some r \<Rightarrow> length r | None \<Rightarrow> 0) \<le> 512" and "len < 2 ^ 64"
  shows "snpf (512 + 64) (pub_pieces s r len) = pub_line s r len" "length (pub_line s r len) \<le> 576" "pub_line s r len \<noteq> []"
proof -
  show *: "length (pub_line s r len) \<le> 576"
    using assms(2) length_dec_u64 [OF assms(3)]
    by (simp add: pub_line_def pub_pieces_def render_all_def split: option.splits)
  with assms(1) show "snpf (512 + 64) (pub_pieces s r len) = pub_line s r len"
    by (simp add: snprintf_ok_def pub_line_def)
  show "pub_line s r len \<noteq> []" by (simp add: pub_line_def pub_pieces_def render_all_def split: option.splits)
qed

lemma flush_appended:
  assumes "sends_ok e" and "unsent (w_wbuf w)" and "appended w xs v"
  shows "\<exists>w'. flush cb e v = Some w' \<and> out w' = out w @ map Some xs \<and> w_subs w' = w_subs w
    \<and> w_next_id w' = w_next_id w \<and> w_live w' = w_live w \<and> callbacks (w_log w') = callbacks (w_log w)"
proof -
  from assms(3) have "unsent (w_wbuf v)" "out v = out w @ map Some xs" "w_subs v = w_subs w"
    "w_next_id v = w_next_id w" "w_live v = w_live w" "w_log v = w_log w"
    by (auto simp: appended_def out_def)
  with flush_out [OF assms(1) this(1), of cb] show ?thesis by auto
qed

lemma publish_ready:
  assumes "ready w" and "length s + (case r of Some r \<Rightarrow> length r | None \<Rightarrow> 0) \<le> 512"
    and "pub_messages e (e_snpf e (512 + 64) (pub_pieces s r len)) data len w = Some (NGX_OK, v)"
  shows "ngx_nats_publish cb e (Some s) r data len w = do { w \<leftarrow> flush cb e v; Some (NGX_OK, w) }"
  using assms by (simp add: ngx_nats_publish_def ready_def not_less)

text \<open>The three messages of a publish; \<open>len\<close> is 0 when \<open>strlen\<close> finds the end of the payload.\<close>

lemma pub_messages_appended:
  assumes "snprintf_ok (e_snpf e)" and "\<forall>t. e_alloc e t" and "unsent (w_wbuf w)"
    and "length s + (case r of Some r \<Rightarrow> length r | None \<Rightarrow> 0) \<le> 512" and "xs \<noteq> []" and "len < 2 ^ 64"
    and "b_end (w_wbuf w) + length xs + 578 \<le> NGX_NATS_MAX_MESSAGE_SIZE"
    and len: "\<And>v. add_message e data len v = add_message e data (length xs) v"
    and data: "take (length xs) data = xs" "length xs \<le> length data"
  shows "\<exists>v. pub_messages e (e_snpf e (512 + 64) (pub_pieces s r len)) data len w = Some (NGX_OK, v)
    \<and> appended w (pub_line s r len @ xs @ [CR, LF]) v"
proof -
  note line = pub_line_fits [OF assms(1,4,6)]
  let ?h = "pub_line s r len"
  obtain w1 where w1: "add_message e ?h (length ?h) w = Some (NGX_OK, w1)" "appended w ?h w1"
    using add_message_appended [OF assms(3,2), of ?h "length ?h" ?h] line(2,3) assms(7) by auto
  note u1 = appended_end [OF assms(3) w1(2)]
  obtain w2 where w2: "add_message e data (length xs) w1 = Some (NGX_OK, w2)" "appended w1 xs w2"
    using add_message_appended [OF conjunct1 [OF u1] assms(2), of xs "length xs" data] u1 line(2) assms(5,7) data by auto
  note u2 = appended_end [OF conjunct1 [OF u1] w2(2)]
  obtain w3 where w3: "add_message e [CR, LF] 2 w2 = Some (NGX_OK, w3)" "appended w2 [CR, LF] w3"
    using add_message_appended [OF conjunct1 [OF u2] assms(2), of "[CR, LF]" 2 "[CR, LF]"] u1 u2 line(2) assms(7) by auto
  have "pub_messages e (e_snpf e (512 + 64) (pub_pieces s r len)) data len w = Some (NGX_OK, w3)"
    unfolding line(1) pub_messages_def by (simp add: len w1 w2 w3)
  with appended_trans [OF w1(2) appended_trans [OF w2(2) w3(2)]] show ?thesis by blast
qed

text \<open>
  C8: publishing puts exactly the text of the protocol on the wire. On a ready connection whose write
  buffer does not start inside a partly sent message, with a subject and reply-to of together at
  most 512 bytes and a payload that is not empty and fits the 256 MB limit, when no allocation
  fails and no send does and the write event can always be added (\<open>sends_ok\<close>), \<open>ngx_nats_publish\<close>
  succeeds, the bytes sent and still to be sent are those of before followed by the complete PUB
  text (the line is never truncated), and no client is called back. An empty payload is excluded:
  the code takes its length 0 for a request to measure a string (\<open>publish_zero_length\<close>).
\<close>

theorem publish_exact:
  assumes "ready w" and "snprintf_ok (e_snpf e)" and "sends_ok e" and "\<forall>t. e_alloc e t"
    and "unsent (w_wbuf w)" and "length s + (case r of Some r \<Rightarrow> length r | None \<Rightarrow> 0) \<le> 512"
    and "payload \<noteq> []" and "b_end (w_wbuf w) + length payload + 578 \<le> NGX_NATS_MAX_MESSAGE_SIZE"
  shows "\<exists>w'. ngx_nats_publish cb e (Some s) r (payload @ rest) (length payload) w = Some (NGX_OK, w')
    \<and> out w' = out w @ map Some (pub_text s r payload) \<and> callbacks (w_log w') = callbacks (w_log w)"
proof -
  have len: "length payload < 2 ^ 64" using assms(8) by (simp add: NGX_NATS_MAX_MESSAGE_SIZE_def)
  obtain v where v: "pub_messages e (e_snpf e (512 + 64) (pub_pieces s r (length payload))) (payload @ rest) (length payload) w
      = Some (NGX_OK, v)" "appended w (pub_text s r payload) v"
    unfolding pub_text_line
    using pub_messages_appended [OF assms(2,4,5,6,7) len assms(8), of "payload @ rest"] by auto
  from flush_appended [OF assms(3,5) v(2), of cb] publish_ready [OF assms(1,6) v(1), of cb] show ?thesis by auto
qed

definition ready_world :: world where
  "ready_world = (nats_data_init (buf_new 4096) (buf_new 4096))
     \<lparr>w_global := True, w_live := True, w_conn := conn_zero\<lparr>nc_state := NGX_NATS_STATE_READY, nc_fd := True\<rparr>\<rparr>"

lemma ready_world_ok:
  "ready ready_world" "unsent (w_wbuf ready_world)" "b_end (w_wbuf ready_world) = 0" "out ready_world = []"
  "w_next_id ready_world = 0" "w_subs ready_world = []" "b_cap (w_wbuf ready_world) = 4096"
  by (simp_all add: ready_world_def ready_def unsent_def buf_wf_def nats_data_init_def buf_new_def out_def contents_def)

lemma try_env_sends: "snprintf_ok (e_snpf (try_env n rc))" "sends_ok (try_env n rc)" "\<forall>t. e_alloc (try_env n rc) t"
  by (simp_all add: try_env_def sends_ok_def)

theorem publish_exact_witness:
  "\<exists>w'. ngx_nats_publish (\<lambda>c. Some) (try_env 1 NGX_OK) (Some ''foo'') (Some ''bar'') ''hi'' 2 ready_world = Some (NGX_OK, w')
     \<and> out w' = map Some (''PUB foo bar 2'' @ [CR, LF] @ ''hi'' @ [CR, LF])"
proof -
  have c: "length ''foo'' + (case Some ''bar'' of Some r \<Rightarrow> length r | None \<Rightarrow> 0) \<le> 512" "''hi'' \<noteq> []"
    "b_end (w_wbuf ready_world) + length ''hi'' + 578 \<le> NGX_NATS_MAX_MESSAGE_SIZE"
    by (simp_all add: ready_world_ok NGX_NATS_MAX_MESSAGE_SIZE_def)
  have t: "pub_text ''foo'' (Some ''bar'') ''hi'' = ''PUB foo bar 2'' @ [CR, LF] @ ''hi'' @ [CR, LF]"
    by code_simp
  from publish_exact [where cb = "\<lambda>c. Some" and e = "try_env 1 NGX_OK" and rest = "[]",
      OF ready_world_ok(1) try_env_sends ready_world_ok(2) c]
  show ?thesis unfolding t ready_world_ok(4) by (auto simp: numeral_2_eq_2)
qed

text \<open>
  A message of length 0 is sent with a payload. \<open>ngx_nats_add_message\<close> takes the length 0 as a request
  to use \<open>strlen\<close>; publishing with \<open>len = 0\<close> therefore announces 0 bytes and then sends the bytes of
  \<open>data\<close> up to its first zero byte, which the server reads as protocol text.
\<close>

theorem publish_zero_length:
  assumes "ready w" and "snprintf_ok (e_snpf e)" and "sends_ok e" and "\<forall>t. e_alloc e t"
    and "unsent (w_wbuf w)" and "length s + (case r of Some r \<Rightarrow> length r | None \<Rightarrow> 0) \<le> 512"
    and "xs \<noteq> []" and "NUL \<notin> set xs" and "b_end (w_wbuf w) + length xs + 578 \<le> NGX_NATS_MAX_MESSAGE_SIZE"
  shows "\<exists>w'. ngx_nats_publish cb e (Some s) r (xs @ NUL # rest) 0 w = Some (NGX_OK, w')
    \<and> out w' = out w @ map Some (pub_line s r 0 @ xs @ [CR, LF])"
proof -
  have "c_strlen (xs @ NUL # rest) = Some (length xs)"
    using assms(8) by (induction xs) auto
  then have zero: "add_message e (xs @ NUL # rest) 0 v = add_message e (xs @ NUL # rest) (length xs) v" for v
    using assms(7) by (simp add: add_message_def ngx_nats_add_message_def)
  obtain v where v: "pub_messages e (e_snpf e (512 + 64) (pub_pieces s r 0)) (xs @ NUL # rest) 0 w = Some (NGX_OK, v)"
    "appended w (pub_line s r 0 @ xs @ [CR, LF]) v"
    using pub_messages_appended [OF assms(2,4,5,6,7) _ assms(9) zero] by auto
  from flush_appended [OF assms(3,5) v(2), of cb] publish_ready [OF assms(1,6) v(1), of cb] show ?thesis by auto
qed

theorem publish_zero_length_witness:
  "\<exists>w'. ngx_nats_publish (\<lambda>c. Some) (try_env 1 NGX_OK) (Some ''foo'') None (''UNSUB 1'' @ [NUL]) 0 ready_world = Some (NGX_OK, w')
     \<and> out w' = map Some (''PUB foo 0'' @ [CR, LF] @ ''UNSUB 1'' @ [CR, LF])"
proof -
  have c: "length ''foo'' + (case None of Some r \<Rightarrow> length r | None \<Rightarrow> 0) \<le> 512" "''UNSUB 1'' \<noteq> []" "NUL \<notin> set ''UNSUB 1''"
    "b_end (w_wbuf ready_world) + length ''UNSUB 1'' + 578 \<le> NGX_NATS_MAX_MESSAGE_SIZE"
    by (simp_all add: ready_world_ok NGX_NATS_MAX_MESSAGE_SIZE_def)
  have t: "pub_line ''foo'' None 0 = ''PUB foo 0'' @ [CR, LF]" by code_simp
  from publish_zero_length [where cb = "\<lambda>c. Some" and e = "try_env 1 NGX_OK" and rest = "[]",
      OF ready_world_ok(1) try_env_sends ready_world_ok(2) c]
  show ?thesis unfolding t ready_world_ok(4) by simp
qed

section \<open>Subscribing\<close>

definition sub_text :: "bytes \<Rightarrow> nat \<Rightarrow> bytes" where
  "sub_text subject sid = ''SUB '' @ subject @ [SP] @ dec sid @ [CR, LF]"

definition unsub_max_text :: "nat \<Rightarrow> nat \<Rightarrow> bytes" where
  "unsub_max_text sid lim = ''UNSUB '' @ dec sid @ [SP] @ dec lim @ [CR, LF]"

lemma sub_render: "render_all (sub_pieces s sid) = sub_text s (u64 sid)"
  by (simp add: sub_pieces_def sub_text_def render_all_def)

lemma unsub_max_render: "render_all (unsub_max_pieces sid lim) = unsub_max_text (u64 sid) (u64 lim)"
  by (simp add: unsub_max_pieces_def unsub_max_text_def render_all_def)

lemma u64_bound: "u64 i < 2 ^ 64"
  by (simp add: u64_def nat_less_iff)

lemma length_unsub_max: "length (unsub_max_text (u64 i) (u64 j)) \<le> 49"
  using length_dec_u64 [OF u64_bound, of i] length_dec_u64 [OF u64_bound, of j] by (simp add: unsub_max_text_def)

lemma add_header_appended:
  assumes "unsent (w_wbuf w)" and "\<forall>t. e_alloc e t" and "snprintf_ok (e_snpf e)" and "render_all ps \<noteq> []"
    and "b_end (w_wbuf w) + 576 \<le> NGX_NATS_MAX_MESSAGE_SIZE"
  shows "\<exists>w'. add_header e ps w = Some (NGX_OK, w') \<and> appended w (take 576 (render_all ps)) w'"
proof -
  define h where "h = take 576 (render_all ps)"
  have h: "h \<noteq> []" "length h \<le> 576" using assms(4) by (simp_all add: h_def)
  have "e_snpf e (512 + 64) ps = h" using assms(3) by (simp add: snprintf_ok_def h_def)
  with add_message_appended [OF assms(1,2), of h "length h" h] h assms(5) show ?thesis
    by (auto simp: add_header_def h_def [symmetric])
qed

lemma subscribe_parts:
  assumes w: "ready w" "snprintf_ok (e_snpf e)" "sends_ok e" "\<forall>t. e_alloc e t" "unsent (w_wbuf w)"
    and n: "subs_wf (w_next_id w) (w_subs w)" "0 \<le> w_next_id w" "w_next_id w < 2 ^ 63 - 1"
    and room: "b_end (w_wbuf w) + 1200 \<le> NGX_NATS_MAX_MESSAGE_SIZE"
    and xs: "xs = take 576 (sub_text s (u64 (w_next_id w + 1)))
        @ (if lim > 0 then unsub_max_text (u64 (w_next_id w + 1)) (u64 lim) else [])"
  shows "\<exists>w'. ngx_nats_subscribe cb e client s lim handler data w = Some (w_next_id w + 1, w')
    \<and> out w' = out w @ map Some xs \<and> w_next_id w' = w_next_id w + 1
    \<and> lookup_sub (w_subs w') sid = (if sid = w_next_id w + 1
        then Some \<lparr>su_client = client, su_handler = handler, su_data = data, su_sid = w_next_id w + 1,
                   su_max = lim, su_recv = 0\<rparr> else lookup_sub (w_subs w) sid)"
proof -
  let ?sid = "w_next_id w + 1"
  have sid: "s64 ?sid = ?sid" using n by (intro s64_id) auto
  have ok: "e_alloc e t = True" for t using w(4) by simp
  obtain ss where fill: "fill_subscription True (e_junk e) (w_subs w) ?sid client handler data lim = Some ss"
    using fill_total by blast
  note look = fill_wf(2) [OF n(1,2) fill]
  let ?v = "(tick w)\<lparr>w_next_id := ?sid, w_subs := ss\<rparr>"
  have v: "unsent (w_wbuf ?v)" "b_end (w_wbuf ?v) = b_end (w_wbuf w)" "out ?v = out w"
    using w(5) by (simp_all add: tick_def out_def)
  obtain v1 where v1: "add_header e (sub_pieces s ?sid) ?v = Some (NGX_OK, v1)"
    "appended ?v (take 576 (sub_text s (u64 ?sid))) v1"
    using add_header_appended [OF v(1) w(4,2), of "sub_pieces s ?sid"] room v(2) by (auto simp: sub_render sub_text_def)
  note u1 = appended_end [OF v(1) v1(2)]
  obtain v2 where v2: "(if lim > 0 then add_header e (unsub_max_pieces ?sid lim) v1 else Some (NGX_OK, v1)) = Some (NGX_OK, v2)"
    "appended ?v xs v2"
  proof (cases "lim > 0")
    case True
    have "b_end (w_wbuf v1) + 576 \<le> NGX_NATS_MAX_MESSAGE_SIZE" using u1 room v(2) by simp
    with add_header_appended [OF conjunct1 [OF u1] w(4,2), of "unsub_max_pieces ?sid lim"] obtain v2 where
      "add_header e (unsub_max_pieces ?sid lim) v1 = Some (NGX_OK, v2)"
      "appended v1 (take 576 (unsub_max_text (u64 ?sid) (u64 lim))) v2"
      by (auto simp: unsub_max_render unsub_max_text_def)
    with that [of v2] True xs appended_trans [OF v1(2)] length_unsub_max [of ?sid lim] show ?thesis by simp
  next
    case False
    with that [of v1] v1 xs show ?thesis by simp
  qed
  have "ngx_nats_subscribe cb e client s lim handler data w = do { w \<leftarrow> flush cb e v2; Some (?sid, w) }"
    using w(1) fill v1(1) v2(1) sid
    by (simp add: ngx_nats_subscribe_def ready_def Let_def ok tick_def)
  moreover obtain w' where "flush cb e v2 = Some w'" "out w' = out ?v @ map Some xs" "w_subs w' = ss" "w_next_id w' = ?sid"
    using flush_appended [OF w(3) v(1) v2(2), of cb] by auto
  ultimately show ?thesis using look v(3) by auto
qed

text \<open>
  C13: subscribing. On a ready connection whose write buffer does not start inside a partly sent message
  and has 1200 bytes left below the 256 MB limit, with a subject of at most 512 bytes, a
  well-formed table and fewer than \<open>2 ^ 63 - 1\<close> sids given out, when neither sending nor allocating
  fails, \<open>ngx_nats_subscribe\<close> gives out the next sid, sends exactly the SUB line of the protocol,
  followed by the UNSUB line that carries the maximum when there is one, and enters exactly this
  request under that sid in the table; every other sid looks up as before. A longer subject is sent
  truncated (\<open>subscribe_truncates\<close>).
\<close>

theorem subscribe_exact:
  assumes "ready w" and "snprintf_ok (e_snpf e)" and "sends_ok e" and "\<forall>t. e_alloc e t" and "unsent (w_wbuf w)"
    and "subs_wf (w_next_id w) (w_subs w)" and "0 \<le> w_next_id w" and "w_next_id w < 2 ^ 63 - 1"
    and "length s \<le> 512" and "b_end (w_wbuf w) + 1200 \<le> NGX_NATS_MAX_MESSAGE_SIZE" and "n = nat (w_next_id w + 1)"
  shows "\<exists>w'. ngx_nats_subscribe cb e client s lim handler data w = Some (int n, w')
    \<and> out w' = out w @ map Some (sub_text s n @ (if lim > 0 then unsub_max_text n (u64 lim) else []))
    \<and> lookup_sub (w_subs w') (int n) = Some \<lparr>su_client = client, su_handler = handler, su_data = data,
        su_sid = int n, su_max = lim, su_recv = 0\<rparr>
    \<and> (\<forall>sid. sid \<noteq> int n \<longrightarrow> lookup_sub (w_subs w') sid = lookup_sub (w_subs w) sid)"
proof -
  have n: "int n = w_next_id w + 1" "u64 (w_next_id w + 1) = n" using assms(7,8,11) by (simp_all add: u64_nonneg)
  have "length (sub_text s n) \<le> 576" using length_dec_u64 [OF u64_bound, of "w_next_id w + 1"] assms(9) n(2) by (simp add: sub_text_def)
  then have t: "take 576 (sub_text s n) = sub_text s n" by simp
  obtain w' where "ngx_nats_subscribe cb e client s lim handler data w = Some (int n, w')"
    "out w' = out w @ map Some (sub_text s n @ (if lim > 0 then unsub_max_text n (u64 lim) else []))" using subscribe_parts [OF assms(1-8,10) refl, of cb client s lim handler data 0] n t by auto
  moreover have "lookup_sub (w_subs w') sid = (if sid = int n
        then Some \<lparr>su_client = client, su_handler = handler, su_data = data, su_sid = int n,
                   su_max = lim, su_recv = 0\<rparr> else lookup_sub (w_subs w) sid)" for sid
    using subscribe_parts [OF assms(1-8,10) refl, of cb client s lim handler data sid] calculation(1) n(1) by auto
  ultimately show ?thesis by auto
qed

theorem subscribe_exact_witness:
  "\<exists>w'. ngx_nats_subscribe (\<lambda>c. Some) (try_env 1 NGX_OK) 7 ''foo'' 3 8 9 ready_world = Some (1, w')
     \<and> out w' = map Some (''SUB foo 1'' @ [CR, LF] @ ''UNSUB 1 3'' @ [CR, LF])"
proof -
  have c: "subs_wf (w_next_id ready_world) (w_subs ready_world)" "0 \<le> w_next_id ready_world" "w_next_id ready_world < 2 ^ 63 - 1"
    "length ''foo'' \<le> 512" "b_end (w_wbuf ready_world) + 1200 \<le> NGX_NATS_MAX_MESSAGE_SIZE"
    "1 = nat (w_next_id ready_world + 1)"
    by (simp_all add: ready_world_ok NGX_NATS_MAX_MESSAGE_SIZE_def subs_wf_def)
  have "u64 3 = 3" by (simp add: u64_nonneg)
  moreover have "sub_text ''foo'' 1 @ unsub_max_text 1 3 = ''SUB foo 1'' @ [CR, LF] @ ''UNSUB 1 3'' @ [CR, LF]" by code_simp
  ultimately show ?thesis
    using subscribe_exact [where cb = "\<lambda>c. Some" and e = "try_env 1 NGX_OK" and client = 7 and lim = 3 and handler = 8 and data = 9,
        OF ready_world_ok(1) try_env_sends ready_world_ok(2) c] ready_world_ok(4) by auto
qed

text \<open>
  A long subject is cut in the middle. Unlike publishing, subscribing does not check the length of the
  subject. When it has 572 bytes or more, the SUB line is cut at 576 bytes: what is sent is \<open>SUB \<close>
  and the first 572 bytes of the subject, without sid and without a line break, so that the next
  message continues this line; the caller gets a sid as if all was well.
\<close>

theorem subscribe_truncates:
  assumes "ready w" and "snprintf_ok (e_snpf e)" and "sends_ok e" and "\<forall>t. e_alloc e t" and "unsent (w_wbuf w)"
    and "subs_wf (w_next_id w) (w_subs w)" and "0 \<le> w_next_id w" and "w_next_id w < 2 ^ 63 - 1"
    and "572 \<le> length s" and "b_end (w_wbuf w) + 1200 \<le> NGX_NATS_MAX_MESSAGE_SIZE"
  shows "\<exists>w'. ngx_nats_subscribe cb e client s 0 handler data w = Some (w_next_id w + 1, w')
    \<and> out w' = out w @ map Some (''SUB '' @ take 572 s)"
proof -
  have "take 576 (sub_text s n) = ''SUB '' @ take 572 s" for n
    using assms(9) by (simp add: sub_text_def)
  with subscribe_parts [OF assms(1-8,10) refl, of cb client s 0 handler data 0] show ?thesis by auto
qed

theorem subscribe_truncates_witness:
  "\<exists>w'. ngx_nats_subscribe (\<lambda>c. Some) (try_env 1 NGX_OK) 7 (replicate 600 (CHR ''a'')) 0 8 9 ready_world = Some (1, w')
     \<and> out w' = map Some (''SUB '' @ replicate 572 (CHR ''a''))"
proof -
  have c: "subs_wf (w_next_id ready_world) (w_subs ready_world)" "0 \<le> w_next_id ready_world" "w_next_id ready_world < 2 ^ 63 - 1"
    "572 \<le> length (replicate 600 (CHR ''a''))" "b_end (w_wbuf ready_world) + 1200 \<le> NGX_NATS_MAX_MESSAGE_SIZE"
    by (simp_all add: ready_world_ok NGX_NATS_MAX_MESSAGE_SIZE_def subs_wf_def)
  have "take 572 (replicate 600 (CHR ''a'')) = replicate 572 (CHR ''a'')" by (simp only: take_replicate) simp
  then show ?thesis
    using subscribe_truncates [where cb = "\<lambda>c. Some" and e = "try_env 1 NGX_OK" and client = 7 and handler = 8 and data = 9,
        OF ready_world_ok(1) try_env_sends ready_world_ok(2) c] ready_world_ok(4,5) by auto
qed

section \<open>Errors\<close>

lemma add_message_fails:
  assumes "unsent b" and "b_cap b < b_end b + sz" and "0 < sz" and "b_end b + sz \<le> 2 ^ 63"
  shows "ngx_nats_add_message False b message sz = Some (NGX_ERROR, b)"
proof -
  have b: "b_pos b = 0" "0 < b_cap b" "b_end b \<le> b_cap b" using assms(1) by (auto simp: unsent_def buf_wf_def)
  have mod: "(b_end b + sz) mod 2 ^ 64 = b_end b + sz" using assms(4) by simp
  have "ngx_nats_buf_ensure False b sz 1 = Some (NGX_ERROR, b)"
  proof (cases "NGX_NATS_MAX_MESSAGE_SIZE \<le> b_cap b")
    case True
    with b assms(2) show ?thesis by (auto simp: ngx_nats_buf_ensure_def Let_def)
  next
    case False
    then have "b_cap b * 2 mod 2 ^ 64 = b_cap b * 2" by (simp add: NGX_NATS_MAX_MESSAGE_SIZE_def)
    with buf_grow_Some [of "b_cap b * 2" "b_end b + sz"] b assms(4) obtain r
      where "buf_grow (b_cap b * 2 mod 2 ^ 64) ((b_end b + sz) mod 2 ^ 64) = Some r" unfolding mod by auto
    with False b assms(2) show ?thesis by (auto simp: ngx_nats_buf_ensure_def Let_def)
  qed
  with assms(3) show ?thesis by (simp add: ngx_nats_add_message_def)
qed

text \<open>
  A failed publish leaves half a message behind. When the line of a PUB fits the write buffer but there
  is no memory for its payload, \<open>ngx_nats_publish\<close> returns an error and the line stays in the buffer:
  the server will take the next bytes of the stream as the payload.
\<close>

theorem publish_failure_leaves_line:
  assumes "ready w" and "snprintf_ok (e_snpf e)" and "unsent (w_wbuf w)"
    and "length s + (case r of Some r \<Rightarrow> length r | None \<Rightarrow> 0) \<le> 512" and "len < 2 ^ 62"
    and "b_end (w_wbuf w) + length (pub_line s r len) \<le> b_cap (w_wbuf w)" and "b_cap (w_wbuf w) < 2 ^ 62"
    and "b_cap (w_wbuf w) < b_end (w_wbuf w) + length (pub_line s r len) + len"
    and "\<not> e_alloc e (w_tick w + 1)"
  shows "\<exists>w'. ngx_nats_publish cb e (Some s) r data len w = Some (NGX_ERROR, w')
    \<and> out w' = out w @ map Some (pub_line s r len)"
proof -
  let ?h = "pub_line s r len"
  have len: "len < 2 ^ 64" using assms(5) by simp
  note line = pub_line_fits [OF assms(2,4) len]
  have wf: "buf_wf (w_wbuf w)" "b_pos (w_wbuf w) = 0" "0 < b_cap (w_wbuf w)" using assms(3) by (simp_all add: unsent_def)
  have "length ?h \<le> usub (b_cap (w_wbuf w)) (b_end (w_wbuf w))" using assms(6) by simp
  then have ens: "ngx_nats_buf_ensure ok (w_wbuf w) (length ?h) 1 = Some (NGX_OK, w_wbuf w)" for ok
    using wf by (simp add: ngx_nats_buf_ensure_def Let_def)
  obtain m where m: "mem_put (b_buf (w_wbuf w)) (b_end (w_wbuf w)) (map Some ?h) = Some m"
    and b: "buf_wf ((w_wbuf w)\<lparr>b_buf := m, b_end := b_end (w_wbuf w) + length ?h\<rparr>)"
      "contents ((w_wbuf w)\<lparr>b_buf := m, b_end := b_end (w_wbuf w) + length ?h\<rparr>) = contents (w_wbuf w) @ ?h"
    using put_at_end [OF wf(1) assms(6)] by blast
  define c where "c = (w_wbuf w)\<lparr>b_buf := m, b_end := b_end (w_wbuf w) + length ?h\<rparr>"
  have c: "unsent c" "contents c = contents (w_wbuf w) @ ?h" "b_end c = b_end (w_wbuf w) + length ?h" "b_cap c = b_cap (w_wbuf w)"
    using b wf by (simp_all add: unsent_def c_def)
  have add1: "add_message e ?h (length ?h) w = Some (NGX_OK, (tick w)\<lparr>w_wbuf := c\<rparr>)"
    using ens m line(3) by (simp add: add_message_def ngx_nats_add_message_def mem_get_def c_def)
  have n: "0 < len" "b_end c + len \<le> 2 ^ 63" "b_cap c < b_end c + len" using assms(5-8) c by auto
  have add2: "add_message e data len ((tick w)\<lparr>w_wbuf := c\<rparr>) = Some (NGX_ERROR, (tick (tick w))\<lparr>w_wbuf := c\<rparr>)"
    using add_message_fails [OF c(1) n(3,1,2)] assms(9) by (simp add: add_message_def tick_def)
  have "pub_messages e (e_snpf e (512 + 64) (pub_pieces s r len)) data len w = Some (NGX_ERROR, (tick (tick w))\<lparr>w_wbuf := c\<rparr>)"
    unfolding line(1) pub_messages_def by (simp add: add1 add2)
  moreover have "out ((tick (tick w))\<lparr>w_wbuf := c\<rparr>) = out w @ map Some ?h"
    using c(2) by (simp add: out_def tick_def)
  ultimately show ?thesis using assms(1,4) by (simp add: ngx_nats_publish_def ready_def not_less)
qed

theorem publish_failure_leaves_line_witness:
  "\<exists>w'. ngx_nats_publish (\<lambda>c. Some) ((try_env 1 NGX_OK)\<lparr>e_alloc := \<lambda>t. False\<rparr>) (Some ''foo'') None [] 5000 ready_world
       = Some (NGX_ERROR, w') \<and> out w' = map Some (''PUB foo 5000'' @ [CR, LF])"
proof -
  let ?e = "(try_env 1 NGX_OK)\<lparr>e_alloc := \<lambda>t. False\<rparr>"
  have t: "pub_line ''foo'' None 5000 = ''PUB foo 5000'' @ [CR, LF]"
    by (simp add: pub_line_def pub_pieces_def render_all_def dec.simps digit_def char_of_def)
  have c: "snprintf_ok (e_snpf ?e)" "length ''foo'' + (case None of Some r \<Rightarrow> length r | None \<Rightarrow> 0) \<le> 512"
    "(5000 :: nat) < 2 ^ 62" "b_end (w_wbuf ready_world) + length (pub_line ''foo'' None 5000) \<le> b_cap (w_wbuf ready_world)"
    "b_cap (w_wbuf ready_world) < 2 ^ 62" "b_cap (w_wbuf ready_world) < b_end (w_wbuf ready_world) + length (pub_line ''foo'' None 5000) + 5000"
    "\<not> e_alloc ?e (w_tick ready_world + 1)"
    unfolding t by (simp_all add: try_env_def ready_world_ok)
  from publish_failure_leaves_line [OF ready_world_ok(1) c(1) ready_world_ok(2) c(2-7), of "\<lambda>c. Some" "[]"]
  show ?thesis unfolding t ready_world_ok(4) by simp
qed

end
