(* ===== verification/Nats_Close.thy ===== *)
theory Nats_Close
  imports "HOL-Library.Word" Nats_Publish Nats_Read
begin

text \<open>
  What closing a connection does to the clients. A close of a ready connection calls the
  \<open>disconnected\<close> callback of every client once, in the order of their registration. But the read path
  closes twice after an error, and a client that publishes in the callback is called again from
  within, because the connection still counts as ready.
\<close>

definition disconnects :: "ngx_nats_client list \<Rightarrow> callback list" where
  "disconnects cs = map (\<lambda>c. Disconnected (cl_id c)) (filter cl_disconnected cs)"

text \<open>Clients that make no calls in their callbacks.\<close>

definition no_calls :: "callback \<Rightarrow> step" where
  "no_calls c w = Some w"

lemma each_no_calls:
  "each_client (\<lambda>c w. if cl_disconnected c then call no_calls (Disconnected (cl_id c)) w else Some w) cs w
     = Some (w\<lparr>w_log := w_log w @ map Callback (disconnects cs)\<rparr>)"
  by (induction cs arbitrary: w) (simp_all add: call_def no_calls_def emit_def disconnects_def)

lemma callbacks_map [simp]: "callbacks (map Callback cs) = cs"
  by (induction cs) simp_all

lemma attempts_map [simp]: "attempts (map Callback cs) = []"
  by (induction cs) simp_all

lemma close_no_calls:
  assumes "nc_state (w_conn w) = NGX_NATS_STATE_READY"
  shows "ngx_nats_close_connection no_calls recon reason 1 w =
     (let v = forget_connection ((hang_up w)\<lparr>w_log := w_log w @ map Callback (disconnects (w_clients w))\<rparr>) in
      if reason = NGX_NATS_REASON_DISCONNECTED then recon v else Some (ngx_nats_add_reconnect_timer v))"
proof -
  have "NGX_NATS_STATE_READY AND NGX_NATS_STATE_BYTES_EXCHANGED \<noteq> 0" by (simp add: states)
  moreover have "w_clients (hang_up w) = w_clients w" "w_log (hang_up w) = w_log w" "nc_state (w_conn (hang_up w)) = nc_state (w_conn w)"
    by (simp_all add: hang_up_def upd_conn_def)
  ultimately show ?thesis
    using assms by (simp add: ngx_nats_close_connection_def Let_def each_no_calls)
qed

text \<open>
  C20: closing a ready connection, for clients that make no calls when they are told, an environment that
  behaves as documented and allocations that succeed. Every client with a \<open>disconnected\<close> callback is
  called exactly once, in the order of registration, and the clients stay registered. When the
  reason is that NATS disconnected, the module goes on at once with the servers after the current
  one and ends with a connection or the reconnect timer; for every other reason the subscriptions
  are gone, their ids start again at 1, the connection is forgotten, no server is tried and the
  reconnect timer is set.
\<close>

theorem close_notifies:
  assumes "env_ok e" and "\<forall>t. e_alloc e t" and "world_ok e w" and "nc_state (w_conn w) = NGX_NATS_STATE_READY"
  shows "\<exists>w' evs. close_connection no_calls e reason 1 w = Some w' \<and> w_log w' = w_log w @ evs
    \<and> callbacks evs = disconnects (w_clients w) \<and> w_clients w' = w_clients w
    \<and> (reason \<noteq> NGX_NATS_REASON_DISCONNECTED \<longrightarrow> w_subs w' = [] \<and> w_next_id w' = 0
         \<and> \<not> w_live w' \<and> w_rec_timer w' \<and> attempts evs = [])
    \<and> (reason = NGX_NATS_REASON_DISCONNECTED \<longrightarrow> (\<exists>m. attempts evs = [nat (w_curr w + 1)..<m]) \<and> settled w')"
proof -
  let ?v = "forget_connection ((hang_up w)\<lparr>w_log := w_log w @ map Callback (disconnects (w_clients w))\<rparr>)"
  have v: "world_ok e (?v\<lparr>w_rec_timer := False\<rparr>)"
    using forget_ok [of e "hang_up w"] assms(3)
    by (simp add: world_ok_def forget_connection_def hang_up_def upd_conn_def)
  have f: "w_log ?v = w_log w @ map Callback (disconnects (w_clients w))" "w_clients ?v = w_clients w"
    "w_subs ?v = []" "w_next_id ?v = 0" "\<not> w_live ?v" "w_curr ?v = w_curr w"
    by (simp_all add: forget_connection_def hang_up_def upd_conn_def)
  show ?thesis
  proof (cases "reason = NGX_NATS_REASON_DISCONNECTED")
    case True
    obtain w' where w': "ngx_nats_connect no_calls e (?v\<lparr>w_rec_timer := False\<rparr>) = Some w'"
      "connect_result e (?v\<lparr>w_rec_timer := False\<rparr>) w'"
      using connect_ok [OF assms(1,2) v] by (rule postE)
    then have "close_connection no_calls e reason 1 w = Some w'"
      using True by (simp add: close_connection_def close_no_calls [OF assms(4)] Let_def reconnect_def
          ngx_nats_process_reconnect_def)
    moreover obtain evs m where "w_log w' = w_log ?v @ evs" "callbacks evs = []" "attempts evs = [nat (w_curr w + 1)..<m]"
      "w_clients w' = w_clients w"
      using w'(2) f by (auto simp: connect_result_def)
    ultimately show ?thesis using True f connect_result_settled [OF w'(2)]
      by (intro exI [of _ w'] exI [of _ "map Callback (disconnects (w_clients w)) @ evs"]) auto
  next
    case False
    then have "close_connection no_calls e reason 1 w = Some (ngx_nats_add_reconnect_timer ?v)"
      by (simp add: close_connection_def close_no_calls [OF assms(4)] Let_def)
    with False f show ?thesis by (auto simp: ngx_nats_add_reconnect_timer_def)
  qed
qed

theorem close_notifies_witness:
  "\<exists>w' evs. close_connection no_calls (try_env 1 NGX_OK) NGX_NATS_REASON_BAD_PROTOCOL 1
       (ready_world\<lparr>w_clients := [\<lparr>cl_id = 4, cl_disconnected = True\<rparr>, \<lparr>cl_id = 5, cl_disconnected = False\<rparr>]\<rparr>) = Some w'
     \<and> w_log w' = evs \<and> callbacks evs = [Disconnected 4] \<and> w_rec_timer w'"
proof -
  let ?e = "try_env 1 NGX_OK" and ?cs = "[\<lparr>cl_id = 4, cl_disconnected = True\<rparr>, \<lparr>cl_id = 5, cl_disconnected = False\<rparr>]"
  let ?w = "ready_world\<lparr>w_clients := ?cs\<rparr>"
  have e: "env_ok ?e" by (rule try_env_ok) simp_all
  have al: "\<forall>t. e_alloc ?e t" by (simp add: try_env_def)
  have w: "world_ok ?e ?w" using init_world_ok [of 4096 4096 ?e] by (simp add: world_ok_def ready_world_def)
  have s: "nc_state (w_conn ?w) = NGX_NATS_STATE_READY" by (simp add: ready_world_def)
  have "w_log ?w = []" "disconnects ?cs = [Disconnected 4]" "NGX_NATS_REASON_BAD_PROTOCOL \<noteq> NGX_NATS_REASON_DISCONNECTED"
    by (simp_all add: ready_world_def nats_data_init_def disconnects_def reasons)
  with close_notifies [OF e al w s, of NGX_NATS_REASON_BAD_PROTOCOL] show ?thesis by auto
qed

section \<open>A client that publishes in its callback\<close>

definition publish_on_disconnect :: "bytes \<Rightarrow> bytes \<Rightarrow> callback \<Rightarrow> world \<Rightarrow> client_call list" where
  "publish_on_disconnect s payload c w =
     (case c of Disconnected i \<Rightarrow> [Publish (Some s) None payload (length payload)] | _ \<Rightarrow> [])"

text \<open>The bytes that one such publish puts into the write buffer.\<close>

abbreviation pub_size :: "bytes \<Rightarrow> bytes \<Rightarrow> nat" where
  "pub_size s payload \<equiv> length (pub_text s None payload)"

text \<open>
  C40: a client that publishes when it is told of the disconnection makes the module recurse. While the
  \<open>disconnected\<close> callbacks run, the connection still counts as ready and its socket is closed; a
  publish in the callback fails to send, which closes the connection again, which calls the callback
  again. The nesting exceeds every depth \<open>k\<close> for which the messages of \<open>k + 1\<close> publishes fit the
  256 MB limit of the write buffer.
\<close>

theorem disconnected_publish_recurses:
  assumes "snprintf_ok (e_snpf e)" and "\<forall>t. e_alloc e t" and "\<forall>t n. e_send e t n = NGX_ERROR"
    and "ready w" and "unsent (w_wbuf w)" and "w_clients w = [c]" and "cl_disconnected c"
    and "length s \<le> 512" and "payload \<noteq> []"
    and "b_end (w_wbuf w) + k * pub_size s payload + length payload + 578 \<le> NGX_NATS_MAX_MESSAGE_SIZE"
  shows "close_connection (client_cb (publish_on_disconnect s payload) e k) e reason 1 w = None"
  using assms(4-7,10)
proof (induction k arbitrary: w reason)
  case 0
  then show ?case
    by (simp add: close_connection_def ngx_nats_close_connection_def Let_def ready_def hang_up_def upd_conn_def states call_def)
next
  case (Suc k)
  let ?cb = "client_cb (publish_on_disconnect s payload) e"
  define v where "v = emit (Callback (Disconnected (cl_id c))) (hang_up w)"
  have v: "ready v" "unsent (w_wbuf v)" "w_wbuf v = w_wbuf w" "w_clients v = [c]"
    using Suc.prems by (simp_all add: v_def emit_def hang_up_def upd_conn_def ready_def)
  have len: "length payload < 2 ^ 64" using Suc.prems(5) by (simp add: NGX_NATS_MAX_MESSAGE_SIZE_def)
  have room: "b_end (w_wbuf v) + length payload + 578 \<le> NGX_NATS_MAX_MESSAGE_SIZE" using Suc.prems(5) v(3) by simp
  obtain u where u: "pub_messages e (e_snpf e (512 + 64) (pub_pieces s None (length payload))) payload (length payload) v = Some (NGX_OK, u)"
    "appended v (pub_text s None payload) u"
    unfolding pub_text_line
    using pub_messages_appended [OF assms(1,2) v(2) _ assms(9) len room, of s None payload] assms(8) by auto
  have b: "unsent (w_wbuf u)" "b_end (w_wbuf u) = b_end (w_wbuf w) + pub_size s payload"
    using appended_end [OF v(2) u(2)] v(3) by simp_all
  have "ready (tick u)" "unsent (w_wbuf (tick u))" "w_clients (tick u) = [c]"
    "b_end (w_wbuf (tick u)) + k * pub_size s payload + length payload + 578 \<le> NGX_NATS_MAX_MESSAGE_SIZE"
    using u(2) v b Suc.prems(5) by (auto simp: appended_def ready_def tick_def)
  from Suc.IH [OF this(1,2,3) assms(7) this(4)]
  have IH: "close_connection (?cb k) e NGX_NATS_REASON_DISCONNECTED 1 (tick u) = None" .
  have "b_pos (w_wbuf u) = 0" "b_end (w_wbuf u) \<noteq> 0" "b_end (w_wbuf u) \<le> length (b_buf (w_wbuf u))"
    using b by (auto simp: unsent_def buf_wf_def pub_text_def)
  then have "flush (?cb k) e u = None"
    using IH assms(3) by (simp add: flush_def ngx_nats_flush_def Let_def mem_get_def close_connection_def)
  moreover have "length s + (case None of Some r \<Rightarrow> length r | None \<Rightarrow> 0) \<le> 512" using assms(8) by simp
  ultimately have "ngx_nats_publish (?cb k) e (Some s) None payload (length payload) v = None"
    using publish_ready [OF v(1) _ u(1), of "?cb k"] by simp
  then have "call (?cb (Suc k)) (Disconnected (cl_id c)) (hang_up w) = None"
    by (simp add: call_def v_def [symmetric] publish_on_disconnect_def)
  then show ?case
    using Suc.prems(1,3,4) by (simp add: close_connection_def ngx_nats_close_connection_def Let_def ready_def
        hang_up_def upd_conn_def states del: client_cb.simps)
qed

theorem disconnected_publish_recurses_witness:
  "close_connection (client_cb (publish_on_disconnect ''foo'' ''bye'') ((try_env 1 NGX_OK)\<lparr>e_send := \<lambda>t n. NGX_ERROR\<rparr>) 1000000)
     ((try_env 1 NGX_OK)\<lparr>e_send := \<lambda>t n. NGX_ERROR\<rparr>) NGX_NATS_REASON_DISCONNECTED 1
     (ready_world\<lparr>w_clients := [\<lparr>cl_id = 4, cl_disconnected = True\<rparr>]\<rparr>) = None"
proof -
  let ?e = "(try_env 1 NGX_OK)\<lparr>e_send := \<lambda>t n. NGX_ERROR\<rparr>" and ?w = "ready_world\<lparr>w_clients := [\<lparr>cl_id = 4, cl_disconnected = True\<rparr>]\<rparr>"
  have sz: "pub_size ''foo'' ''bye'' = 16" by code_simp
  show ?thesis
  proof (rule disconnected_publish_recurses)
    show "b_end (w_wbuf ?w) + 1000000 * pub_size ''foo'' ''bye'' + length ''bye'' + 578 \<le> NGX_NATS_MAX_MESSAGE_SIZE"
      unfolding sz by (simp add: ready_world_ok NGX_NATS_MAX_MESSAGE_SIZE_def)
    show "w_clients ?w = [\<lparr>cl_id = 4, cl_disconnected = True\<rparr>]" by simp
    show "ready ?w" "unsent (w_wbuf ?w)" using ready_world_ok(1,2) by (simp_all add: ready_def)
  qed (simp_all add: try_env_def)
qed

end
