(* ===== verification/Nats_Blind.thy ===== *)
theory Nats_Blind
  imports "HOL-Library.Word" Nats_Publish Nats_Read
begin

text \<open>
  Code that does not touch the read buffer. The read path hands messages to the clients while they
  lie in the read buffer, and advances \<open>pos\<close> afterwards; that is right as long as what the clients
  do neither uses nor changes the buffer. \<open>blind\<close> is that condition, the locale \<open>blind_callbacks\<close> the
  contract for callbacks, and its interpretation \<open>history\<close> shows that it holds for clients that react
  to the callbacks they have seen with any calls of the client functions, as long as sending does
  not fail (a failure closes the connection, which resets the buffer).
\<close>

section \<open>Functions that leave the read buffer alone\<close>

abbreviation set_rbuf :: "ngx_nats_buf \<Rightarrow> world \<Rightarrow> world" where
  "set_rbuf b w \<equiv> w\<lparr>w_rbuf := b\<rparr>"

definition blind :: "step \<Rightarrow> bool" where
  "blind f \<longleftrightarrow> (\<forall>w b. f (set_rbuf b w) = map_option (set_rbuf b) (f w))"

definition blind2 :: "(world \<Rightarrow> ('a \<times> world) option) \<Rightarrow> bool" where
  "blind2 f \<longleftrightarrow> (\<forall>w b. f (set_rbuf b w) = map_option (apsnd (set_rbuf b)) (f w))"

lemma blindD: "blind f \<Longrightarrow> f (set_rbuf b w) = map_option (set_rbuf b) (f w)"
  and blind2D: "blind2 g \<Longrightarrow> g (set_rbuf b w) = map_option (apsnd (set_rbuf b)) (g w)"
  by (simp_all add: blind_def blind2_def)

lemma set_rbuf_through [simp]:
  "tick (set_rbuf b w) = set_rbuf b (tick w)" "emit ev (set_rbuf b w) = set_rbuf b (emit ev w)"
  "upd_conn f (set_rbuf b w) = set_rbuf b (upd_conn f w)"
  "ngx_nats_check_connected (set_rbuf b w) = set_rbuf b (ngx_nats_check_connected w)"
  by (simp_all add: tick_def emit_def upd_conn_def ngx_nats_check_connected_def)

lemma bind_map_option: "Option.bind (map_option g x) f = Option.bind x (\<lambda>y. f (g y))"
  by (cases x) simp_all

lemma map_bind_option: "map_option g (Option.bind x f) = Option.bind x (\<lambda>y. map_option g (f y))"
  by (cases x) simp_all

lemma bind_commute:
  assumes "x' = map_option g x" and "\<And>y. x = Some y \<Longrightarrow> f' (g y) = map_option h (f y)"
  shows "Option.bind x' f' = map_option h (Option.bind x f)"
  using assms by (cases x) simp_all

lemma bind_commute2:
  assumes "x' = map_option (apsnd g) x" and "\<And>rc v. x = Some (rc, v) \<Longrightarrow> f' rc (g v) = map_option h (f rc v)"
  shows "do { (rc, v) \<leftarrow> x'; f' rc v } = map_option h (do { (rc, v) \<leftarrow> x; f rc v })"
  using assms by (cases x) auto

lemma if_commute:
  "(c \<Longrightarrow> a' = map_option h a) \<Longrightarrow> (\<not> c \<Longrightarrow> d' = map_option h d) \<Longrightarrow>
     (if c then a' else d') = map_option h (if c then a else d)"
  by simp

lemma option_commute:
  "(r = None \<Longrightarrow> a' = map_option h a) \<Longrightarrow> (\<And>x. r = Some x \<Longrightarrow> f' x = map_option h (f x)) \<Longrightarrow>
     (case r of None \<Rightarrow> a' | Some x \<Rightarrow> f' x) = map_option h (case r of None \<Rightarrow> a | Some x \<Rightarrow> f x)"
  by (cases r) simp_all

lemma add_message_blind: "blind2 (add_message e m sz)"
  by (auto simp: blind2_def add_message_def map_bind_option split: option.split intro!: Option.bind_cong)

lemmas add_message_rbuf = blind2D [OF add_message_blind]

lemma add_header_rbuf: "add_header e ps (set_rbuf b w) = map_option (apsnd (set_rbuf b)) (add_header e ps w)"
  by (simp add: add_header_def Let_def add_message_rbuf)

text \<open>A flush only closes the connection when sending fails.\<close>

lemma flush_rbuf:
  assumes "sends_ok e"
  shows "flush cb e (set_rbuf b w) = map_option (set_rbuf b) (flush cb e w)"
proof -
  have e: "e_send e t n \<noteq> NGX_ERROR" "e_write_event e t = NGX_OK" for t n using assms by (simp_all add: sends_ok_def)
  have w: "(set_rbuf b w)\<lparr>w_wbuf := c\<rparr> = set_rbuf b (w\<lparr>w_wbuf := c\<rparr>)" for w c by simp
  show ?thesis
    unfolding flush_def ngx_nats_flush_def Let_def
    by (simp add: e map_bind_option w del: usub_le) (auto intro!: Option.bind_cong simp: e w simp del: usub_le)
qed

lemma pub_messages_rbuf:
  "pub_messages e header data len (set_rbuf b w) = map_option (apsnd (set_rbuf b)) (pub_messages e header data len w)"
  unfolding pub_messages_def
  by (intro bind_commute2 [where g = "set_rbuf b"] if_commute add_message_rbuf) simp_all

lemma flush_then_rbuf:
  assumes "sends_ok e"
  shows "do { v \<leftarrow> flush cb e (set_rbuf b w); Some (rc, v) } = map_option (apsnd (set_rbuf b)) (do { v \<leftarrow> flush cb e w; Some (rc, v) })"
  by (rule bind_commute [OF flush_rbuf [OF assms]]) simp

lemma publish_rbuf:
  assumes "sends_ok e"
  shows "ngx_nats_publish cb e s r data len (set_rbuf b w) = map_option (apsnd (set_rbuf b)) (ngx_nats_publish cb e s r data len w)"
  unfolding ngx_nats_publish_def
  by (simp, intro impI option_commute if_commute bind_commute2 [where g = "set_rbuf b"] pub_messages_rbuf flush_then_rbuf [OF assms]) simp_all

lemma unsubscribe_rbuf:
  assumes "sends_ok e"
  shows "ngx_nats_unsubscribe cb e sid (set_rbuf b w) = map_option (apsnd (set_rbuf b)) (ngx_nats_unsubscribe cb e sid w)"
proof -
  have w: "(set_rbuf b w)\<lparr>w_subs := c\<rparr> = set_rbuf b (w\<lparr>w_subs := c\<rparr>)" for w c by simp
  show ?thesis
    unfolding ngx_nats_unsubscribe_def Let_def
    by (cases "ngx_nats_remove_subscription (w_subs w) sid")
      (simp add: w, intro impI if_commute bind_commute2 [where g = "set_rbuf b"] add_header_rbuf flush_then_rbuf [OF assms], simp_all)
qed

lemma subscribe_rbuf:
  assumes "sends_ok e"
  shows "ngx_nats_subscribe cb e client s lim handler data (set_rbuf b w)
    = map_option (apsnd (set_rbuf b)) (ngx_nats_subscribe cb e client s lim handler data w)"
proof -
  have w: "(set_rbuf b w)\<lparr>w_subs := c\<rparr> = set_rbuf b (w\<lparr>w_subs := c\<rparr>)"
    "(set_rbuf b w)\<lparr>w_next_id := n\<rparr> = set_rbuf b (w\<lparr>w_next_id := n\<rparr>)" for w c n by simp_all
  have max: "(if lim > 0 then add_header e ps (set_rbuf b v) else Some (NGX_OK, set_rbuf b v))
      = map_option (apsnd (set_rbuf b)) (if lim > 0 then add_header e ps v else Some (NGX_OK, v))" for ps v
    by (rule if_commute [OF add_header_rbuf]) simp
  show ?thesis
    unfolding ngx_nats_subscribe_def Let_def
    by (simp add: w cong: if_cong option.case_cong, intro impI option_commute if_commute
        bind_commute2 [where g = "set_rbuf b"] add_header_rbuf max flush_then_rbuf [OF assms])
      (simp_all add: w)
qed

section \<open>The contract\<close>

locale blind_callbacks =
  fixes e :: env and cb :: "callback \<Rightarrow> step"
  assumes cb_blind: "sends_ok e \<Longrightarrow> blind (cb c)"
begin

lemma call_rbuf: "sends_ok e \<Longrightarrow> call cb c (set_rbuf b w) = map_option (set_rbuf b) (call cb c w)"
  using blindD [OF cb_blind] by (simp add: call_def)

lemma each_rbuf:
  "sends_ok e \<Longrightarrow> each_client (\<lambda>c. call cb (k c)) cs (set_rbuf b w) = map_option (set_rbuf b) (each_client (\<lambda>c. call cb (k c)) cs w)"
  by (induction cs arbitrary: w) (simp_all add: call_rbuf bind_map_option map_bind_option)

lemma add_client_rbuf:
  assumes "sends_ok e"
  shows "ngx_nats_add_client cb e client (set_rbuf b w) = map_option (apsnd (set_rbuf b)) (ngx_nats_add_client cb e client w)"
proof -
  have w: "(set_rbuf b w)\<lparr>w_clients := c\<rparr> = set_rbuf b (w\<lparr>w_clients := c\<rparr>)" for w c by simp
  show ?thesis
    unfolding ngx_nats_add_client_def Let_def
    by (simp add: w call_rbuf [OF assms] bind_map_option map_bind_option)
qed

lemma run_call_rbuf:
  "sends_ok e \<Longrightarrow> run_call cb e c (set_rbuf b w) = map_option (apsnd (set_rbuf b)) (run_call cb e c w)"
  by (cases c) (simp_all add: add_client_rbuf publish_rbuf subscribe_rbuf unsubscribe_rbuf)

lemma run_calls_rbuf:
  assumes "sends_ok e"
  shows "run_calls cb e cs (set_rbuf b w) = map_option (set_rbuf b) (run_calls cb e cs w)"
proof (induction cs arbitrary: w)
  case (Cons c cs)
  show ?case
    unfolding run_calls.simps by (intro bind_commute2 [where g = "set_rbuf b"] run_call_rbuf [OF assms] Cons.IH)
qed simp

end

text \<open>Clients that answer a callback with calls that depend on the callbacks so far.\<close>

definition history_cb :: "(callback \<Rightarrow> callback list \<Rightarrow> client_call list) \<Rightarrow> env \<Rightarrow> nat \<Rightarrow> callback \<Rightarrow> step" where
  "history_cb prog = client_cb (\<lambda>c w. prog c (callbacks (w_log w)))"

lemma history_blind: "sends_ok e \<Longrightarrow> blind (history_cb prog e k c)"
proof (induction k arbitrary: c)
  case 0
  show ?case by (simp add: blind_def history_cb_def)
next
  case (Suc k)
  have "blind_callbacks e (history_cb prog e k)" by unfold_locales (rule Suc.IH)
  from blind_callbacks.run_calls_rbuf [OF this Suc.prems] show ?case by (simp add: blind_def history_cb_def)
qed

interpretation history: blind_callbacks e "history_cb prog e k" for e prog k
  by unfold_locales (rule history_blind)

end
