(* ===== verification/Nats_Serve.thy ===== *)
theory Nats_Serve
  imports "HOL-Library.Word" Nats_Blind Nats_Protocol_Stream
begin

text \<open>
  What the read path does with a buffer full of input, against an abstract server of messages:
  \<open>drain\<close> (of \<open>Nats_Protocol_Stream\<close>) decodes the bytes into messages, \<open>effect\<close> is what one message does
  to the state, and \<open>serve\<close> applies the effects in order until one asks for the connection to be
  closed. The loop \<open>ngx_nats_process_buffer\<close>, with its buffer that is parsed, overwritten and advanced
  in place, is refined to \<open>drain\<close> followed by \<open>serve\<close>.
\<close>

section \<open>The abstract server\<close>

text \<open>The effect of a message: \<open>Some reason\<close> when the connection has to be closed.\<close>

definition effect ::
  "(callback \<Rightarrow> step) \<Rightarrow> env \<Rightarrow> ngx_nats_msg \<Rightarrow> bytes \<Rightarrow> world \<Rightarrow> (int option \<times> world) option" where
  "effect cb e m s w =
     (if m_type m = NGX_NATS_MSG_OK then Some (None, w)
      else if m_type m = NGX_NATS_MSG_ERR
      then Some (if connect_pending (w_conn w) then Some NGX_NATS_REASON_CONNECT_REFUSED else None, w)
      else if m_type m = NGX_NATS_MSG_PING
      then do { (rc, w) \<leftarrow> add_message e (''PONG'' @ [CR, LF]) 6 w; Some (None, w) }
      else if m_type m = NGX_NATS_MSG_PONG then
        (if nc_state (w_conn w) AND NGX_NATS_STATE_CONNECT_OKAYED = 0
         then do { w \<leftarrow> ngx_nats_connection_ready cb (upd_conn (\<lambda>c. c\<lparr>nc_state := NGX_NATS_STATE_READY\<rparr>) w); Some (None, w) }
         else Some (None, w))
      else if m_type m = NGX_NATS_MSG_INFO then
        (if m_bstart m \<ge> m_bend m then Some (Some NGX_NATS_REASON_BAD_PROTOCOL, w)
         else do { msg_str \<leftarrow> mem_get s (m_bstart m) (m_bend m - m_bstart m);
                   (rc, w) \<leftarrow> parse_info_json e msg_str w;
                   Some (if rc \<noteq> NGX_OK then Some NGX_NATS_REASON_BAD_PROTOCOL else None, w) })
      else if m_type m = NGX_NATS_MSG_MSG then do { w \<leftarrow> ngx_nats_process_msg cb e s m w; Some (None, w) }
      else Some (Some NGX_NATS_REASON_BAD_PROTOCOL, w))"

fun serve ::
  "(callback \<Rightarrow> step) \<Rightarrow> env \<Rightarrow> (ngx_nats_msg \<times> bytes) list \<Rightarrow> world \<Rightarrow> (int option \<times> world) option" where
  "serve cb e [] w = Some (None, w)"
| "serve cb e ((m, s) # fs) w =
     do { (r, w) \<leftarrow> effect cb e m s w;
          case r of Some reason \<Rightarrow> Some (Some reason, w) | None \<Rightarrow> serve cb e fs w }"

definition shut :: "(callback \<Rightarrow> step) \<Rightarrow> env \<Rightarrow> int \<Rightarrow> world \<Rightarrow> (int \<times> world) option" where
  "shut cb e reason w = do { w \<leftarrow> close_connection cb e reason 1 w; Some (NGX_ERROR, w) }"

text \<open>What follows the last complete message.\<close>

definition finish :: "(callback \<Rightarrow> step) \<Rightarrow> env \<Rightarrow> char status \<Rightarrow> world \<Rightarrow> (int \<times> world) option" where
  "finish cb e st w =
     (case st of
        Pending q \<Rightarrow> if q = [] then do { b \<leftarrow> ngx_nats_buf_compact (w_rbuf w); Some (NGX_OK, w\<lparr>w_rbuf := b\<rparr>) }
                     else incomplete_msg cb e w
      | Failed err \<Rightarrow> shut cb e NGX_NATS_REASON_BAD_PROTOCOL w
      | Crashed \<Rightarrow> None)"

lemma handle_message_effect:
  "handle_message cb e skip m s w =
     do { (r, w) \<leftarrow> effect cb e m s w;
          case r of None \<Rightarrow> Some (skip, w) | Some reason \<Rightarrow> shut cb e reason w }"
  by (auto simp: handle_message_def effect_def shut_def close_bad_def split: option.split prod.split intro!: Option.bind_cong)

section \<open>Effects do not touch the read buffer\<close>

lemma parse_info_rbuf:
  "parse_info_json e m (set_rbuf b w) = map_option (apsnd (set_rbuf b)) (parse_info_json e m w)"
  by (auto simp: parse_info_json_def Let_def map_bind_option split: option.split json.split prod.split intro!: Option.bind_cong)

context blind_callbacks
begin

lemma process_msg_rbuf:
  assumes "sends_ok e"
  shows "ngx_nats_process_msg cb e s m (set_rbuf b w) = map_option (set_rbuf b) (ngx_nats_process_msg cb e s m w)"
proof -
  have w: "(set_rbuf b w)\<lparr>w_subs := c\<rparr> = set_rbuf b (w\<lparr>w_subs := c\<rparr>)" for w c by simp
  show ?thesis
    by (auto simp: ngx_nats_process_msg_def Let_def w call_rbuf [OF assms] map_bind_option
        cong: if_cong option.case_cong split: option.split intro!: Option.bind_cong)
qed

lemma ready_rbuf:
  assumes "sends_ok e"
  shows "ngx_nats_connection_ready cb (set_rbuf b w) = map_option (set_rbuf b) (ngx_nats_connection_ready cb w)"
proof -
  have w: "(set_rbuf b w)\<lparr>w_err_reported := c\<rparr> = set_rbuf b (w\<lparr>w_err_reported := c\<rparr>)" for w c by simp
  show ?thesis
    by (simp add: ngx_nats_connection_ready_def Let_def w each_rbuf [OF assms])
qed

lemma effect_rbuf:
  assumes "sends_ok e"
  shows "effect cb e m s (set_rbuf b w) = map_option (apsnd (set_rbuf b)) (effect cb e m s w)"
  by (auto simp: effect_def add_message_rbuf process_msg_rbuf [OF assms] ready_rbuf [OF assms] parse_info_rbuf
      bind_map_option map_bind_option cong: if_cong split: prod.split intro!: Option.bind_cong)

end

text \<open>A message only refers to its own bytes.\<close>

lemma mem_get_take: "i + n \<le> k \<Longrightarrow> k \<le> length s \<Longrightarrow> mem_get (take k s) i n = mem_get s i n"
  by (simp add: mem_get_def drop_take min_def)

lemma effect_frame:
  assumes "parsed_ok t (rc, m, s)" and "0 < rc"
  shows "effect cb e m (take (nat rc) s) w = effect cb e m s w"
proof -
  have b: "nat rc \<le> length s" "m_bend m = nat rc - 2" "m_bstart m \<le> m_bend m" "5 \<le> nat rc"
    if "m_type m \<in> {NGX_NATS_MSG_INFO, NGX_NATS_MSG_MSG}"
    using assms that by (auto simp: parsed_ok_def msg_types)
  have "str_bytes (take (nat rc) s) (m_subject m) = str_bytes s (m_subject m)"
    "0 < s_len (m_replyto m) \<Longrightarrow> str_bytes (take (nat rc) s) (m_replyto m) = str_bytes s (m_replyto m)"
    if "m_type m = NGX_NATS_MSG_MSG"
    using b assms that by (auto simp: str_bytes_def parsed_ok_def str_in_def intro!: mem_get_take)
  then show ?thesis
    using b by (auto simp: effect_def ngx_nats_process_msg_def mem_get_take Let_def split: option.split intro!: Option.bind_cong)
qed

section \<open>The buffer loop serves the decoded messages\<close>

definition rbuf_ok :: "ngx_nats_buf \<Rightarrow> bool" where
  "rbuf_ok b \<longleftrightarrow> buf_wf b \<and> 0 < b_cap b \<and> b_cap b < 2 ^ 64"

lemma readable_contents: "buf_wf b \<Longrightarrow> readable b = Some (contents b)"
  by (frule buf_wfD(1), frule buf_wfD(2), frule buf_wfD(3), frule buf_wfD(4))
    (auto simp: readable_def mem_get_def buf_wf_def Nats_Prelude.slice_def comp_def)

text \<open>Replacing the readable bytes by the parser's version of them, and skipping the first \<open>n\<close>.\<close>

lemma overwrite_wf:
  assumes b: "buf_wf b" and len: "length s = length (contents b)"
  obtains m where "mem_put (b_buf b) (b_pos b) (map Some s) = Some m"
    and "buf_wf (b\<lparr>b_buf := m\<rparr>)" and "contents (b\<lparr>b_buf := m\<rparr>) = s"
proof -
  note wf = buf_wfD [OF b] and l = length_contents [OF b]
  have "b_pos b + length (map Some s) \<le> length (b_buf b)" using wf l len by simp
  then obtain m where m: "mem_put (b_buf b) (b_pos b) (map Some s) = Some m" using mem_put_Some by blast
  have e: "b_pos b + length (map Some s) = b_end b" using wf l len by simp
  have sl: "Nats_Prelude.slice (b_buf (b\<lparr>b_buf := m\<rparr>)) (b_pos (b\<lparr>b_buf := m\<rparr>)) (b_end (b\<lparr>b_buf := m\<rparr>)) = map Some s"
    using slice_mem_put [OF m, unfolded e] by simp
  have "buf_wf (b\<lparr>b_buf := m\<rparr>)" "contents (b\<lparr>b_buf := m\<rparr>) = s"
    using buf_wfI [OF _ _ _ sl] wf mem_put_length [OF m] by simp_all
  with m show ?thesis by (rule that)
qed

lemma advance_wf:
  assumes b: "buf_wf b" and n: "n \<le> length (contents b)"
  shows "buf_wf (b\<lparr>b_pos := b_pos b + n\<rparr>)" "contents (b\<lparr>b_pos := b_pos b + n\<rparr>) = drop n (contents b)"
proof -
  note wf = buf_wfD [OF b] and l = length_contents [OF b]
  have "b_end b - (b_pos b + n) = b_end b - b_pos b - n" by simp
  then have "Nats_Prelude.slice (b_buf b) (b_pos b + n) (b_end b) = drop n (Nats_Prelude.slice (b_buf b) (b_pos b) (b_end b))"
    unfolding Nats_Prelude.slice_def by (simp only: drop_take drop_drop) (simp add: add.commute)
  then have sl: "Nats_Prelude.slice (b_buf (b\<lparr>b_pos := b_pos b + n\<rparr>)) (b_pos (b\<lparr>b_pos := b_pos b + n\<rparr>)) (b_end (b\<lparr>b_pos := b_pos b + n\<rparr>))
      = map Some (drop n (contents b))"
    using wf(4) by (simp add: drop_map)
  show "buf_wf (b\<lparr>b_pos := b_pos b + n\<rparr>)" "contents (b\<lparr>b_pos := b_pos b + n\<rparr>) = drop n (contents b)"
    using buf_wfI [OF _ _ _ sl] wf l n by simp_all
qed

lemma empty_verdict: "nats_verdict ceq [] = More"
  by (simp add: nats_verdict_def ngx_nats_parse_def header_loop.simps)

lemma put_same:
  assumes "buf_wf b"
  shows "mem_put (b_buf b) (b_pos b) (map Some (contents b)) = Some (b_buf b)"
  using buf_wfD [OF assms] length_contents [OF assms]
  by (auto simp: mem_put_def Nats_Prelude.slice_def simp flip: take_add)
    (metis append_take_drop_id drop_drop add.commute le_add_diff_inverse)

text \<open>One pass: an incomplete message, a malformed one, a complete one.\<close>

lemma buffer_msg_stop:
  assumes b: "buf_wf b" and w: "w_rbuf w = b" and ok: "stream_ok (contents b)"
    and v: "nats_verdict (e_ceq e) (contents b) = More \<and> st = Pending (contents b) \<or>
      nats_verdict (e_ceq e) (contents b) = Bad err \<and> st = Failed err"
  shows "nats_process_buffer_msg cb e w = finish cb e st w"
proof (cases "contents b = []")
  case True
  then have "b_pos b = b_end b" using length_contents [OF b] buf_wfD(1) [OF b] by simp
  with True v w show ?thesis by (auto simp: nats_process_buffer_msg_def finish_def empty_verdict)
next
  case False
  then have ne: "b_pos b \<noteq> b_end b" using length_contents [OF b] by auto
  obtain rc m s where p: "ngx_nats_parse (e_ceq e) (contents b) = Some (rc, m, s)" "parsed_ok (contents b) (rc, m, s)"
    using nats_verdict_ok [OF ok] by blast
  with v have rc: "rc = NGX_NATS_PROTO_AGAIN \<and> st = Pending (contents b) \<or> rc \<le> 0 \<and> rc \<noteq> NGX_NATS_PROTO_AGAIN \<and> st = Failed err"
    by (auto simp: nats_verdict_def split: if_splits)
  with p(2) have s: "s = contents b" by (auto simp: parsed_ok_def proto_codes)
  note put = put_same [OF b]
  have "w\<lparr>w_rbuf := b\<lparr>b_buf := b_buf b\<rparr>\<rparr> = w" using w by simp
  with ne w rc p(1) put s False show ?thesis
    by (auto simp: nats_process_buffer_msg_def Let_def readable_contents [OF b] finish_def close_bad_def shut_def proto_codes)
qed

lemma buffer_msg_parsed:
  assumes b: "rbuf_ok b" and p: "ngx_nats_parse (e_ceq e) (contents b) = Some (int n, m, s)"
    and n: "0 < n" "n \<le> length (contents b)" "length s = length (contents b)"
  obtains c where "\<And>w. nats_process_buffer_msg cb e (set_rbuf b w) = handle_message cb e (int n) m s (set_rbuf c w)"
    and "\<And>w. skip_message (int n) (set_rbuf c w) = set_rbuf (c\<lparr>b_pos := b_pos c + n\<rparr>) w"
    and "rbuf_ok c" and "rbuf_ok (c\<lparr>b_pos := b_pos c + n\<rparr>)" and "b_cap c = b_cap b" and "contents c = s"
    and "contents (c\<lparr>b_pos := b_pos c + n\<rparr>) = drop n s"
proof -
  have wf: "buf_wf b" using b by (simp add: rbuf_ok_def)
  obtain bb where put: "mem_put (b_buf b) (b_pos b) (map Some s) = Some bb"
    and c: "buf_wf (b\<lparr>b_buf := bb\<rparr>)" "contents (b\<lparr>b_buf := bb\<rparr>) = s"
    using overwrite_wf [OF wf n(3)] by blast
  define c where "c = b\<lparr>b_buf := bb\<rparr>"
  have cc: "buf_wf c" "contents c = s" "b_cap c = b_cap b" "b_pos c = b_pos b" "b_end c = b_end b"
    using c by (simp_all add: c_def)
  have adv: "buf_wf (c\<lparr>b_pos := b_pos c + n\<rparr>)" "contents (c\<lparr>b_pos := b_pos c + n\<rparr>) = drop n s"
    using advance_wf [OF cc(1), of n] cc(2) n(2,3) by simp_all
  have pos: "b_pos b + n < 2 ^ 64"
    using b n(2) length_contents [OF wf] buf_wfD [OF wf] unfolding rbuf_ok_def by linarith
  have ne: "b_pos b \<noteq> b_end b" using length_contents [OF wf] n(1,2) by auto
  show ?thesis
  proof (rule that [of c])
    show "nats_process_buffer_msg cb e (set_rbuf b w) = handle_message cb e (int n) m s (set_rbuf c w)" for w
      using ne p n(1) put by (simp add: nats_process_buffer_msg_def Let_def readable_contents [OF wf] c_def)
    show "skip_message (int n) (set_rbuf c w) = set_rbuf (c\<lparr>b_pos := b_pos c + n\<rparr>) w" for w
      using pos cc(4) by (simp add: skip_message_def)
  qed (use b cc adv in \<open>simp_all add: rbuf_ok_def\<close>)
qed

lemma buffer_msg_frame:
  assumes b: "rbuf_ok b" and ok: "stream_ok (contents b)" and v: "nats_verdict (e_ceq e) (contents b) = Frame (m, t) n"
  obtains c s where "\<And>w. nats_process_buffer_msg cb e (set_rbuf b w) = handle_message cb e (int n) m s (set_rbuf c w)"
    and "\<And>w. effect cb e m s w = effect cb e m t w" and "0 < n" and "n \<le> length (contents b)"
    and "\<And>w. skip_message (int n) (set_rbuf c w) = set_rbuf (c\<lparr>b_pos := b_pos c + n\<rparr>) w"
    and "rbuf_ok c" and "rbuf_ok (c\<lparr>b_pos := b_pos c + n\<rparr>)" and "b_cap c = b_cap b"
    and "contents (c\<lparr>b_pos := b_pos c + n\<rparr>) = drop n (contents b)"
proof -
  obtain rc s where p: "ngx_nats_parse (e_ceq e) (contents b) = Some (rc, m, s)" "rc \<noteq> NGX_NATS_PROTO_AGAIN"
    "t = take n s" "n = nat rc" "0 < n" "n \<le> length (contents b)" "length s = length (contents b)"
    using nats_verdict_frame [OF ok v] by (metis prod.inject)
  have po: "parsed_ok (contents b) (rc, m, s)"
    using nats_verdict_ok [OF ok] p(1) by (metis option.inject)
  have p': "ngx_nats_parse (e_ceq e) (contents b) = Some (int n, m, s)" using p(1,4,5) by simp
  have "drop (n - 1) s = drop (n - 1) (contents b)" using po p(4,5) by (simp add: parsed_ok_def)
  then have "drop 1 (drop (n - 1) s) = drop 1 (drop (n - 1) (contents b))" by (rule arg_cong)
  then have dr: "drop n s = drop n (contents b)" using p(5) by simp
  have ef: "effect cb e m s w = effect cb e m t w" for w
    using effect_frame [OF po] p(3,4,5) by simp
  show ?thesis
    by (rule buffer_msg_parsed [OF b p' p(5,6,7), where cb = cb], rule that [OF _ ef p(5,6)])
      (simp_all only: dr)
qed

text \<open>Nothing more is processed after the last complete message.\<close>

lemma finish_le:
  "do { (rc, w) \<leftarrow> finish cb e st w; if rc \<le> 0 then Some (rc, w) else f rc w } = finish cb e st w"
proof -
  have "ret (finish cb e st w) (\<lambda>(rc, w). rc \<le> 0)"
    unfolding finish_def incomplete_msg_def shut_def
    by (auto simp: ret_def bind_eq_Some_conv Let_def split: status.splits if_splits)
  then show ?thesis by (cases "finish cb e st w") (auto simp: ret_def)
qed

lemma shut_le:
  "do { (rc, w) \<leftarrow> shut cb e reason w; if rc \<le> 0 then Some (rc, w) else f rc w } = shut cb e reason w"
  by (cases "close_connection cb e reason 1 w") (simp_all add: shut_def)

text \<open>The outcome of a whole pass over the buffer.\<close>

definition outcome ::
  "(callback \<Rightarrow> step) \<Rightarrow> env \<Rightarrow> char status \<Rightarrow> ngx_nats_buf \<Rightarrow> int option \<times> world \<Rightarrow> (int \<times> world) option" where
  "outcome cb e st c = (\<lambda>(r, w).
     case r of Some reason \<Rightarrow> shut cb e reason (set_rbuf c w) | None \<Rightarrow> finish cb e st (set_rbuf c w))"

context blind_callbacks
begin

lemma process_buffer_serve:
  assumes e: "sends_ok e" and b: "rbuf_ok b" and ok: "stream_ok (contents b)"
    and d: "drain (nats_verdict (e_ceq e)) (contents b) = (fs, st)"
  shows "\<exists>c. rbuf_ok c \<and> b_cap c = b_cap b
    \<and> ngx_nats_process_buffer cb e (set_rbuf b w) = Option.bind (serve cb e fs w) (outcome cb e st c)
    \<and> (\<forall>q v. st = Pending q \<and> serve cb e fs w = Some (None, v) \<longrightarrow> contents c = q)"
  using b ok d
proof (induction "length (contents b)" arbitrary: b fs w rule: less_induct)
  case less
  note wf = less.prems(1) [unfolded rbuf_ok_def, THEN conjunct1]
  show ?case
  proof (cases "nats_verdict (e_ceq e) (contents b)")
    case (Frame f n)
    obtain m t where f: "f = (m, t)" by (cases f)
    obtain c s where c: "\<And>w. nats_process_buffer_msg cb e (set_rbuf b w) = handle_message cb e (int n) m s (set_rbuf c w)"
      "\<And>w. effect cb e m s w = effect cb e m t w" "0 < n" "n \<le> length (contents b)"
      "\<And>w. skip_message (int n) (set_rbuf c w) = set_rbuf (c\<lparr>b_pos := b_pos c + n\<rparr>) w"
      "rbuf_ok c" "rbuf_ok (c\<lparr>b_pos := b_pos c + n\<rparr>)" "b_cap c = b_cap b"
      "contents (c\<lparr>b_pos := b_pos c + n\<rparr>) = drop n (contents b)"
      by (rule buffer_msg_frame [OF less.prems(1,2) Frame [unfolded f], where cb = cb]) (rule that)
    obtain gs st' where gs: "drain (nats_verdict (e_ceq e)) (drop n (contents b)) = (gs, st')" by fastforce
    have fs: "fs = (m, t) # gs" "st' = st"
      using less.prems(3) Frame f c(3,4) gs by (auto simp: drain.simps [of _ "contents b"] split: if_splits)
    have run: "ngx_nats_process_buffer cb e (set_rbuf b w) = do { (r, v) \<leftarrow> effect cb e m t w;
        case r of None \<Rightarrow> ngx_nats_process_buffer cb e (set_rbuf (c\<lparr>b_pos := b_pos c + n\<rparr>) v)
        | Some reason \<Rightarrow> shut cb e reason (set_rbuf c v) }"
      unfolding ngx_nats_process_buffer.simps [of cb e "set_rbuf b w"] c(1,2) handle_message_effect effect_rbuf [OF e]
    proof (cases "effect cb e m t w", goal_cases)
      case (2 y)
      then show ?case using c(3) by (cases y; cases "fst y") (simp_all add: c(5) shut_le)
    qed simp
    show ?thesis
    proof (cases "\<exists>v. effect cb e m t w = Some (None, v)")
      case True
      then obtain v where v: "effect cb e m t w = Some (None, v)" by blast
      have "length (contents (c\<lparr>b_pos := b_pos c + n\<rparr>)) < length (contents b)" using c(3,4,9) by simp
      from less.hyps [OF this c(7), of gs v] gs less.prems(2) nats.ok_suffix c(8,9) fs show ?thesis
        by (simp add: run v)
    next
      case False
      then consider "effect cb e m t w = None" | reason v where "effect cb e m t w = Some (Some reason, v)"
        by (metis option.exhaust prod.exhaust)
      then show ?thesis
        by cases (use c(6,8) fs in \<open>auto simp: run outcome_def\<close>)
    qed
  next
    case More
    with less.prems(3) have "fs = []" "st = Pending (contents b)" by (auto simp: drain.simps [of _ "contents b"])
    moreover from this buffer_msg_stop [OF wf _ less.prems(2), of "set_rbuf b w"] More
    have "nats_process_buffer_msg cb e (set_rbuf b w) = finish cb e st (set_rbuf b w)" by simp
    ultimately show ?thesis using less.prems(1)
      by (intro exI [of _ b]) (simp add: ngx_nats_process_buffer.simps [of cb e "set_rbuf b w"] outcome_def finish_le)
  next
    case (Bad err)
    with less.prems(3) have "fs = []" "st = Failed err" by (auto simp: drain.simps [of _ "contents b"])
    moreover from this buffer_msg_stop [OF wf _ less.prems(2), of "set_rbuf b w"] Bad
    have "nats_process_buffer_msg cb e (set_rbuf b w) = finish cb e st (set_rbuf b w)" by simp
    ultimately show ?thesis using less.prems(1)
      by (intro exI [of _ b]) (simp add: ngx_nats_process_buffer.simps [of cb e "set_rbuf b w"] outcome_def finish_le)
  next
    case Crash
    with nats.no_crash [OF less.prems(2)] show ?thesis by simp
  qed
qed

end

end
