(* ===== verification/Nats_Serve_Props.thy ===== *)
theory Nats_Serve_Props
  imports "HOL-Library.Word" Nats_Serve Nats_Close Nats_Protocol_Roundtrip
begin

text \<open>
  The properties of the read path: the buffer loop against the abstract server of \<open>Nats_Serve\<close>, the
  delivery of messages to the clients, the handshake, and the inputs on which the code fails.
\<close>

interpretation silent: blind_callbacks e no_calls for e
  by unfold_locales (simp add: blind_def no_calls_def)

section \<open>Refinement\<close>

text \<open>The buffer is full of an incomplete message and may not grow.\<close>

definition at_limit :: "ngx_nats_buf \<Rightarrow> world \<Rightarrow> bool" where
  "at_limit b w \<longleftrightarrow> NGX_NATS_MAX_MESSAGE_SIZE \<le> b_cap b
     \<or> 0 < srv_max_payload (w_conn w) \<and> u64 (srv_max_payload (w_conn w)) \<le> b_cap b"

lemma incomplete_cases:
  assumes b: "rbuf_ok (w_rbuf w)" and cap: "4 \<le> b_cap (w_rbuf w)"
  obtains (room) d t where "incomplete_msg cb e w = Some (NGX_OK, w\<lparr>w_rbuf := d, w_tick := t\<rparr>)" and "rbuf_ok d"
      and "contents d = contents (w_rbuf w)" and "b_pos d = 0" and "b_end d + 1 < b_cap d"
      and "b_cap (w_rbuf w) \<le> b_cap d"
  | (limit) d where "b_cap (w_rbuf w) \<le> length (contents (w_rbuf w)) + 1" and "at_limit (w_rbuf w) w"
      and "incomplete_msg cb e w = shut cb e NGX_NATS_REASON_BAD_PROTOCOL (set_rbuf d w)"
  | (memory) d where "b_cap (w_rbuf w) \<le> length (contents (w_rbuf w)) + 1" and "\<not> at_limit (w_rbuf w) w"
      and "\<not> e_alloc e (w_tick w)"
      and "incomplete_msg cb e w = shut cb e NGX_NATS_REASON_NO_MEMORY (set_rbuf d (tick w))"
proof -
  let ?b = "w_rbuf w"
  have wf: "buf_wf ?b" using b by (simp add: rbuf_ok_def)
  obtain c where c: "ngx_nats_buf_compact ?b = Some c" "buf_wf c" "contents c = contents ?b" "b_pos c = 0"
    "b_end c = b_end ?b - b_pos ?b" "b_cap c = b_cap ?b" using compact_wf [OF wf] by blast
  have len: "b_end c = length (contents ?b)" using length_contents [OF wf] c(5) by simp
  have sh: "buf_shape c" using c(2,6) b by (auto intro: buf_shape_wf simp: rbuf_ok_def)
  have us: "usub (b_cap c) 1 = b_cap c - 1" using cap c(6) by simp
  show thesis
  proof (cases "b_cap c - 1 \<le> b_end c")
    case False
    then have "incomplete_msg cb e w = Some (NGX_OK, w\<lparr>w_rbuf := c, w_tick := w_tick w\<rparr>)"
      using c(1) us by (simp add: incomplete_msg_def Let_def del: usub_le)
    then show thesis by (rule room) (use False c b cap in \<open>simp_all add: rbuf_ok_def\<close>)
  next
    case full: True
    then have f: "b_cap ?b \<le> length (contents ?b) + 1" using len c(6) by simp
    show thesis
    proof (cases "at_limit ?b w")
      case True
      then have "incomplete_msg cb e w = shut cb e NGX_NATS_REASON_BAD_PROTOCOL (set_rbuf c w)"
        using c(1,6) us full by (auto simp: incomplete_msg_def Let_def at_limit_def shut_def simp del: usub_le)
      with f True show thesis by (rule limit)
    next
      case lim: False
      let ?ok = "e_alloc e (w_tick w)"
      have "b_cap c < 268435456" using lim c(6) by (simp add: NGX_NATS_MAX_MESSAGE_SIZE_def at_limit_def)
      moreover have "length (contents c) \<le> b_cap c" using buf_wfD(2) [OF c(2)] length_contents [OF c(2)] by simp
      ultimately have "length (contents c) + (b_cap c - 1) \<le> 2 ^ 63" by simp
      from ensure_from_zero [OF c(2,4) _ this, of ?ok 0] cap c(6)
      obtain rc d where d: "ngx_nats_buf_ensure ?ok c (b_cap c - 1) 0 = Some (rc, d)" "buf_wf d" "contents d = contents c"
        "rc = NGX_OK \<and> b_end d + (b_cap c - 1) \<le> b_cap d \<or> rc = NGX_ERROR \<and> (\<not> ?ok \<or> NGX_NATS_MAX_MESSAGE_SIZE \<le> b_cap c)"
        by auto
      have dd: "buf_shape d" "b_cap c \<le> b_cap d" using retD [OF ensure_shape [OF sh] d(1)] by simp_all
      have run: "incomplete_msg cb e w = (if rc \<noteq> NGX_OK then shut cb e NGX_NATS_REASON_NO_MEMORY (set_rbuf d (tick w))
          else Some (NGX_OK, w\<lparr>w_rbuf := d, w_tick := w_tick w + 1\<rparr>))"
        using c(1,6) us full lim d(1)
        by (auto simp: incomplete_msg_def Let_def at_limit_def shut_def tick_def simp del: usub_le)
      show thesis
      proof (cases "rc = NGX_OK")
        case True
        with run have "incomplete_msg cb e w = Some (NGX_OK, w\<lparr>w_rbuf := d, w_tick := w_tick w + 1\<rparr>)" by simp
        then show thesis
          by (rule room) (use d(2,3) d(4) True dd c(3,6) cap retD [OF ensure_unsent [OF c(4)] d(1)] in \<open>auto simp: rbuf_ok_def buf_shape_def\<close>)
      next
        case False
        with d(4) lim c(6) have "\<not> ?ok" by (auto simp: at_limit_def)
        with f lim show thesis by (rule memory) (use run False in simp)
      qed
    qed
  qed
qed

text \<open>
  What a pass over the buffer returns when its messages have been served to the state \<open>v\<close>: with an
  incomplete rest \<open>q\<close>, \<open>NGX_OK\<close>, exactly \<open>q\<close> in the buffer and room for the next read, unless \<open>q\<close>
  fills a buffer that cannot grow; with malformed input, a close.
\<close>

definition pass_ends ::
  "(callback \<Rightarrow> step) \<Rightarrow> env \<Rightarrow> ngx_nats_buf \<Rightarrow> char status \<Rightarrow> world \<Rightarrow> (int \<times> world) option \<Rightarrow> bool" where
  "pass_ends cb e b st v res =
     (case st of
        Pending q \<Rightarrow>
          (\<exists>d t. res = Some (NGX_OK, v\<lparr>w_rbuf := d, w_tick := t\<rparr>) \<and> rbuf_ok d \<and> contents d = q
             \<and> b_pos d = 0 \<and> b_end d + 1 < b_cap d \<and> b_cap b \<le> b_cap d)
          \<or> b_cap b \<le> length q + 1 \<and> at_limit b v
             \<and> (\<exists>d. res = shut cb e NGX_NATS_REASON_BAD_PROTOCOL (set_rbuf d v))
          \<or> b_cap b \<le> length q + 1 \<and> \<not> at_limit b v \<and> \<not> e_alloc e (w_tick v)
             \<and> (\<exists>d. res = shut cb e NGX_NATS_REASON_NO_MEMORY (set_rbuf d (tick v)))
      | Failed err \<Rightarrow> \<exists>d. res = shut cb e NGX_NATS_REASON_BAD_PROTOCOL (set_rbuf d v)
      | Crashed \<Rightarrow> False)"

lemma finish_ends:
  assumes "rbuf_ok c" and "4 \<le> b_cap c" and "b_cap c = b_cap b" and "\<forall>q. st = Pending q \<longrightarrow> contents c = q"
    and "st \<noteq> Crashed"
  shows "pass_ends cb e b st v (finish cb e st (set_rbuf c v))"
proof (cases st)
  case (Pending q)
  then have q: "contents c = q" using assms(4) by simp
  have lim: "at_limit c v = at_limit b v" using assms(3) by (simp add: at_limit_def)
  show ?thesis
  proof (cases "q = []")
    case True
    have wf: "buf_wf c" using assms(1) by (simp add: rbuf_ok_def)
    obtain d where d: "ngx_nats_buf_compact c = Some d" "buf_wf d" "contents d = contents c" "b_pos d = 0"
      "b_end d = b_end c - b_pos c" "b_cap d = b_cap c" using compact_wf [OF wf] by blast
    have "b_end d = 0" using length_contents [OF wf] q True d(5) by simp
    moreover have "finish cb e st (set_rbuf c v) = Some (NGX_OK, v\<lparr>w_rbuf := d, w_tick := w_tick v\<rparr>)"
      using d(1) True Pending by (simp add: finish_def)
    moreover have "rbuf_ok d" "contents d = q" "b_pos d = 0" "0 + 1 < b_cap d" "b_cap b \<le> b_cap d"
      using assms(1-3) d q by (simp_all add: rbuf_ok_def)
    ultimately show ?thesis unfolding pass_ends_def Pending status.case
      by (intro disjI1 exI [of _ d] exI [of _ "w_tick v"]) simp
  next
    case False
    then have f: "finish cb e st (set_rbuf c v) = incomplete_msg cb e (set_rbuf c v)"
      using Pending by (simp add: finish_def)
    have s: "rbuf_ok (w_rbuf (set_rbuf c v))" "4 \<le> b_cap (w_rbuf (set_rbuf c v))" using assms(1,2) by simp_all
    show ?thesis
    proof (rule incomplete_cases [OF s, of cb e], goal_cases)
      case (1 d t)
      with f q Pending assms(3) show ?thesis by (auto simp: pass_ends_def)
    next
      case (2 d)
      with f q Pending lim assms(3) show ?thesis by (auto simp: pass_ends_def at_limit_def)
    next
      case (3 d)
      with f q Pending lim assms(3) show ?thesis by (auto simp: pass_ends_def at_limit_def)
    qed
  qed
next
  case (Failed err)
  then show ?thesis by (auto simp: pass_ends_def finish_def)
qed (use assms(5) in simp)

context blind_callbacks
begin

lemma process_buffer_outcome:
  assumes "sends_ok e" and "rbuf_ok (w_rbuf w)" and "4 \<le> b_cap (w_rbuf w)" and "stream_ok (contents (w_rbuf w))"
    and "drain (nats_verdict (e_ceq e)) (contents (w_rbuf w)) = (fs, st)"
  shows "case serve cb e fs w of
      None \<Rightarrow> ngx_nats_process_buffer cb e w = None
    | Some (Some reason, v) \<Rightarrow> \<exists>d. ngx_nats_process_buffer cb e w = shut cb e reason (set_rbuf d v)
    | Some (None, v) \<Rightarrow> pass_ends cb e (w_rbuf w) st v (ngx_nats_process_buffer cb e w)"
proof -
  obtain c where c: "rbuf_ok c" "b_cap c = b_cap (w_rbuf w)"
    "ngx_nats_process_buffer cb e w = Option.bind (serve cb e fs w) (outcome cb e st c)"
    "\<forall>q v. st = Pending q \<and> serve cb e fs w = Some (None, v) \<longrightarrow> contents c = q"
    using process_buffer_serve [OF assms(1,2,4,5), of w] by auto
  have nc: "st \<noteq> Crashed" using nats.drain_append [of "contents (w_rbuf w)" "[]" "e_ceq e", OF _ assms(5)] assms(4) by auto
  have "pass_ends cb e (w_rbuf w) st v (finish cb e st (set_rbuf c v))" if "serve cb e fs w = Some (None, v)" for v
    by (rule finish_ends) (use c assms(3) that nc in auto)
  with c(3) show ?thesis by (auto simp: outcome_def split: option.splits)
qed

end

text \<open>
  C2: \<open>ngx_nats_process_buffer\<close> serves the messages that its buffer holds. The loop parses, overwrites
  and advances the buffer in place and calls clients back from the middle of it; for clients that
  answer their callbacks with calls of the client functions, as long as sending does not fail, with
  a buffer of at least 4 bytes, and when no run of decimal digits in the buffer (in subjects and payloads too) is longer than 18,
  it does what the abstract server does with the decoded messages: every complete message has its
  effect exactly once and in order. When one of them requires a close, the connection is closed
  for that reason and the later ones have no effect; malformed input closes it after the messages
  before it were served. Otherwise the result is \<open>NGX_OK\<close>, exactly the bytes of the incomplete
  message are in the buffer with room for the next read, and nothing else has changed, unless
  that message fills the buffer and a limit or the allocator forbids to grow it: then the
  connection is closed.
\<close>

theorem process_buffer_refines:
  assumes "sends_ok e" and "rbuf_ok (w_rbuf w)" and "4 \<le> b_cap (w_rbuf w)" and "stream_ok (contents (w_rbuf w))"
    and "drain (nats_verdict (e_ceq e)) (contents (w_rbuf w)) = (fs, st)"
  shows "case serve (history_cb prog e k) e fs w of
      None \<Rightarrow> ngx_nats_process_buffer (history_cb prog e k) e w = None
    | Some (Some reason, v) \<Rightarrow>
        \<exists>d. ngx_nats_process_buffer (history_cb prog e k) e w = shut (history_cb prog e k) e reason (set_rbuf d v)
    | Some (None, v) \<Rightarrow>
        pass_ends (history_cb prog e k) e (w_rbuf w) st v (ngx_nats_process_buffer (history_cb prog e k) e w)"
  by (rule history.process_buffer_outcome [OF assms])

text \<open>A buffer of \<open>n\<close> bytes that holds \<open>xs\<close>.\<close>

definition buf_with :: "nat \<Rightarrow> bytes \<Rightarrow> ngx_nats_buf" where
  "buf_with n xs = \<lparr>b_buf = map Some xs @ replicate (n - length xs) None, b_pos = 0, b_end = length xs, b_cap = n\<rparr>"

lemma buf_with_ok:
  assumes "length xs \<le> n" and "0 < n" and "n < 2 ^ 64"
  shows "rbuf_ok (buf_with n xs)" "contents (buf_with n xs) = xs" "b_cap (buf_with n xs) = n"
    "b_pos (buf_with n xs) = 0" "b_end (buf_with n xs) = length xs"
proof -
  have "Nats_Prelude.slice (b_buf (buf_with n xs)) (b_pos (buf_with n xs)) (b_end (buf_with n xs)) = map Some xs"
    by (simp add: buf_with_def Nats_Prelude.slice_def)
  from buf_wfI [OF _ _ _ this] assms
  show "rbuf_ok (buf_with n xs)" "contents (buf_with n xs) = xs" by (simp_all add: buf_with_def rbuf_ok_def)
qed (simp_all add: buf_with_def)

lemma ping_drain: "drain (nats_verdict casecmp) (''PING'' @ [CR, LF] @ ''MS'') =
    ([(msg_zero\<lparr>m_type := NGX_NATS_MSG_PING\<rparr>, ''PING'' @ [CR, LF])], Pending ''MS'')"
  by code_simp

theorem process_buffer_refines_witness:
  "\<exists>v. ngx_nats_process_buffer (history_cb (\<lambda>c h. [Unsubscribe 1]) (try_env 1 NGX_OK) 3) (try_env 1 NGX_OK)
      (set_rbuf (buf_with 4096 (''PING'' @ [CR, LF] @ ''MS'')) ready_world) = Some (NGX_OK, v)
    \<and> contents (w_rbuf v) = ''MS'' \<and> out v = map Some (''PONG'' @ [CR, LF])"
proof -
  let ?e = "try_env 1 NGX_OK" and ?b = "buf_with 4096 (''PING'' @ [CR, LF] @ ''MS'')" and ?w = "ready_world"
  let ?cb = "history_cb (\<lambda>c h. [Unsubscribe 1]) ?e 3"
  let ?m = "(msg_zero\<lparr>m_type := NGX_NATS_MSG_PING\<rparr>, ''PING'' @ [CR, LF])"
  have b: "rbuf_ok ?b" "contents ?b = ''PING'' @ [CR, LF] @ ''MS''" "b_cap ?b = 4096" by (simp_all add: buf_with_ok)
  have ceq: "e_ceq ?e = casecmp" by (simp add: try_env_def)
  have "digit_runs_le 18 0 (''PING'' @ [CR, LF] @ ''MS'')" by code_simp
  then have ok: "stream_ok (contents ?b)" unfolding b(2) by (simp add: stream_ok_def)
  have p: "''PONG'' @ [CR, LF] = take 6 (''PONG'' @ [CR, LF])" "0 < (6 :: nat)" "6 \<le> length (''PONG'' @ [CR, LF])"
    "b_end (w_wbuf (set_rbuf ?b ?w)) + 6 \<le> NGX_NATS_MAX_MESSAGE_SIZE"
    using ready_world_ok(3) by (simp_all add: NGX_NATS_MAX_MESSAGE_SIZE_def)
  obtain u where u: "add_message ?e (''PONG'' @ [CR, LF]) 6 (set_rbuf ?b ?w) = Some (NGX_OK, u)"
    "appended (set_rbuf ?b ?w) (''PONG'' @ [CR, LF]) u"
    using add_message_appended [of "set_rbuf ?b ?w" ?e, OF _ _ p(1-4)] ready_world_ok(2) try_env_sends(3) by fastforce
  have s: "serve ?cb ?e [?m] (set_rbuf ?b ?w) = Some (None, u)"
    using u(1) by (simp add: effect_def msg_types)
  have d: "drain (nats_verdict (e_ceq ?e)) (contents (w_rbuf (set_rbuf ?b ?w))) = ([?m], Pending ''MS'')"
    using ping_drain b(2) ceq by simp
  have w: "rbuf_ok (w_rbuf (set_rbuf ?b ?w))" "stream_ok (contents (w_rbuf (set_rbuf ?b ?w)))" using b(1) ok by simp_all
  have c: "4 \<le> b_cap (w_rbuf (set_rbuf ?b ?w))" using b(3) by simp
  have "pass_ends ?cb ?e ?b (Pending ''MS'') u (ngx_nats_process_buffer ?cb ?e (set_rbuf ?b ?w))"
    using process_buffer_refines [OF try_env_sends(2) w(1) c w(2) d, of "\<lambda>c h. [Unsubscribe 1]" 3, unfolded s] by simp
  then obtain d t where "ngx_nats_process_buffer ?cb ?e (set_rbuf ?b ?w) = Some (NGX_OK, u\<lparr>w_rbuf := d, w_tick := t\<rparr>)"
    "contents d = ''MS''" using b(3) by (auto simp: pass_ends_def)
  moreover have "out (u\<lparr>w_rbuf := d, w_tick := t\<rparr>) = out (set_rbuf ?b ?w) @ map Some (''PONG'' @ [CR, LF])" for d t
    using u(2) by (auto simp: appended_def out_def)
  moreover have "out (set_rbuf ?b ?w) = []" using ready_world_ok(4) by (simp add: out_def)
  ultimately show ?thesis by auto
qed

section \<open>Room for the next read\<close>

text \<open>
  C23: after the buffer was processed, the next \<open>recv\<close> is asked for at least one byte (a \<open>recv\<close> of 0
  bytes would return 0, which the caller takes for the end of the connection). When the complete
  messages were served and neither the limit of 256 MB nor the server's \<open>max_payload\<close> stands in the
  way, \<open>ngx_nats_process_buffer\<close> returns \<open>NGX_OK\<close>, the incomplete message lies at the start of the
  buffer, nothing else has changed, and the room \<open>cap - end - 1\<close> is positive.
\<close>

theorem process_buffer_room:
  assumes "sends_ok e" and "\<forall>t. e_alloc e t" and "rbuf_ok (w_rbuf w)" and "4 \<le> b_cap (w_rbuf w)"
    and "stream_ok (contents (w_rbuf w))" and "drain (nats_verdict (e_ceq e)) (contents (w_rbuf w)) = (fs, Pending q)"
    and "serve (history_cb prog e k) e fs w = Some (None, v)"
    and "length q + 1 < b_cap (w_rbuf w) \<or> b_cap (w_rbuf w) < NGX_NATS_MAX_MESSAGE_SIZE
        \<and> (srv_max_payload (w_conn v) \<le> 0 \<or> b_cap (w_rbuf w) < u64 (srv_max_payload (w_conn v)))"
  shows "\<exists>c t. ngx_nats_process_buffer (history_cb prog e k) e w = Some (NGX_OK, v\<lparr>w_rbuf := c, w_tick := t\<rparr>)
    \<and> contents c = q \<and> b_pos c = 0 \<and> b_end c + 1 < b_cap c"
proof -
  have "pass_ends (history_cb prog e k) e (w_rbuf w) (Pending q) v (ngx_nats_process_buffer (history_cb prog e k) e w)"
    using history.process_buffer_outcome [OF assms(1,3,4,5,6), of prog k] assms(7) by simp
  then show ?thesis using assms(2,8) by (auto simp: pass_ends_def at_limit_def)
qed

theorem process_buffer_room_witness:
  "\<exists>c t. ngx_nats_process_buffer (history_cb (\<lambda>c h. []) (try_env 1 NGX_OK) 1) (try_env 1 NGX_OK) (set_rbuf (buf_with 4 ''MSG'') ready_world)
      = Some (NGX_OK, ready_world\<lparr>w_rbuf := c, w_tick := t\<rparr>)
    \<and> contents c = ''MSG'' \<and> b_pos c = 0 \<and> b_end c + 1 < b_cap c"
proof -
  let ?e = "try_env 1 NGX_OK" and ?w = "set_rbuf (buf_with 4 ''MSG'') ready_world"
  have b: "rbuf_ok (w_rbuf ?w)" "4 \<le> b_cap (w_rbuf ?w)" "contents (w_rbuf ?w) = ''MSG''"
    using buf_with_ok [of "''MSG''" 4] by simp_all
  have "digit_runs_le 18 0 ''MSG''" by code_simp
  then have ok: "stream_ok (contents (w_rbuf ?w))" unfolding b(3) by (simp add: stream_ok_def)
  have "drain (nats_verdict casecmp) ''MSG'' = ([], Pending ''MSG'')" by code_simp
  moreover have "e_ceq ?e = casecmp" by (simp add: try_env_def)
  ultimately have d: "drain (nats_verdict (e_ceq ?e)) (contents (w_rbuf ?w)) = ([], Pending ''MSG'')" unfolding b(3) by simp
  have "srv_max_payload (w_conn ?w) \<le> 0" "b_cap (w_rbuf ?w) < NGX_NATS_MAX_MESSAGE_SIZE"
    using buf_with_ok(3) [of "''MSG''" 4] by (simp_all add: ready_world_def conn_zero_def NGX_NATS_MAX_MESSAGE_SIZE_def)
  then show ?thesis
    using process_buffer_room [OF try_env_sends(2,3) b(1,2) ok d, of "\<lambda>c h. []" 1 ?w] by auto
qed

end
