(* ===== verification/Nats_Info.thy ===== *)
theory Nats_Info
  imports "HOL-Library.Word" Nats_Read
begin

text \<open>
  The properties of the server: \<open>ngx_nats_parse_info\<close> of \<open>ngx_nats_comm.c\<close> against the table of the fields
  that the module knows and their types.
\<close>

text \<open>The known fields and their JSON types.\<close>

definition info_table :: "(bytes \<times> int) list" where
  "info_table = [(''server_id'', 7), (''host'', 7), (''port'', 5), (''version'', 7), (''auth_required'', 4),
     (''ssl_required'', 4), (''max_payload'', 5), (''go'', 7)]"

text \<open>A field is well typed when its type is that of the table; unknown fields may have any type.\<close>

definition field_typed :: "(bytes \<Rightarrow> bytes \<Rightarrow> bool) \<Rightarrow> bytes \<times> json \<Rightarrow> bool" where
  "field_typed ceq f \<longleftrightarrow> (\<forall>(k, t) \<in> set info_table. ceq (cstr (fst f)) k \<longrightarrow> json_type (snd f) = t)"

text \<open>The comparisons with the names of the table, all of them in lower case.\<close>

lemma casecmp_key:
  assumes "casecmp_ok ceq" and "map lower k = k"
  shows "ceq n k \<longleftrightarrow> map lower n = k"
  using assms by (simp add: casecmp_ok_def)

lemma casecmp_keys:
  assumes "casecmp_ok ceq"
  shows "ceq n ''server_id'' \<longleftrightarrow> map lower n = ''server_id''" "ceq n ''host'' \<longleftrightarrow> map lower n = ''host''"
    "ceq n ''port'' \<longleftrightarrow> map lower n = ''port''" "ceq n ''version'' \<longleftrightarrow> map lower n = ''version''"
    "ceq n ''auth_required'' \<longleftrightarrow> map lower n = ''auth_required''" "ceq n ''ssl_required'' \<longleftrightarrow> map lower n = ''ssl_required''"
    "ceq n ''max_payload'' \<longleftrightarrow> map lower n = ''max_payload''" "ceq n ''go'' \<longleftrightarrow> map lower n = ''go''"
  by (rule casecmp_key [OF assms], simp add: lower_def)+

lemma casecmp_differ:
  assumes "casecmp_ok ceq"
  shows "ceq n ''server_id'' \<Longrightarrow> \<not> ceq n ''host'' \<and> \<not> ceq n ''port'' \<and> \<not> ceq n ''version'' \<and> \<not> ceq n ''auth_required'' \<and> \<not> ceq n ''ssl_required'' \<and> \<not> ceq n ''max_payload'' \<and> \<not> ceq n ''go''"
    and "ceq n ''host'' \<Longrightarrow> \<not> ceq n ''server_id'' \<and> \<not> ceq n ''port'' \<and> \<not> ceq n ''version'' \<and> \<not> ceq n ''auth_required'' \<and> \<not> ceq n ''ssl_required'' \<and> \<not> ceq n ''max_payload'' \<and> \<not> ceq n ''go''"
    and "ceq n ''port'' \<Longrightarrow> \<not> ceq n ''server_id'' \<and> \<not> ceq n ''host'' \<and> \<not> ceq n ''version'' \<and> \<not> ceq n ''auth_required'' \<and> \<not> ceq n ''ssl_required'' \<and> \<not> ceq n ''max_payload'' \<and> \<not> ceq n ''go''"
    and "ceq n ''version'' \<Longrightarrow> \<not> ceq n ''server_id'' \<and> \<not> ceq n ''host'' \<and> \<not> ceq n ''port'' \<and> \<not> ceq n ''auth_required'' \<and> \<not> ceq n ''ssl_required'' \<and> \<not> ceq n ''max_payload'' \<and> \<not> ceq n ''go''"
    and "ceq n ''auth_required'' \<Longrightarrow> \<not> ceq n ''server_id'' \<and> \<not> ceq n ''host'' \<and> \<not> ceq n ''port'' \<and> \<not> ceq n ''version'' \<and> \<not> ceq n ''ssl_required'' \<and> \<not> ceq n ''max_payload'' \<and> \<not> ceq n ''go''"
    and "ceq n ''ssl_required'' \<Longrightarrow> \<not> ceq n ''server_id'' \<and> \<not> ceq n ''host'' \<and> \<not> ceq n ''port'' \<and> \<not> ceq n ''version'' \<and> \<not> ceq n ''auth_required'' \<and> \<not> ceq n ''max_payload'' \<and> \<not> ceq n ''go''"
    and "ceq n ''max_payload'' \<Longrightarrow> \<not> ceq n ''server_id'' \<and> \<not> ceq n ''host'' \<and> \<not> ceq n ''port'' \<and> \<not> ceq n ''version'' \<and> \<not> ceq n ''auth_required'' \<and> \<not> ceq n ''ssl_required'' \<and> \<not> ceq n ''go''"
    and "ceq n ''go'' \<Longrightarrow> \<not> ceq n ''server_id'' \<and> \<not> ceq n ''host'' \<and> \<not> ceq n ''port'' \<and> \<not> ceq n ''version'' \<and> \<not> ceq n ''auth_required'' \<and> \<not> ceq n ''ssl_required'' \<and> \<not> ceq n ''max_payload''"
  by (simp_all add: casecmp_keys [OF assms])

text \<open>One field: it is accepted when it is well typed, and sets only its own part.\<close>

definition json_str :: "bytes option \<Rightarrow> json option \<Rightarrow> bytes option" where
  "json_str old v = (case v of Some (JString s) \<Rightarrow> Some s | _ \<Rightarrow> old)"

definition json_int :: "int \<Rightarrow> json option \<Rightarrow> int" where
  "json_int old v = (case v of Some (JInt i) \<Rightarrow> i | _ \<Rightarrow> old)"

definition json_bool :: "bool \<Rightarrow> json option \<Rightarrow> bool" where
  "json_bool old v = (case v of Some (JBool b) \<Rightarrow> b | _ \<Rightarrow> old)"

lemmas json_sets = json_str_def json_int_def json_bool_def

text \<open>The properties of the server, each from the value of its own name.\<close>

definition info_set :: "(bytes \<Rightarrow> json option) \<Rightarrow> ngx_nats_connection \<Rightarrow> ngx_nats_connection" where
  "info_set val c = c\<lparr>
     srv_id := json_str (srv_id c) (val ''server_id''), srv_host := json_str (srv_host c) (val ''host''),
     srv_port := json_int (srv_port c) (val ''port''), srv_version := json_str (srv_version c) (val ''version''),
     srv_auth_required := json_bool (srv_auth_required c) (val ''auth_required''),
     srv_ssl_required := json_bool (srv_ssl_required c) (val ''ssl_required''),
     srv_max_payload := json_int (srv_max_payload c) (val ''max_payload''),
     go_version := json_str (go_version c) (val ''go'')\<rparr>"

lemma field_typed_simp:
  "field_typed ceq (n, v) \<longleftrightarrow> (ceq (cstr n) ''server_id'' \<or> ceq (cstr n) ''host'' \<or> ceq (cstr n) ''version'' \<or> ceq (cstr n) ''go''
       \<longrightarrow> json_type v = 7)
     \<and> (ceq (cstr n) ''port'' \<or> ceq (cstr n) ''max_payload'' \<longrightarrow> json_type v = 5)
     \<and> (ceq (cstr n) ''auth_required'' \<or> ceq (cstr n) ''ssl_required'' \<longrightarrow> json_type v = 4)"
  unfolding field_typed_def info_table_def by auto

text \<open>The equation of each field.\<close>

lemma info_field_eqs:
  assumes "casecmp_ok ceq"
  shows "ceq n ''server_id'' \<Longrightarrow> info_field ceq n v c = (case v of JString s \<Rightarrow> Some (c\<lparr>srv_id := Some s\<rparr>) | _ \<Rightarrow> None)"
    and "ceq n ''host'' \<Longrightarrow> info_field ceq n v c = (case v of JString s \<Rightarrow> Some (c\<lparr>srv_host := Some s\<rparr>) | _ \<Rightarrow> None)"
    and "ceq n ''port'' \<Longrightarrow> info_field ceq n v c = (case v of JInt i \<Rightarrow> Some (c\<lparr>srv_port := i\<rparr>) | _ \<Rightarrow> None)"
    and "ceq n ''version'' \<Longrightarrow> info_field ceq n v c = (case v of JString s \<Rightarrow> Some (c\<lparr>srv_version := Some s\<rparr>) | _ \<Rightarrow> None)"
    and "ceq n ''auth_required'' \<Longrightarrow> info_field ceq n v c = (case v of JBool i \<Rightarrow> Some (c\<lparr>srv_auth_required := i\<rparr>) | _ \<Rightarrow> None)"
    and "ceq n ''ssl_required'' \<Longrightarrow> info_field ceq n v c = (case v of JBool i \<Rightarrow> Some (c\<lparr>srv_ssl_required := i\<rparr>) | _ \<Rightarrow> None)"
    and "ceq n ''max_payload'' \<Longrightarrow> info_field ceq n v c = (case v of JInt i \<Rightarrow> Some (c\<lparr>srv_max_payload := i\<rparr>) | _ \<Rightarrow> None)"
    and "ceq n ''go'' \<Longrightarrow> info_field ceq n v c = (case v of JString s \<Rightarrow> Some (c\<lparr>go_version := Some s\<rparr>) | _ \<Rightarrow> None)"
  by (frule casecmp_differ [OF assms], simp only: info_field_def simp_thms if_True if_False)+

lemma info_field_other:
  "\<not> ceq n ''server_id'' \<and> \<not> ceq n ''host'' \<and> \<not> ceq n ''port'' \<and> \<not> ceq n ''version'' \<and> \<not> ceq n ''auth_required'' \<and> \<not> ceq n ''ssl_required'' \<and> \<not> ceq n ''max_payload'' \<and> \<not> ceq n ''go'' \<Longrightarrow> info_field ceq n v c = Some c"
  by (simp only: info_field_def simp_thms if_True if_False)

lemma info_field_known:
  assumes "casecmp_ok ceq"
  shows "(info_field ceq n v c \<noteq> None \<longleftrightarrow>
        (ceq n ''server_id'' \<or> ceq n ''host'' \<or> ceq n ''version'' \<or> ceq n ''go'' \<longrightarrow> json_type v = 7)
        \<and> (ceq n ''port'' \<or> ceq n ''max_payload'' \<longrightarrow> json_type v = 5)
        \<and> (ceq n ''auth_required'' \<or> ceq n ''ssl_required'' \<longrightarrow> json_type v = 4))
    \<and> (\<forall>c'. info_field ceq n v c = Some c' \<longrightarrow> c' = info_set (\<lambda>k. if ceq n k then Some v else None) c)"
proof -
  note d = casecmp_differ [OF assms, of n]
  consider "ceq n ''server_id''" | "ceq n ''host''" | "ceq n ''port''" | "ceq n ''version''" | "ceq n ''auth_required''" | "ceq n ''ssl_required''" | "ceq n ''max_payload''" | "ceq n ''go''" | "\<not> ceq n ''server_id'' \<and> \<not> ceq n ''host'' \<and> \<not> ceq n ''port'' \<and> \<not> ceq n ''version'' \<and> \<not> ceq n ''auth_required'' \<and> \<not> ceq n ''ssl_required'' \<and> \<not> ceq n ''max_payload'' \<and> \<not> ceq n ''go''"
    by blast
  then show ?thesis
  proof cases
    case 1
    note this [simp] d(1) [OF this, simp]
    show ?thesis unfolding info_field_eqs(1) [OF assms 1]
      by (cases v) (simp_all add: info_set_def json_sets)
  next
    case 2
    note this [simp] d(2) [OF this, simp]
    show ?thesis unfolding info_field_eqs(2) [OF assms 2]
      by (cases v) (simp_all add: info_set_def json_sets)
  next
    case 3
    note this [simp] d(3) [OF this, simp]
    show ?thesis unfolding info_field_eqs(3) [OF assms 3]
      by (cases v) (simp_all add: info_set_def json_sets)
  next
    case 4
    note this [simp] d(4) [OF this, simp]
    show ?thesis unfolding info_field_eqs(4) [OF assms 4]
      by (cases v) (simp_all add: info_set_def json_sets)
  next
    case 5
    note this [simp] d(5) [OF this, simp]
    show ?thesis unfolding info_field_eqs(5) [OF assms 5]
      by (cases v) (simp_all add: info_set_def json_sets)
  next
    case 6
    note this [simp] d(6) [OF this, simp]
    show ?thesis unfolding info_field_eqs(6) [OF assms 6]
      by (cases v) (simp_all add: info_set_def json_sets)
  next
    case 7
    note this [simp] d(7) [OF this, simp]
    show ?thesis unfolding info_field_eqs(7) [OF assms 7]
      by (cases v) (simp_all add: info_set_def json_sets)
  next
    case 8
    note this [simp] d(8) [OF this, simp]
    show ?thesis unfolding info_field_eqs(8) [OF assms 8]
      by (cases v) (simp_all add: info_set_def json_sets)
  next
    case 9
    then have e: "info_field ceq n v c = Some c" by (rule info_field_other)
    show ?thesis unfolding e using 9 by (simp add: info_set_def json_sets)
  qed
qed

text \<open>The last value of a field counts.\<close>

fun info_value :: "(bytes \<Rightarrow> bytes \<Rightarrow> bool) \<Rightarrow> bytes \<Rightarrow> (bytes \<times> json) list \<Rightarrow> json option" where
  "info_value ceq k [] = None"
| "info_value ceq k ((n, v) # fs) =
     (case info_value ceq k fs of Some x \<Rightarrow> Some x | None \<Rightarrow> if ceq (cstr n) k then Some v else None)"

definition info_spec :: "(bytes \<Rightarrow> bytes \<Rightarrow> bool) \<Rightarrow> (bytes \<times> json) list \<Rightarrow> ngx_nats_connection \<Rightarrow> ngx_nats_connection" where
  "info_spec ceq fs = info_set (\<lambda>k. info_value ceq k fs)"

lemma json_types:
  "json_type v = 7 \<longleftrightarrow> (\<exists>s. v = JString s)" "json_type v = 5 \<longleftrightarrow> (\<exists>i. v = JInt i)"
  "json_type v = 4 \<longleftrightarrow> (\<exists>b. v = JBool b)"
  by (cases v; simp)+

lemma info_value_typed:
  assumes "\<forall>f \<in> set fs. field_typed ceq f" and "info_value ceq k fs = Some x" and "(k, t) \<in> set info_table"
  shows "json_type x = t"
  using assms
  by (induction fs) (auto simp: field_typed_def simp del: json_type.simps split: option.splits if_splits)

text \<open>A later value of the same field replaces an earlier one.\<close>

lemma info_set_later:
  assumes "\<And>k t x. r k = Some x \<Longrightarrow> (k, t) \<in> set info_table \<Longrightarrow> json_type x = t"
  shows "info_set r (info_set v c) = info_set (\<lambda>k. case r k of Some x \<Rightarrow> Some x | None \<Rightarrow> v k) c"
proof -
  have str: "json_str (json_str old (v k)) (r k) = json_str old (case r k of Some x \<Rightarrow> Some x | None \<Rightarrow> v k)"
    if "(k, 7) \<in> set info_table" for old k
    using assms [OF _ that] by (cases "r k") (auto simp: json_str_def json_types)
  have int: "json_int (json_int old (v k)) (r k) = json_int old (case r k of Some x \<Rightarrow> Some x | None \<Rightarrow> v k)"
    if "(k, 5) \<in> set info_table" for old k
    using assms [OF _ that] by (cases "r k") (auto simp: json_int_def json_types)
  have bool: "json_bool (json_bool old (v k)) (r k) = json_bool old (case r k of Some x \<Rightarrow> Some x | None \<Rightarrow> v k)"
    if "(k, 4) \<in> set info_table" for old k
    using assms [OF _ that] by (cases "r k") (auto simp: json_bool_def json_types)
  show ?thesis unfolding info_set_def by (simp add: str int bool info_table_def)
qed

lemma info_fields_spec:
  assumes "casecmp_ok ceq" and "info_fields ceq fs c = (rc, c')"
  shows "rc \<in> {NGX_OK, NGX_ERROR} \<and> (rc = NGX_OK \<longleftrightarrow> (\<forall>f \<in> set fs. field_typed ceq f))
    \<and> (rc = NGX_OK \<longrightarrow> c' = info_spec ceq fs c)"
  using assms(2)
proof (induction fs arbitrary: c)
  case Nil
  then show ?case by (simp add: info_spec_def info_set_def json_sets)
next
  case (Cons f fs)
  obtain n v where f: "f = (n, v)" by (cases f)
  note k = info_field_known [OF assms(1), of "cstr n" v c, folded field_typed_simp]
  show ?case
  proof (cases "info_field ceq (cstr n) v c")
    case None
    with Cons.prems f k show ?thesis by auto
  next
    case (Some d)
    have "info_fields ceq fs d = (rc, c')" using Cons.prems f Some by simp
    then have IH: "rc \<in> {NGX_OK, NGX_ERROR} \<and> (rc = NGX_OK \<longleftrightarrow> (\<forall>f \<in> set fs. field_typed ceq f))
      \<and> (rc = NGX_OK \<longrightarrow> c' = info_spec ceq fs d)"
      by (rule Cons.IH)
    have d: "field_typed ceq (n, v)" "d = info_set (\<lambda>k. if ceq (cstr n) k then Some v else None) c"
      using k Some by simp_all
    show ?thesis
    proof (cases "rc = NGX_OK")
      case True
      with IH have ty: "\<forall>f \<in> set fs. field_typed ceq f" by simp
      have "info_spec ceq fs d = info_spec ceq (f # fs) c"
        unfolding info_spec_def d(2) f info_value.simps by (rule info_set_later) (rule info_value_typed [OF ty])
      with IH True d(1) f show ?thesis by simp
    next
      case False
      with IH d(1) f show ?thesis by simp
    qed
  qed
qed

text \<open>
  C19: INFO is type checked. \<open>ngx_nats_parse_info\<close> accepts the object exactly when every known field has the
  type of the table, whatever fields there are besides and in which order and how often they come;
  then the version and the maximal payload are those of the last field of that name, and are as before
  when there is none.
\<close>

theorem info_typed:
  assumes "casecmp_ok ceq" and "info_fields ceq fs c = (rc, c')"
  shows "rc \<in> {NGX_OK, NGX_ERROR} \<and> (rc = NGX_OK \<longleftrightarrow> (\<forall>f \<in> set fs. field_typed ceq f))
    \<and> (rc = NGX_OK \<longrightarrow> srv_version c' = json_str (srv_version c) (info_value ceq ''version'' fs)
         \<and> srv_max_payload c' = json_int (srv_max_payload c) (info_value ceq ''max_payload'' fs))"
  using info_fields_spec [OF assms] by (auto simp: info_spec_def info_set_def)

theorem info_typed_witness:
  "\<exists>c'. info_fields casecmp [(''Version'', JString ''0.8''), (''MAX_PAYLOAD'', JInt 9), (''x'', JNull)] conn_zero = (NGX_OK, c')
     \<and> srv_version c' = Some ''0.8'' \<and> srv_max_payload c' = 9"
proof -
  let ?fs = "[(''Version'', JString ''0.8''), (''MAX_PAYLOAD'', JInt 9), (''x'', JNull)]"
  have v: "info_value casecmp ''version'' ?fs = Some (JString ''0.8'')" "info_value casecmp ''max_payload'' ?fs = Some (JInt 9)"
    "fst (info_fields casecmp ?fs conn_zero) = NGX_OK"
    by code_simp+
  from info_typed [OF casecmp_ok_casecmp prod.collapse [symmetric], of ?fs conn_zero] v
  show ?thesis by (intro exI [of _ "snd (info_fields casecmp ?fs conn_zero)"]) (auto simp: json_str_def json_int_def prod_eq_iff)
qed

end
