(* ===== verification/Nats_Delivery.thy ===== *)
theory Nats_Delivery
  imports "HOL-Library.Word" Nats_Serve_Props Nats_Json_Roundtrip Nats_Info
begin

text \<open>
  From the wire to the clients: a MSG is handed to the handler of its subscription exactly as it was
  published, an INFO sets the properties of the server, and INFO followed by PONG completes the
  handshake.
\<close>

section \<open>MSG\<close>

lemma slice_mem_get:
  assumes "Nats_Prelude.slice s i (i + n) = xs" and "length xs = n" and "xs \<noteq> []"
  shows "mem_get s i n = Some xs"
proof -
  have "min n (length s - i) = n" using assms(1,2) by (auto simp: Nats_Prelude.slice_def min.commute)
  with assms show ?thesis by (auto simp: mem_get_def Nats_Prelude.slice_def)
qed

text \<open>The text of a MSG at the start of the input is parsed as a message whose effect is the call of the handler.\<close>

lemma text_effect:
  assumes "casecmp_ok (e_ceq e)" and "\<forall>t. e_alloc e t"
    and "token_ok subject" and "\<forall>r. reply = Some r \<longrightarrow> token_ok r" and "sid < 2 ^ 63"
    and "length (msg_text subject sid reply payload @ rest) < 2 ^ 62"
  obtains m s where "ngx_nats_parse (e_ceq e) (msg_text subject sid reply payload @ rest)
        = Some (int (length (msg_text subject sid reply payload)), m, s)"
    and "length s = length (msg_text subject sid reply payload @ rest)"
    and "drop (length (msg_text subject sid reply payload)) s = rest"
    and "\<And>w i. ngx_nats_get_subscription (w_subs w) (int sid) = Some i \<Longrightarrow> effect cb e m s w =
        do { v \<leftarrow> call cb (HandleMsg (su_handler (w_subs w ! i))
                     \<lparr>mg_client = su_client (w_subs w ! i), mg_sid = int sid, mg_subject = subject,
                      mg_replyto = reply, mg_data = payload, mg_sub_data = su_data (w_subs w ! i)\<rparr>)
                   (w\<lparr>w_subs := count_delivery (w_subs w) i, w_tick := w_tick w + 2\<rparr>);
             Some (None, v) }"
proof -
  let ?text = "msg_text subject sid reply payload"
  obtain m s where p: "ngx_nats_parse (e_ceq e) (?text @ rest) = Some (int (length ?text), m, s)"
    and m: "m_type m = NGX_NATS_MSG_MSG" "m_sid m = int sid"
      "s_len (m_replyto m) = (case reply of None \<Rightarrow> 0 | Some r \<Rightarrow> length r)" "m_len m = int (length payload)"
    and sl: "Nats_Prelude.slice s (s_off (m_subject m)) (s_off (m_subject m) + s_len (m_subject m)) = subject"
      "\<forall>r. reply = Some r \<longrightarrow> Nats_Prelude.slice s (s_off (m_replyto m)) (s_off (m_replyto m) + s_len (m_replyto m)) = r"
      "Nats_Prelude.slice s (m_bstart m) (m_bend m) = payload"
    and bd: "drop (length ?text) s = rest" "m_bstart m \<le> m_bend m" "m_bend m \<le> length s" "length s = length (?text @ rest)"
      "s_len (m_subject m) = length subject"
    using parse_text_back [OF assms(1,3,4,5,6)] by (elim exE conjE) (rule that)
  have ne: "subject \<noteq> []" "\<And>r. reply = Some r \<Longrightarrow> r \<noteq> []" using assms(3,4) by (auto simp: token_ok_def)
  have subj: "str_bytes s (m_subject m) = Some subject"
    unfolding str_bytes_def by (rule slice_mem_get [OF sl(1)]) (use bd(5) ne(1) in simp_all)
  have "str_bytes s (m_replyto m) = Some r" if "reply = Some r" for r
    unfolding str_bytes_def by (rule slice_mem_get) (use that sl(2) m(3) ne(2) in simp_all)
  then have rep: "(if s_len (m_replyto m) > 0 then map_option Some (str_bytes s (m_replyto m)) else Some None) = Some reply"
    using m(3) ne(2) by (cases reply) simp_all
  have dat: "mem_get s (m_bstart m) (usub (m_bend m) (m_bstart m)) = Some payload"
    using sl(3) bd by (auto simp: mem_get_def Nats_Prelude.slice_def)
  show thesis
    by (rule that [OF p bd(4,1)])
      (use m(1,2) assms(2) in \<open>simp add: effect_def msg_types ngx_nats_process_msg_def Let_def subj rep dat tick_def del: usub_le\<close>)
qed

lemma message_step:
  assumes "casecmp_ok (e_ceq e)" and "\<forall>t. e_alloc e t" and "rbuf_ok (w_rbuf w)"
    and "contents (w_rbuf w) = msg_text subject sid reply payload @ rest"
    and "token_ok subject" and "\<forall>r. reply = Some r \<longrightarrow> token_ok r" and "sid < 2 ^ 63"
    and "length (msg_text subject sid reply payload @ rest) < 2 ^ 62"
    and "ngx_nats_get_subscription (w_subs w) (int sid) = Some i"
  shows "\<exists>c. rbuf_ok c \<and> drop (length (msg_text subject sid reply payload)) (contents c) = rest
    \<and> nats_process_buffer_msg cb e w =
        do { v \<leftarrow> call cb (HandleMsg (su_handler (w_subs w ! i))
                     \<lparr>mg_client = su_client (w_subs w ! i), mg_sid = int sid, mg_subject = subject,
                      mg_replyto = reply, mg_data = payload, mg_sub_data = su_data (w_subs w ! i)\<rparr>)
                   (w\<lparr>w_rbuf := c, w_subs := count_delivery (w_subs w) i, w_tick := w_tick w + 2\<rparr>);
             Some (int (length (msg_text subject sid reply payload)), v) }"
proof -
  let ?text = "msg_text subject sid reply payload" and ?b = "w_rbuf w"
  obtain m s where p: "ngx_nats_parse (e_ceq e) (contents ?b) = Some (int (length ?text), m, s)"
    and l: "length s = length (contents ?b)" and r: "drop (length ?text) s = rest"
    and ef: "\<And>w i. ngx_nats_get_subscription (w_subs w) (int sid) = Some i \<Longrightarrow> effect cb e m s w =
        do { v \<leftarrow> call cb (HandleMsg (su_handler (w_subs w ! i))
                     \<lparr>mg_client = su_client (w_subs w ! i), mg_sid = int sid, mg_subject = subject,
                      mg_replyto = reply, mg_data = payload, mg_sub_data = su_data (w_subs w ! i)\<rparr>)
                   (w\<lparr>w_subs := count_delivery (w_subs w) i, w_tick := w_tick w + 2\<rparr>);
             Some (None, v) }"
    by (rule text_effect [OF assms(1,2,5-8), folded assms(4), where cb = cb]) (rule that)
  have len: "0 < length ?text" "length ?text \<le> length (contents ?b)" using assms(4) by (simp_all add: msg_text_def)
  obtain c where c: "\<And>w. nats_process_buffer_msg cb e (set_rbuf ?b w) = handle_message cb e (int (length ?text)) m s (set_rbuf c w)"
    "rbuf_ok c" "contents c = s"
    by (rule buffer_msg_parsed [OF assms(3) p len l, where cb = cb]) (rule that)
  show ?thesis
    using c(1) [of w] c(2,3) r ef [of "set_rbuf c w"] assms(9)
    by (intro exI [of _ c]) (simp add: handle_message_effect)
qed

context blind_callbacks
begin

lemma process_buffer_text:
  assumes "sends_ok e" and "casecmp_ok (e_ceq e)" and "\<forall>t. e_alloc e t" and "rbuf_ok (w_rbuf w)"
    and "contents (w_rbuf w) = msg_text subject sid reply payload @ rest"
    and "token_ok subject" and "\<forall>r. reply = Some r \<longrightarrow> token_ok r" and "sid < 2 ^ 63"
    and "length (msg_text subject sid reply payload @ rest) < 2 ^ 62"
    and "ngx_nats_get_subscription (w_subs w) (int sid) = Some i"
  shows "\<exists>c. rbuf_ok c \<and> contents c = rest \<and> b_cap c = b_cap (w_rbuf w)
    \<and> ngx_nats_process_buffer cb e w =
        do { v \<leftarrow> call cb (HandleMsg (su_handler (w_subs w ! i))
                     \<lparr>mg_client = su_client (w_subs w ! i), mg_sid = int sid, mg_subject = subject,
                      mg_replyto = reply, mg_data = payload, mg_sub_data = su_data (w_subs w ! i)\<rparr>)
                   (w\<lparr>w_subs := count_delivery (w_subs w) i, w_tick := w_tick w + 2\<rparr>);
             ngx_nats_process_buffer cb e (set_rbuf c v) }"
proof -
  let ?text = "msg_text subject sid reply payload" and ?b = "w_rbuf w"
  let ?n = "length ?text"
  obtain m s where p: "ngx_nats_parse (e_ceq e) (contents ?b) = Some (int ?n, m, s)"
    and l: "length s = length (contents ?b)" and r: "drop ?n s = rest"
    and ef: "\<And>w i. ngx_nats_get_subscription (w_subs w) (int sid) = Some i \<Longrightarrow> effect cb e m s w =
        do { v \<leftarrow> call cb (HandleMsg (su_handler (w_subs w ! i))
                     \<lparr>mg_client = su_client (w_subs w ! i), mg_sid = int sid, mg_subject = subject,
                      mg_replyto = reply, mg_data = payload, mg_sub_data = su_data (w_subs w ! i)\<rparr>)
                   (w\<lparr>w_subs := count_delivery (w_subs w) i, w_tick := w_tick w + 2\<rparr>);
             Some (None, v) }"
    by (rule text_effect [OF assms(2,3,6-9), folded assms(5), where cb = cb]) (rule that)
  have len: "0 < ?n" "?n \<le> length (contents ?b)" using assms(5) by (simp_all add: msg_text_def)
  obtain c where c: "\<And>w. nats_process_buffer_msg cb e (set_rbuf ?b w) = handle_message cb e (int ?n) m s (set_rbuf c w)"
    "\<And>w. skip_message (int ?n) (set_rbuf c w) = set_rbuf (c\<lparr>b_pos := b_pos c + ?n\<rparr>) w"
    "rbuf_ok (c\<lparr>b_pos := b_pos c + ?n\<rparr>)" "b_cap c = b_cap ?b" "contents (c\<lparr>b_pos := b_pos c + ?n\<rparr>) = drop ?n s"
    by (rule buffer_msg_parsed [OF assms(4) p len l, where cb = cb]) (rule that)
  have "ngx_nats_process_buffer cb e w = do { (x, v) \<leftarrow> effect cb e m s w;
      case x of None \<Rightarrow> ngx_nats_process_buffer cb e (set_rbuf (c\<lparr>b_pos := b_pos c + ?n\<rparr>) v)
      | Some reason \<Rightarrow> shut cb e reason (set_rbuf c v) }"
    unfolding ngx_nats_process_buffer.simps [of cb e w] c(1) [of w, simplified] handle_message_effect effect_rbuf [OF assms(1)]
  proof (cases "effect cb e m s w", goal_cases)
    case (2 y)
    then show ?case using len(1) by (cases y; cases "fst y") (simp_all add: c(2) shut_le)
  qed simp
  with c(3-5) r ef [OF assms(10)] show ?thesis by (intro exI [of _ "c\<lparr>b_pos := b_pos c + ?n\<rparr>"]) simp
qed

end

text \<open>
  C7: a message reaches its subscriber unchanged. When the bytes in the read buffer start with the text
  of a MSG and its sid is in the table, \<open>ngx_nats_process_buffer\<close> counts the delivery, calls the
  handler of that subscription once, with the client and the data that were given when
  subscribing, the subject, the reply-to (none when there is none) and the payload, bytes of any
  value included, and then does what it does on a buffer that holds exactly the bytes after that
  text. The clients may answer their callbacks with calls of the client functions; sending and
  allocating do not fail.
\<close>

theorem message_delivered:
  assumes "sends_ok e" and "casecmp_ok (e_ceq e)" and "\<forall>t. e_alloc e t" and "rbuf_ok (w_rbuf w)"
    and "contents (w_rbuf w) = msg_text subject sid reply payload @ rest"
    and "token_ok subject" and "\<forall>r. reply = Some r \<longrightarrow> token_ok r" and "sid < 2 ^ 63"
    and "length (msg_text subject sid reply payload @ rest) < 2 ^ 62"
    and "ngx_nats_get_subscription (w_subs w) (int sid) = Some i"
  shows "\<exists>c. rbuf_ok c \<and> contents c = rest \<and> b_cap c = b_cap (w_rbuf w)
    \<and> ngx_nats_process_buffer (history_cb prog e k) e w =
        do { v \<leftarrow> call (history_cb prog e k) (HandleMsg (su_handler (w_subs w ! i))
                     \<lparr>mg_client = su_client (w_subs w ! i), mg_sid = int sid, mg_subject = subject,
                      mg_replyto = reply, mg_data = payload, mg_sub_data = su_data (w_subs w ! i)\<rparr>)
                   (w\<lparr>w_subs := count_delivery (w_subs w) i, w_tick := w_tick w + 2\<rparr>);
             ngx_nats_process_buffer (history_cb prog e k) e (set_rbuf c v) }"
  by (rule history.process_buffer_text [OF assms])

theorem message_delivered_witness:
  "\<exists>v c. ngx_nats_process_buffer (history_cb (\<lambda>c h. []) (try_env 1 NGX_OK) 1) (try_env 1 NGX_OK)
      (ready_world\<lparr>w_rbuf := buf_with 4096 (msg_text ''foo'' 1 (Some ''r'') ''hi'' @ ''PI''),
         w_subs := [\<lparr>su_client = 8, su_handler = 3, su_data = 5, su_sid = 1, su_max = 0, su_recv = 0\<rparr>]\<rparr>)
      = ngx_nats_process_buffer (history_cb (\<lambda>c h. []) (try_env 1 NGX_OK) 1) (try_env 1 NGX_OK) (set_rbuf c v)
    \<and> contents c = ''PI''
    \<and> callbacks (w_log v) = [HandleMsg 3 \<lparr>mg_client = 8, mg_sid = 1, mg_subject = ''foo'', mg_replyto = Some ''r'',
         mg_data = ''hi'', mg_sub_data = 5\<rparr>]"
proof -
  let ?s = "\<lparr>su_client = 8, su_handler = 3, su_data = 5, su_sid = 1, su_max = 0, su_recv = 0\<rparr>"
  let ?w = "ready_world\<lparr>w_rbuf := buf_with 4096 (msg_text ''foo'' 1 (Some ''r'') ''hi'' @ ''PI''), w_subs := [?s]\<rparr>"
  have len: "length (msg_text ''foo'' 1 (Some ''r'') ''hi'') = 19" by (simp add: msg_text_def dec.simps)
  have b: "rbuf_ok (w_rbuf ?w)" "contents (w_rbuf ?w) = msg_text ''foo'' 1 (Some ''r'') ''hi'' @ ''PI''"
    using len by (simp_all add: buf_with_ok)
  have c: "casecmp_ok (e_ceq (try_env 1 NGX_OK))" "token_ok ''foo''" "\<forall>r. Some ''r'' = Some r \<longrightarrow> token_ok r" "(1 :: nat) < 2 ^ 63"
    "length (msg_text ''foo'' 1 (Some ''r'') ''hi'' @ ''PI'') < 2 ^ 62"
    "ngx_nats_get_subscription (w_subs ?w) (int 1) = Some 0"
    using len by (simp_all add: try_env_def token_ok_def ngx_nats_get_subscription_def)
  have log: "w_log ready_world = []" by (simp add: ready_world_def nats_data_init_def)
  have "call (history_cb (\<lambda>c h. []) (try_env 1 NGX_OK) 1) x w = Some (emit (Callback x) w)" for x w
    by (simp add: call_def history_cb_def)
  then have call: "call (history_cb (\<lambda>c h. []) (try_env 1 NGX_OK) 1) x w = Some (w\<lparr>w_log := w_log w @ [Callback x]\<rparr>)" for x w
    by (simp add: emit_def)
  obtain c where c2: "contents c = ''PI''" and run: "ngx_nats_process_buffer (history_cb (\<lambda>c h. []) (try_env 1 NGX_OK) 1) (try_env 1 NGX_OK) ?w
      = do { v \<leftarrow> call (history_cb (\<lambda>c h. []) (try_env 1 NGX_OK) 1) (HandleMsg (su_handler (w_subs ?w ! 0))
                     \<lparr>mg_client = su_client (w_subs ?w ! 0), mg_sid = int 1, mg_subject = ''foo'',
                      mg_replyto = Some ''r'', mg_data = ''hi'', mg_sub_data = su_data (w_subs ?w ! 0)\<rparr>)
                   (?w\<lparr>w_subs := count_delivery (w_subs ?w) 0, w_tick := w_tick ?w + 2\<rparr>);
             ngx_nats_process_buffer (history_cb (\<lambda>c h. []) (try_env 1 NGX_OK) 1) (try_env 1 NGX_OK) (set_rbuf c v) }"
    using message_delivered [OF try_env_sends(2) c(1) try_env_sends(3) b c(2-6), of "\<lambda>c h. []" 1]
    by (elim exE conjE) (rule that)
  show ?thesis
    unfolding run call bind.bind_lunit
    by (rule exI, rule exI [of _ c], intro conjI, rule refl, rule c2) (simp add: log)
qed

section \<open>INFO\<close>

text \<open>The parser on \<open>INFO\<close> with a text that begins with no space and holds no carriage return.\<close>

definition info_text :: "bytes \<Rightarrow> bytes" where
  "info_text json = ''INFO '' @ json @ [CR, LF]"

definition info_msg :: "bytes \<Rightarrow> ngx_nats_msg" where
  "info_msg json = msg_zero\<lparr>m_type := NGX_NATS_MSG_INFO, m_bstart := 5, m_bend := 5 + length json\<rparr>"

lemma parse_info_text:
  assumes "casecmp_ok ceq" and "json \<noteq> []" and "hd json \<noteq> SP" and "CR \<notin> set json"
  shows "ngx_nats_parse ceq (info_text json @ rest) =
    Some (int (7 + length json), info_msg json, ''INFO '' @ json @ [NUL, LF] @ rest)"
proof -
  let ?s = "info_text json @ rest" and ?e = "5 + length json"
  have s: "?s = ''INFO '' @ json @ [CR, LF] @ rest" by (simp add: info_text_def)
  have at: "?s ! (5 + i) = json ! i" if "i < length json" for i
    using that unfolding s by (simp add: nth_append)
  have h: "header_loop ?s 0 = Some (Inr 4)" unfolding s by (simp add: header_loop.simps numeral_eq_Suc)
  have len: "length ?s = ?e + 2 + length rest" unfolding s by simp
  have s4: "?s ! 4 = SP" "?s ! ?e = CR" "?s ! (?e + 1) = LF" unfolding s by (simp_all add: nth_append)
  have s5: "?s ! 5 \<noteq> SP" using at [of 0] assms(2,3) by (simp add: hd_conv_nth)
  have "scan_while (\<lambda>c. c = SP) ?s (length ?s) 4 = Some 5"
    by (rule scan_while_eqI) (use len s4 s5 in \<open>auto simp: less_Suc_eq numeral_eq_Suc\<close>)
  moreover have "?s ! i \<noteq> CR" if "6 \<le> i" "i < ?e" for i
  proof -
    have l: "i - 5 < length json" using that by linarith
    have "?s ! i = json ! (i - 5)" using at [OF l] that(1) by simp
    with nth_mem [OF l] assms(4) show ?thesis by metis
  qed
  then have "scan_while (\<lambda>c. c \<noteq> CR) ?s (length ?s) (5 + 1) = Some ?e"
    using assms(2) s4(2) len by (intro scan_while_eqI) (auto simp: Suc_le_eq)
  moreover have "?s[?e := NUL] = ''INFO '' @ json @ [NUL, LF] @ rest" unfolding s by (simp add: list_update_append)
  ultimately have "ngx_nats_parse_info ?s 4 msg_zero = Some (int (7 + length json), info_msg json, ''INFO '' @ json @ [NUL, LF] @ rest)"
    using len s4 by (simp add: ngx_nats_parse_info_def Let_def info_msg_def)
  moreover have "take 4 ?s = ''INFO''" unfolding s by simp
  ultimately show ?thesis
    using h len assms(1) by (simp add: ngx_nats_parse_def casecmp_ok_def lower_def)
qed

section \<open>The handshake\<close>

lemma print_object_start: "\<exists>t. ngx_nats_json_debug_print fmt (JObject fs) = CHR ''{'' # t"
  by (simp add: ngx_nats_json_debug_print_def)

lemma info_fields_state: "nc_state (snd (info_fields ceq fs c)) = nc_state c"
proof (induction ceq fs c rule: info_fields.induct)
  case (2 ceq name v fs c)
  have "info_field ceq n v c = Some c' \<Longrightarrow> nc_state c' = nc_state c" for n c'
    by (auto simp: info_field_def split: if_splits json.splits)
  with 2 show ?case by (auto split: option.split)
qed simp

lemma each_connected:
  "each_client (\<lambda>c. call no_calls (Connected (cl_id c))) cs w
     = Some (w\<lparr>w_log := w_log w @ map (\<lambda>c. Callback (Connected (cl_id c))) cs\<rparr>)"
  by (induction cs arbitrary: w) (simp_all add: call_def no_calls_def emit_def)

lemma parse_pong_text:
  assumes "casecmp_ok ceq"
  shows "ngx_nats_parse ceq (''PONG'' @ [CR, LF] @ rest) = Some (6, msg_zero\<lparr>m_type := NGX_NATS_MSG_PONG\<rparr>, ''PONG'' @ [CR, LF] @ rest)"
proof -
  have "header_loop (''PONG'' @ [CR, LF] @ rest) 0 = Some (Inr 4)" by (simp add: header_loop.simps numeral_eq_Suc)
  then show ?thesis using assms
    by (simp add: ngx_nats_parse_def ngx_nats_parse_pong_def Let_def casecmp_ok_def lower_def numeral_eq_Suc)
qed

text \<open>One pass of the loop over a complete message that is handled without a close.\<close>

lemma process_buffer_frame:
  assumes b: "rbuf_ok b" and p: "ngx_nats_parse (e_ceq e) (contents b) = Some (int n, m, s)"
    and n: "0 < n" "n \<le> length (contents b)" "length s = length (contents b)"
    and h: "\<And>c. handle_message cb e (int n) m s (set_rbuf c w) = Some (int n, set_rbuf c v)"
  shows "\<exists>c. rbuf_ok c \<and> contents c = drop n s \<and> b_cap c = b_cap b
    \<and> ngx_nats_process_buffer cb e (set_rbuf b w) = ngx_nats_process_buffer cb e (set_rbuf c v)"
proof -
  obtain c where c: "\<And>w. nats_process_buffer_msg cb e (set_rbuf b w) = handle_message cb e (int n) m s (set_rbuf c w)"
    "\<And>w. skip_message (int n) (set_rbuf c w) = set_rbuf (c\<lparr>b_pos := b_pos c + n\<rparr>) w"
    "rbuf_ok (c\<lparr>b_pos := b_pos c + n\<rparr>)" "b_cap c = b_cap b" "contents (c\<lparr>b_pos := b_pos c + n\<rparr>) = drop n s"
    by (rule buffer_msg_parsed [OF b p n, where cb = cb]) (rule that)
  have "ngx_nats_process_buffer cb e (set_rbuf b w) = ngx_nats_process_buffer cb e (set_rbuf (c\<lparr>b_pos := b_pos c + n\<rparr>) v)"
    by (subst ngx_nats_process_buffer.simps) (use n(1) in \<open>simp add: c(1,2) h\<close>)
  with c(3-5) show ?thesis by (intro exI [of _ "c\<lparr>b_pos := b_pos c + n\<rparr>"]) simp
qed

lemma process_buffer_empty:
  assumes "rbuf_ok b" and "contents b = []"
  shows "\<exists>c. contents c = [] \<and> ngx_nats_process_buffer cb e (set_rbuf b w) = Some (NGX_OK, set_rbuf c w)"
proof -
  have wf: "buf_wf b" using assms(1) by (simp add: rbuf_ok_def)
  have "b_pos b = b_end b" using length_contents [OF wf] buf_wfD(1) [OF wf] assms(2) by simp
  then have "ngx_nats_process_buffer cb e (set_rbuf b w) = Some (NGX_OK, set_rbuf (b\<lparr>b_pos := 0, b_end := 0\<rparr>) w)"
    by (simp add: ngx_nats_process_buffer.simps [of cb e "set_rbuf b w"] nats_process_buffer_msg_def ngx_nats_buf_compact_def)
  then show ?thesis by (intro exI [of _ "b\<lparr>b_pos := 0, b_end := 0\<rparr>"]) (simp add: contents_def)
qed

lemma handle_info:
  assumes "casecmp_ok (e_ceq e)" and "\<forall>t i. e_json_alloc e t i" and "printable (JObject fs)"
    and "info_fields (e_ceq e) fs (w_conn w) = (NGX_OK, conn)"
    and "json = ngx_nats_json_debug_print fmt (JObject fs) @ pad"
  shows "handle_message cb e n (info_msg json) (''INFO '' @ json @ [NUL, LF] @ rest) (set_rbuf c w)
    = Some (n, set_rbuf c (w\<lparr>w_tick := w_tick w + 1, w_conn := conn\<rparr>))"
proof -
  have "mem_get (''INFO '' @ json @ [NUL, LF] @ rest) 5 (length json) = Some json" by (simp add: mem_get_def)
  moreover have "ngx_nats_json_parse (e_ceq e) (e_json_alloc e t) 0 json =
      Some (int (length (ngx_nats_json_debug_print fmt (JObject fs))), Some (JObject fs))" for t
    unfolding assms(5) by (rule json_parse_printed [OF assms(1)]) (use assms(2,3) in simp_all)
  moreover have "json \<noteq> []" using print_object_start [of fmt fs] assms(5) by auto
  ultimately show ?thesis using assms(4)
    by (simp add: handle_message_def msg_types info_msg_def parse_info_json_def Let_def tick_def)
qed



end
