(* ===== verification/Nats_Read_Faults.thy ===== *)
theory Nats_Read_Faults
  imports "HOL-Library.Word" Nats_Delivery Nats_System
begin

text \<open>
  Inputs on which the read path fails: a legitimate message near the maximal payload, a PONG without an
  INFO, a client whose reply cannot be sent, and malformed input on a ready connection.
\<close>

section \<open>A message near the maximal payload\<close>

text \<open>
  C36: messages that NATS promises to deliver are refused. The check for an oversized message compares
  the capacity of the buffer with \<open>max_payload\<close>, but the buffer has to hold the line of the MSG and the
  line breaks as well, and one byte stays unused. When the buffer has grown to \<open>max_payload\<close> bytes or
  more (a power of two of at least 4096 is reached exactly) and is filled up to that byte by the
  beginning of a MSG whose payload is within the limit, the connection is closed with the report
  that NATS sent a message larger than promised. With a \<open>max_payload\<close> that is not such a power the
  buffer first grows past it, and only messages that fill the larger buffer are refused.
\<close>

theorem full_payload_refused:
  assumes "casecmp_ok (e_ceq e)" and "token_ok subject" and "\<forall>r. reply = Some r \<longrightarrow> token_ok r"
    and "length (msg_text subject sid reply payload) < 2 ^ 62" and "n < length (msg_text subject sid reply payload)"
    and "rbuf_ok (w_rbuf w)" and "b_pos (w_rbuf w) = 0" and "contents (w_rbuf w) = take n (msg_text subject sid reply payload)"
    and "0 < n" and "b_cap (w_rbuf w) \<le> n + 1"
    and "0 < srv_max_payload (w_conn w)" and "srv_max_payload (w_conn w) \<le> int (b_cap (w_rbuf w))"
    and "int (length payload) \<le> srv_max_payload (w_conn w)"
  shows "ngx_nats_process_buffer cb e w = shut cb e NGX_NATS_REASON_BAD_PROTOCOL w"
proof -
  let ?b = "w_rbuf w" and ?t = "take n (msg_text subject sid reply payload)"
  have wf: "buf_wf ?b" and cap: "0 < b_cap ?b" "b_cap ?b < 2 ^ 64" using assms(6) by (simp_all add: rbuf_ok_def)
  have len: "length (contents ?b) = n" using assms(5,8) by simp
  then have fin: "b_end ?b = n" "b_pos ?b \<noteq> b_end ?b" using length_contents [OF wf] assms(7,9) by simp_all
  obtain m where m: "ngx_nats_parse (e_ceq e) (contents ?b) = Some (NGX_NATS_PROTO_AGAIN, m, contents ?b)"
    using parse_msg_prefix [OF assms(1,2) _ refl assms(4,5)] assms(3,8) by metis
  have same: "w\<lparr>w_rbuf := ?b\<lparr>b_buf := b_buf ?b\<rparr>\<rparr> = w" by simp
  have "usub (b_cap ?b) 1 \<le> b_end ?b" using cap(1) fin(1) assms(10) by simp
  moreover have "u64 (srv_max_payload (w_conn w)) \<le> b_cap ?b"
  proof -
    obtain k where k: "srv_max_payload (w_conn w) = int k" using assms(11) by (metis zero_less_imp_eq_int)
    with assms(12) cap(2) show ?thesis by (simp add: u64_of_nat)
  qed
  moreover have "ngx_nats_buf_compact ?b = Some ?b" using fin(2) assms(7) by (simp add: ngx_nats_buf_compact_def)
  ultimately have inc: "incomplete_msg cb e w = shut cb e NGX_NATS_REASON_BAD_PROTOCOL w"
    using cap(1) assms(11) by (simp add: incomplete_msg_def shut_def Let_def del: usub_le)
  have "nats_process_buffer_msg cb e w = shut cb e NGX_NATS_REASON_BAD_PROTOCOL w"
    using fin(2) m put_same [OF wf] same inc
    by (simp add: nats_process_buffer_msg_def Let_def readable_contents [OF wf] proto_codes)
  then show ?thesis by (simp add: ngx_nats_process_buffer.simps [of cb e w] shut_le)
qed

theorem full_payload_refused_witness:
  "ngx_nats_process_buffer no_calls (try_env 1 NGX_OK) (ready_world\<lparr>
      w_rbuf := buf_with 64 (take 63 (msg_text ''foo'' 1 None (replicate 64 CHR ''x''))),
      w_conn := conn_zero\<lparr>nc_state := NGX_NATS_STATE_READY, srv_max_payload := 64\<rparr>\<rparr>)
   = shut no_calls (try_env 1 NGX_OK) NGX_NATS_REASON_BAD_PROTOCOL (ready_world\<lparr>
      w_rbuf := buf_with 64 (take 63 (msg_text ''foo'' 1 None (replicate 64 CHR ''x''))),
      w_conn := conn_zero\<lparr>nc_state := NGX_NATS_STATE_READY, srv_max_payload := 64\<rparr>\<rparr>)"
proof -
  let ?p = "replicate 64 CHR ''x''"
  have len: "length (msg_text ''foo'' 1 None ?p) = 80" by (simp add: msg_text_def dec.simps)
  have b: "rbuf_ok (buf_with 64 (take 63 (msg_text ''foo'' 1 None ?p)))" "b_cap (buf_with 64 (take 63 (msg_text ''foo'' 1 None ?p))) = 64"
    "contents (buf_with 64 (take 63 (msg_text ''foo'' 1 None ?p))) = take 63 (msg_text ''foo'' 1 None ?p)"
    "b_pos (buf_with 64 (take 63 (msg_text ''foo'' 1 None ?p))) = 0"
    using buf_with_ok [of "take 63 (msg_text ''foo'' 1 None ?p)" 64] len by simp_all
  show ?thesis
    by (rule full_payload_refused [where n = 63 and subject = "''foo''" and sid = 1 and reply = None and payload = ?p])
      (use b len in \<open>simp_all add: try_env_def token_ok_def\<close>)
qed

section \<open>A PONG without an INFO\<close>

text \<open>
  C37: a server crashes the worker by answering with PONG before it has sent an INFO with a version. The
  message logged for the new connection prints the string that \<open>srv_version\<close> points to, a \<open>NULL\<close>
  pointer until then; nothing in the handshake asks for the INFO.
\<close>

theorem pong_without_version:
  assumes "casecmp_ok (e_ceq e)" and "rbuf_ok (w_rbuf w)" and "contents (w_rbuf w) = ''PONG'' @ [CR, LF] @ rest"
    and "nc_state (w_conn w) AND NGX_NATS_STATE_CONNECT_OKAYED = 0" and "srv_version (w_conn w) = None"
  shows "ngx_nats_process_buffer cb e w = None"
proof -
  let ?s = "''PONG'' @ [CR, LF] @ rest"
  have p: "ngx_nats_parse (e_ceq e) (contents (w_rbuf w)) = Some (int 6, msg_zero\<lparr>m_type := NGX_NATS_MSG_PONG\<rparr>, ?s)"
    unfolding assms(3) using parse_pong_text [OF assms(1)] by simp
  have l: "0 < (6 :: nat)" "6 \<le> length (contents (w_rbuf w))" "length ?s = length (contents (w_rbuf w))"
    unfolding assms(3) by simp_all
  obtain c where c: "\<And>v. nats_process_buffer_msg cb e (set_rbuf (w_rbuf w) v)
      = handle_message cb e (int 6) (msg_zero\<lparr>m_type := NGX_NATS_MSG_PONG\<rparr>) ?s (set_rbuf c v)"
    by (rule buffer_msg_parsed [OF assms(2) p l, where cb = cb]) (rule that)
  have "nats_process_buffer_msg cb e w = None"
    using c [of w] assms(4,5) by (simp add: handle_message_def msg_types ngx_nats_connection_ready_def Let_def upd_conn_def)
  then show ?thesis by (simp add: ngx_nats_process_buffer.simps [of cb e w])
qed

theorem pong_without_version_witness:
  "ngx_nats_process_buffer no_calls (try_env 1 NGX_OK) (ready_world\<lparr>
      w_rbuf := buf_with 64 (''PONG'' @ [CR, LF]), w_conn := conn_zero\<lparr>nc_state := 3\<rparr>\<rparr>) = None"
proof -
  have b: "rbuf_ok (buf_with 64 (''PONG'' @ [CR, LF]))" "contents (buf_with 64 (''PONG'' @ [CR, LF])) = ''PONG'' @ [CR, LF] @ []"
    using buf_with_ok [of "''PONG'' @ [CR, LF]" 64] by simp_all
  show ?thesis
    by (rule pong_without_version [where rest = "[]"]) (use b in \<open>simp_all add: try_env_def states conn_zero_def\<close>)
qed

section \<open>Malformed input on a ready connection\<close>

text \<open>
  C38: malformed input on a ready connection is reported twice. \<open>_nats_process_buffer_msg\<close> closes the
  connection and returns an error, for which \<open>ngx_nats_read_from_nats\<close> closes it again; the state of the
  connection is still \<open>READY\<close>, so every client with a \<open>disconnected\<close> callback is called twice for one
  disconnection.
\<close>

theorem bad_message_notifies_twice:
  assumes "nc_state (w_conn w) = NGX_NATS_STATE_READY" and "rbuf_ok (w_rbuf w)"
    and "e_recv e (w_tick w) (usub (usub (b_cap (w_rbuf w)) (b_end (w_rbuf w))) 1) = (int (length xs), xs)"
    and "xs \<noteq> []" and "b_end (w_rbuf w) + length xs \<le> b_cap (w_rbuf w)"
    and "stream_ok (contents (w_rbuf w) @ xs)" and "nats_verdict (e_ceq e) (contents (w_rbuf w) @ xs) = Bad err"
  shows "\<exists>v. ngx_nats_read_from_nats no_calls e w = Some v
    \<and> callbacks (w_log v) = callbacks (w_log w) @ disconnects (w_clients w) @ disconnects (w_clients w)"
proof -
  let ?b = "w_rbuf w"
  have wf: "buf_wf ?b" using assms(2) by (simp add: rbuf_ok_def)
  obtain m where m: "mem_put (b_buf ?b) (b_end ?b) (map Some xs) = Some m"
    and c: "buf_wf (?b\<lparr>b_buf := m, b_end := b_end ?b + length xs\<rparr>)"
      "contents (?b\<lparr>b_buf := m, b_end := b_end ?b + length xs\<rparr>) = contents ?b @ xs"
    using put_at_end [OF wf assms(5)] by blast
  define u where "u = (tick w)\<lparr>w_rbuf := ?b\<lparr>b_buf := m, b_end := b_end ?b + length xs\<rparr>\<rparr>"
  have u: "w_rbuf u = ?b\<lparr>b_buf := m, b_end := b_end ?b + length xs\<rparr>" "nc_state (w_conn u) = NGX_NATS_STATE_READY"
    "w_log u = w_log w" "w_clients u = w_clients w"
    using assms(1) by (simp_all add: u_def tick_def)
  have chk: "ngx_nats_check_connected (tick w) = tick w"
    using assms(1) by (simp add: ngx_nats_check_connected_def tick_def states)
  have ne: "NGX_NATS_REASON_BAD_PROTOCOL \<noteq> NGX_NATS_REASON_DISCONNECTED" by (simp add: reasons)
  have cl: "\<exists>v'. close_connection no_calls e NGX_NATS_REASON_BAD_PROTOCOL 1 v = Some v'
      \<and> w_log v' = w_log v @ map Callback (disconnects (w_clients v)) \<and> w_clients v' = w_clients v
      \<and> nc_state (w_conn v') = NGX_NATS_STATE_READY" if "nc_state (w_conn v) = NGX_NATS_STATE_READY" for v
    using that ne by (simp add: close_connection_def close_no_calls [OF that] Let_def ngx_nats_add_reconnect_timer_def
        forget_connection_def hang_up_def upd_conn_def)
  obtain v1 where v1: "close_connection no_calls e NGX_NATS_REASON_BAD_PROTOCOL 1 u = Some v1"
    "w_log v1 = w_log u @ map Callback (disconnects (w_clients u))" "w_clients v1 = w_clients u"
    "nc_state (w_conn v1) = NGX_NATS_STATE_READY" using cl [OF u(2)] by blast
  obtain v2 where v2: "close_connection no_calls e NGX_NATS_REASON_BAD_PROTOCOL 1 v1 = Some v2"
    "w_log v2 = w_log v1 @ map Callback (disconnects (w_clients v1))" using cl [OF v1(4)] by blast
  have "nats_process_buffer_msg no_calls e u = finish no_calls e (Failed err) u"
    by (rule buffer_msg_stop [OF c(1) u(1)]) (use c(2) assms(6,7) in simp_all)
  then have "ngx_nats_process_buffer no_calls e u = Some (NGX_ERROR, v1)"
    by (simp add: ngx_nats_process_buffer.simps [of no_calls e u] finish_def shut_def v1(1))
  then have "read_loop no_calls e w = Some (False, v2)"
    using m chk assms(3,4) v2(1)
    by (simp add: read_loop.simps [of no_calls e w] Let_def u_def del: usub_le)
  then have "ngx_nats_read_from_nats no_calls e w = Some v2" by (simp add: ngx_nats_read_from_nats_def Let_def)
  then show ?thesis using v1(2,3) v2(2) u(3,4) by simp
qed

theorem bad_message_notifies_twice_witness:
  "\<exists>v. ngx_nats_read_from_nats no_calls ((try_env 1 NGX_OK)\<lparr>e_recv := \<lambda>t k. (4, ''x'' @ [CR, LF, LF])\<rparr>)
      (ready_world\<lparr>w_rbuf := buf_with 64 [], w_clients := [\<lparr>cl_id = 4, cl_disconnected = True\<rparr>]\<rparr>) = Some v
    \<and> callbacks (w_log v) = [Disconnected 4, Disconnected 4]"
proof -
  let ?e = "(try_env 1 NGX_OK)\<lparr>e_recv := \<lambda>t k. (4, ''x'' @ [CR, LF, LF])\<rparr>"
  let ?w = "ready_world\<lparr>w_rbuf := buf_with 64 [], w_clients := [\<lparr>cl_id = 4, cl_disconnected = True\<rparr>]\<rparr>"
  have b: "rbuf_ok (w_rbuf ?w)" "contents (w_rbuf ?w) = []" "b_cap (w_rbuf ?w) = 64" "b_end (w_rbuf ?w) = 0"
    using buf_with_ok [of "[]" 64] by simp_all
  have "digit_runs_le 18 0 (''x'' @ [CR, LF, LF])" by code_simp
  then have ok: "stream_ok (contents (w_rbuf ?w) @ ''x'' @ [CR, LF, LF])" unfolding b(2) by (simp add: stream_ok_def)
  have "nats_verdict casecmp (''x'' @ [CR, LF, LF]) = Bad NGX_NATS_PROTO_ERR_INVALID_HEADER" by code_simp
  then have v: "nats_verdict (e_ceq ?e) (contents (w_rbuf ?w) @ ''x'' @ [CR, LF, LF]) = Bad NGX_NATS_PROTO_ERR_INVALID_HEADER"
    unfolding b(2) by (simp add: try_env_def)
  have r: "e_recv ?e (w_tick ?w) (usub (usub (b_cap (w_rbuf ?w)) (b_end (w_rbuf ?w))) 1) = (int (length (''x'' @ [CR, LF, LF])), ''x'' @ [CR, LF, LF])"
    "''x'' @ [CR, LF, LF] \<noteq> []" "b_end (w_rbuf ?w) + length (''x'' @ [CR, LF, LF]) \<le> b_cap (w_rbuf ?w)"
    using b by simp_all
  have s: "nc_state (w_conn ?w) = NGX_NATS_STATE_READY" and log: "w_log ready_world = []"
    by (simp_all add: ready_world_def nats_data_init_def)
  from bad_message_notifies_twice [OF s b(1) r ok v] show ?thesis by (auto simp: log disconnects_def)
qed

section \<open>A reply that cannot be sent\<close>

text \<open>A client that answers every message with a publish.\<close>

definition reply_with :: "bytes \<Rightarrow> bytes \<Rightarrow> callback \<Rightarrow> world \<Rightarrow> client_call list" where
  "reply_with s payload c w =
     (case c of HandleMsg h m \<Rightarrow> [Publish (Some s) None payload (length payload)] | _ \<Rightarrow> [])"

lemma each_nobody:
  "disconnects cs = [] \<Longrightarrow>
     each_client (\<lambda>c w. if cl_disconnected c then call cb (Disconnected (cl_id c)) w else Some w) cs w = Some w"
  by (induction cs) (auto simp: disconnects_def split: if_splits)

text \<open>A connection attempt that stays pending.\<close>

lemma connect_pending_attempt:
  assumes "\<forall>t. e_connect e t = NGX_AGAIN" and "\<forall>t. e_alloc e t" and "world_ok e w" and "0 < e_servers e"
    and "b_pos (w_rbuf w) = 0" and "b_end (w_rbuf w) = 0"
  shows "\<exists>w'. ngx_nats_connect cb e w = Some w' \<and> b_pos (w_rbuf w') = 0 \<and> b_end (w_rbuf w') = 0
    \<and> b_buf (w_rbuf w') = b_buf (w_rbuf w)"
proof -
  have w: "w_last w = 0" "- 1 \<le> w_curr w" "w_curr w < int (e_servers e)" using assms(3) by (simp_all add: world_ok_def)
  have "\<exists>rc w'. ngx_nats_connect_loop cb recon e w = Some (rc, w') \<and> rc \<noteq> NGX_AGAIN \<and> b_pos (w_rbuf w') = 0
      \<and> b_end (w_rbuf w') = 0 \<and> b_buf (w_rbuf w') = b_buf (w_rbuf w)" for recon
    using w assms(1,2,4-6)
    by (auto simp: ngx_nats_connect_loop_def next_server_def Let_def ngx_nats_add_reconnect_timer_def tick_def emit_def
        upd_conn_def ngx_nats_buf_reset_def)
  then obtain rc w' where "ngx_nats_connect_loop cb (ngx_nats_process_reconnect (connect_fuel cb e (e_servers e))) e w = Some (rc, w')"
    "rc \<noteq> NGX_AGAIN" "b_pos (w_rbuf w') = 0" "b_end (w_rbuf w') = 0" "b_buf (w_rbuf w') = b_buf (w_rbuf w)" by blast
  then show ?thesis by (simp add: ngx_nats_connect_def)
qed

text \<open>The publish of such a reply when the socket is broken: it closes the connection and returns.\<close>

lemma broken_publish:
  assumes e: "\<forall>t. e_connect e t = NGX_AGAIN" "\<forall>t. e_alloc e t" "env_ok e" "\<forall>t n. e_send e t n = NGX_ERROR"
    and w: "world_ok e w" "ready w" "unsent (w_wbuf w)" "disconnects (w_clients w) = []"
    and p: "length s \<le> 512" "payload \<noteq> []" "b_end (w_wbuf w) + length payload + 578 \<le> NGX_NATS_MAX_MESSAGE_SIZE"
  shows "\<exists>w'. ngx_nats_publish cb e (Some s) None payload (length payload) w = Some (NGX_OK, w')
    \<and> b_pos (w_rbuf w') = 0 \<and> b_end (w_rbuf w') = 0 \<and> b_buf (w_rbuf w') = b_buf (w_rbuf w)"
proof -
  have len: "length payload < 2 ^ 64" using p(3) by (simp add: NGX_NATS_MAX_MESSAGE_SIZE_def)
  have sn: "snprintf_ok (e_snpf e)" "0 < e_servers e" using e(3) by (simp_all add: env_ok_def)
  have sl: "length s + (case None of Some r \<Rightarrow> length r | None \<Rightarrow> 0) \<le> 512" using p(1) by simp
  obtain u where u: "pub_messages e (e_snpf e (512 + 64) (pub_pieces s None (length payload))) payload (length payload) w = Some (NGX_OK, u)"
    "appended w (pub_text s None payload) u"
    unfolding pub_text_line using pub_messages_appended [OF sn(1) e(2) w(3) sl p(2) len p(3), of payload] by auto
  have a: "unsent (w_wbuf u)" "b_end (w_wbuf u) = b_end (w_wbuf w) + pub_size s payload"
    using appended_end [OF w(3) u(2)] by simp_all
  obtain b t where bt: "u = w\<lparr>w_wbuf := b, w_tick := t\<rparr>" using u(2) by (auto simp: appended_def)
  define v where "v = (forget_connection (hang_up (tick u)))\<lparr>w_rec_timer := False\<rparr>"
  have "inv e w" using e(2,3) w(1) by (simp add: inv_def)
  from retD [OF nested.pub_messages_keeps [OF this] u(1)] have "inv e (tick u)" by (simp add: keeps_def)
  then have "world_ok e (forget_connection (hang_up (tick u)))" using forget_ok by (simp add: inv_def)
  then have v: "world_ok e v" "b_pos (w_rbuf v) = 0" "b_end (w_rbuf v) = 0" "b_buf (w_rbuf v) = b_buf (w_rbuf w)"
    using bt by (simp_all add: v_def world_ok_def forget_connection_def hang_up_def upd_conn_def tick_def ngx_nats_buf_reset_def)
  obtain w' where w': "ngx_nats_connect cb e v = Some w'" "b_pos (w_rbuf w') = 0" "b_end (w_rbuf w') = 0"
    "b_buf (w_rbuf w') = b_buf (w_rbuf v)"
    using connect_pending_attempt [OF e(1,2) v(1) sn(2) v(2,3)] by blast
  have st: "nc_state (w_conn (hang_up (tick u))) = NGX_NATS_STATE_READY" "w_clients (hang_up (tick u)) = w_clients w"
    using w(2) bt by (simp_all add: ready_def hang_up_def upd_conn_def tick_def)
  have "NGX_NATS_STATE_READY AND NGX_NATS_STATE_BYTES_EXCHANGED \<noteq> 0" by (simp add: states)
  then have "ngx_nats_close_connection cb (reconnect cb e) NGX_NATS_REASON_DISCONNECTED 1 (tick u) = Some w'"
    using st w'(1) each_nobody [OF w(4), of cb]
    by (simp add: ngx_nats_close_connection_def Let_def reconnect_def ngx_nats_process_reconnect_def v_def)
  moreover have "b_pos (w_wbuf u) = 0" "b_end (w_wbuf u) \<noteq> 0" "b_end (w_wbuf u) \<le> length (b_buf (w_wbuf u))"
    using a by (auto simp: unsent_def buf_wf_def pub_text_def)
  ultimately have "flush cb e u = Some w'"
    using e(4) by (simp add: flush_def ngx_nats_flush_def Let_def mem_get_def)
  then show ?thesis using publish_ready [OF w(2) sl u(1), of cb] w'(2-4) v(4) by simp
qed

text \<open>
  C39: a failed send inside a message handler makes the read loop run past its buffer. When a client
  answers a message with a publish and the socket turns out to be broken, the publish closes the
  connection, which resets the read buffer, and returns to the loop in
  \<open>ngx_nats_process_buffer\<close>, which then advances \<open>pos\<close> by the length of the message: \<open>pos\<close> lies behind
  \<open>end\<close>, and the next pass parses the wrapped difference of the two, far outside the buffer.
\<close>

theorem reply_failure_overruns:
  assumes "casecmp_ok (e_ceq e)" and "\<forall>t. e_alloc e t" and "rbuf_ok (w_rbuf w)"
    and "contents (w_rbuf w) = msg_text subject sid reply payload @ rest"
    and "token_ok subject" and "\<forall>r. reply = Some r \<longrightarrow> token_ok r" and "sid < 2 ^ 63"
    and "length (msg_text subject sid reply payload @ rest) < 2 ^ 62"
    and "ngx_nats_get_subscription (w_subs w) (int sid) = Some i"
    and "\<forall>t. e_connect e t = NGX_AGAIN" and "env_ok e" and "\<forall>t n. e_send e t n = NGX_ERROR"
    and "world_ok e w" and "ready w" and "unsent (w_wbuf w)" and "disconnects (w_clients w) = []"
    and "length s \<le> 512" and "answer \<noteq> []" and "b_end (w_wbuf w) + length answer + 578 \<le> NGX_NATS_MAX_MESSAGE_SIZE"
  shows "(\<exists>rc v. nats_process_buffer_msg (client_cb (reply_with s answer) e (Suc k)) e w = Some (rc, v)
       \<and> b_end (w_rbuf v) = 0 \<and> b_end (w_rbuf v) < b_pos (w_rbuf (skip_message rc v)))
    \<and> ngx_nats_process_buffer (client_cb (reply_with s answer) e (Suc k)) e w = None"
proof -
  let ?cb = "client_cb (reply_with s answer) e" and ?len = "length (msg_text subject sid reply payload)"
  obtain c h mg where c: "rbuf_ok c" "nats_process_buffer_msg (?cb (Suc k)) e w =
        do { v \<leftarrow> call (?cb (Suc k)) (HandleMsg h mg) (w\<lparr>w_rbuf := c, w_subs := count_delivery (w_subs w) i, w_tick := w_tick w + 2\<rparr>);
             Some (int ?len, v) }"
    using message_step [OF assms(1-9), of "?cb (Suc k)"] by (elim exE conjE) (rule that)
  define u where "u = emit (Callback (HandleMsg h mg)) (w\<lparr>w_rbuf := c, w_subs := count_delivery (w_subs w) i, w_tick := w_tick w + 2\<rparr>)"
  have "i < length (w_subs w)" using assms(9) find_sid_Some [of "int sid" "w_subs w" i] by (simp add: ngx_nats_get_subscription_def)
  then have "table_ok (w_tick w) (w_next_id w) (count_delivery (w_subs w) i)"
    using deliver_table_ok assms(13) by (simp add: world_ok_def)
  moreover have "buf_shape c" using c(1) buf_shape_wf by (simp add: rbuf_ok_def)
  ultimately have u: "world_ok e u" "ready u" "unsent (w_wbuf u)" "disconnects (w_clients u) = []"
    "b_end (w_wbuf u) = b_end (w_wbuf w)" "w_rbuf u = c"
    using assms(13-16) by (simp_all add: u_def emit_def world_ok_def ready_def)
  obtain v where v: "ngx_nats_publish (?cb k) e (Some s) None answer (length answer) u = Some (NGX_OK, v)"
    "b_pos (w_rbuf v) = 0" "b_end (w_rbuf v) = 0" "b_buf (w_rbuf v) = b_buf c"
    using broken_publish [OF assms(10,2,11,12) u(1-4) assms(17,18), of "?cb k"] assms(19) u(5,6) by auto
  have m: "nats_process_buffer_msg (?cb (Suc k)) e w = Some (int ?len, v)"
    unfolding c(2) using v(1) by (simp add: call_def u_def reply_with_def)
  have len: "0 < ?len" "?len < 2 ^ 62" using assms(8) by (simp_all add: msg_text_def)
  then have pos: "b_pos (w_rbuf (skip_message (int ?len) v)) = ?len" "b_end (w_rbuf (skip_message (int ?len) v)) = 0"
    "b_buf (w_rbuf (skip_message (int ?len) v)) = b_buf c"
    using v(2-4) by (simp_all add: skip_message_def)
  moreover have "length (b_buf c) < 2 ^ 64" using c(1) buf_wfD(3) [of c] by (simp add: rbuf_ok_def)
  ultimately have "overrun (w_rbuf (skip_message (int ?len) v))" using len by (simp add: overrun_def)
  from overrun_crash [OF this] have "ngx_nats_process_buffer (?cb (Suc k)) e (skip_message (int ?len) v) = None"
    by (simp add: ngx_nats_process_buffer.simps [of _ _ "skip_message (int ?len) v"])
  moreover have "\<not> int ?len \<le> 0" using len by simp
  ultimately have "ngx_nats_process_buffer (?cb (Suc k)) e w = None"
    by (subst ngx_nats_process_buffer.simps, unfold m) simp
  moreover have "b_end (w_rbuf v) < b_pos (w_rbuf (skip_message (int ?len) v))" using pos(1) v(3) len by simp
  ultimately show ?thesis using m v(3) by blast
qed

theorem reply_failure_overruns_witness:
  "(\<exists>rc v. nats_process_buffer_msg (client_cb (reply_with ''r'' ''hi'') ((try_env 1 NGX_AGAIN)\<lparr>e_send := \<lambda>t n. NGX_ERROR\<rparr>) 2)
       ((try_env 1 NGX_AGAIN)\<lparr>e_send := \<lambda>t n. NGX_ERROR\<rparr>) (ready_world\<lparr>
      w_rbuf := buf_with 4096 (msg_text ''foo'' 1 None ''q'' @ []),
      w_subs := [\<lparr>su_client = 8, su_handler = 3, su_data = 5, su_sid = 1, su_max = 0, su_recv = 0\<rparr>], w_next_id := 1, w_tick := 1\<rparr>) = Some (rc, v)
     \<and> b_end (w_rbuf v) = 0 \<and> b_end (w_rbuf v) < b_pos (w_rbuf (skip_message rc v)))
   \<and> ngx_nats_process_buffer (client_cb (reply_with ''r'' ''hi'') ((try_env 1 NGX_AGAIN)\<lparr>e_send := \<lambda>t n. NGX_ERROR\<rparr>) 2)
       ((try_env 1 NGX_AGAIN)\<lparr>e_send := \<lambda>t n. NGX_ERROR\<rparr>) (ready_world\<lparr>
      w_rbuf := buf_with 4096 (msg_text ''foo'' 1 None ''q'' @ []),
      w_subs := [\<lparr>su_client = 8, su_handler = 3, su_data = 5, su_sid = 1, su_max = 0, su_recv = 0\<rparr>], w_next_id := 1, w_tick := 1\<rparr>) = None"
proof -
  let ?e = "(try_env 1 NGX_AGAIN)\<lparr>e_send := \<lambda>t n. NGX_ERROR\<rparr>"
  let ?in = "msg_text ''foo'' 1 None ''q'' @ []"
  let ?w = "ready_world\<lparr>w_rbuf := buf_with 4096 ?in,
      w_subs := [\<lparr>su_client = 8, su_handler = 3, su_data = 5, su_sid = 1, su_max = 0, su_recv = 0\<rparr>], w_next_id := 1, w_tick := 1\<rparr>"
  have len: "length ?in = 16" by (simp add: msg_text_def dec.simps)
  have b: "rbuf_ok (w_rbuf ?w)" "contents (w_rbuf ?w) = ?in" using buf_with_ok [of ?in 4096] len by simp_all
  have eok: "env_ok ?e" using try_env_ok [of 1 NGX_AGAIN] by (simp add: env_ok_def try_env_def)
  have "world_ok ?e ready_world" using init_world_ok [of 4096 4096 ?e] by (simp add: world_ok_def ready_world_def)
  moreover have "buf_shape (buf_with 4096 ?in)" using b(1) buf_shape_wf by (simp add: rbuf_ok_def)
  moreover have "e_servers ?e = 1" by (simp add: try_env_def)
  ultimately have wok: "world_ok ?e ?w" by (simp add: world_ok_def table_ok_def subs_wf_def)
  have "w_clients ready_world = []" by (simp add: ready_world_def nats_data_init_def)
  then have r: "ready ?w" "unsent (w_wbuf ?w)" "disconnects (w_clients ?w) = []" "b_end (w_wbuf ?w) = 0"
    using ready_world_ok by (simp_all add: ready_def disconnects_def)
  have two: "(2 :: nat) = Suc 1" by simp
  show ?thesis
    unfolding two
    by (rule reply_failure_overruns [where i = 0 and subject = "''foo''" and sid = 1 and reply = None and payload = "''q''" and rest = "[]"])
      (use b eok wok r len in \<open>simp_all add: try_env_def token_ok_def ngx_nats_get_subscription_def NGX_NATS_MAX_MESSAGE_SIZE_def\<close>)
qed

end
