(* ===== verification/Nats_Reads.thy ===== *)
theory Nats_Reads
  imports "HOL-Library.Word" Nats_Delivery
begin

text \<open>
  From the socket to the clients: \<open>read_loop\<close> over all the reads of one event. \<open>socket\<close> says only what
  \<open>recv\<close> answers: the chunks \<open>cs\<close> one after the other, and then that it has no more. However the
  stream is cut, the messages of the whole stream have their effects in order, each once
  (\<open>served\<close>), until a pass over the buffer closes the connection; for MSGs that fit the limits no pass
  does (\<open>stream_delivered\<close>).
\<close>

section \<open>The socket\<close>

text \<open>The room that the loop offers to \<open>recv\<close>, and the state with the bytes that it delivered.\<close>

definition room :: "world \<Rightarrow> nat" where
  "room w = usub (usub (b_cap (w_rbuf w)) (b_end (w_rbuf w))) 1"

definition fill :: "bytes \<Rightarrow> ngx_nats_buf \<Rightarrow> ngx_nats_buf" where
  "fill xs b = b\<lparr>b_buf := take (b_end b) (b_buf b) @ map Some xs @ drop (b_end b + length xs) (b_buf b),
                 b_end := b_end b + length xs\<rparr>"

definition receive :: "bytes \<Rightarrow> world \<Rightarrow> world" where
  "receive xs w = set_rbuf (fill xs (w_rbuf w)) (ngx_nats_check_connected (tick w))"

text \<open>
  What \<open>recv\<close> answers to the loop: the chunks in turn, each at the state in which the loop asks for it,
  whatever the passes over the buffer return (after a pass that does not return \<open>NGX_OK\<close> the loop
  does not ask again).
\<close>

fun socket :: "(callback \<Rightarrow> step) \<Rightarrow> env \<Rightarrow> world \<Rightarrow> bytes list \<Rightarrow> bool" where
  "socket cb e w [] \<longleftrightarrow>
     fst (e_recv e (w_tick w) (room w)) = NGX_AGAIN \<and> e_read_event e (w_tick w + 1) = NGX_OK"
| "socket cb e w (xs # cs) \<longleftrightarrow>
     xs \<noteq> [] \<and> e_recv e (w_tick w) (room w) = (int (length xs), xs)
     \<and> (\<forall>v. ngx_nats_process_buffer cb e (receive xs w) = Some (NGX_OK, v) \<longrightarrow> socket cb e v cs)"

lemma socket_chunk:
  "xs \<noteq> [] \<Longrightarrow> e_recv e (w_tick w) (room w) = (int (length xs), xs) \<Longrightarrow>
     ngx_nats_process_buffer cb e (receive xs w) = Some (NGX_OK, v) \<Longrightarrow> socket cb e v cs \<Longrightarrow> socket cb e w (xs # cs)"
  by simp

text \<open>A read buffer with room for the next \<open>recv\<close>.\<close>

definition roomy :: "ngx_nats_buf \<Rightarrow> bool" where
  "roomy b \<longleftrightarrow> rbuf_ok b \<and> 4 \<le> b_cap b \<and> b_end b + 1 < b_cap b"

lemma fill_ok:
  assumes "roomy b" and "length xs + b_end b < b_cap b"
  shows "mem_put (b_buf b) (b_end b) (map Some xs) = Some (b_buf (fill xs b))" and "rbuf_ok (fill xs b)"
    and "contents (fill xs b) = contents b @ xs" and "b_cap (fill xs b) = b_cap b"
proof -
  have b: "buf_wf b" "0 < b_cap b" "b_cap b < 2 ^ 64" using assms(1) by (simp_all add: roomy_def rbuf_ok_def)
  note w = buf_wfD [OF b(1)]
  show put: "mem_put (b_buf b) (b_end b) (map Some xs) = Some (b_buf (fill xs b))"
    using assms(2) w by (simp add: mem_put_def fill_def)
  have sl: "Nats_Prelude.slice (b_buf (fill xs b)) (b_pos (fill xs b)) (b_end (fill xs b)) = map Some (contents b @ xs)"
    using w length_contents [OF b(1)] by (simp add: fill_def Nats_Prelude.slice_def drop_take)
  have "b_pos (fill xs b) \<le> b_end (fill xs b)" "b_end (fill xs b) \<le> b_cap (fill xs b)"
    "length (b_buf (fill xs b)) = b_cap (fill xs b)"
    using w assms(2) by (simp_all add: fill_def)
  from buf_wfI [OF this sl] b show "rbuf_ok (fill xs b)" "contents (fill xs b) = contents b @ xs"
    by (simp_all add: rbuf_ok_def fill_def)
  show "b_cap (fill xs b) = b_cap b" by (simp add: fill_def)
qed

section \<open>The effects of the messages of a stream\<close>

text \<open>Reading changes the read buffer, asks the environment and notes that bytes were exchanged.\<close>

definition input_step :: "world \<Rightarrow> world \<Rightarrow> bool" where
  "input_step w v \<longleftrightarrow> (\<exists>b t. v = w\<lparr>w_rbuf := b, w_tick := t\<rparr> \<or> v = (ngx_nats_check_connected w)\<lparr>w_rbuf := b, w_tick := t\<rparr>)"

text \<open>The messages have their effects in order; in between there are only steps of reading.\<close>

inductive served :: "(callback \<Rightarrow> step) \<Rightarrow> env \<Rightarrow> (ngx_nats_msg \<times> bytes) list \<Rightarrow> world \<Rightarrow> world \<Rightarrow> bool" for cb e where
  none: "served cb e [] w w"
| input: "input_step w v \<Longrightarrow> served cb e fs v u \<Longrightarrow> served cb e fs w u"
| message: "effect cb e m t w = Some (None, v) \<Longrightarrow> served cb e fs v u \<Longrightarrow> served cb e ((m, t) # fs) w u"

lemma served_append: "served cb e fs w v \<Longrightarrow> served cb e gs v u \<Longrightarrow> served cb e (fs @ gs) w u"
  by (induction rule: served.induct) (auto intro: served.intros)

lemma serve_served: "serve cb e fs w = Some (None, v) \<Longrightarrow> served cb e fs w v"
proof (induction fs arbitrary: w)
  case Nil
  then show ?case by (simp add: served.none)
next
  case (Cons f fs)
  obtain m t where f: "f = (m, t)" by (cases f)
  with Cons.prems obtain u where "effect cb e m t w = Some (None, u)" "serve cb e fs u = Some (None, v)"
    by (auto simp: bind_eq_Some_conv split: option.splits)
  with f Cons.IH show ?case by (simp add: served.message)
qed

lemma input_steps [simp]:
  "input_step w (w\<lparr>w_rbuf := b, w_tick := t\<rparr>)" "input_step w (tick (tick w))" "input_step w (receive xs w)"
proof -
  show "input_step w (w\<lparr>w_rbuf := b, w_tick := t\<rparr>)" by (auto simp: input_step_def)
  show "input_step w (tick (tick w))"
    unfolding input_step_def by (intro exI [of _ "w_rbuf w"] exI [of _ "w_tick w + 2"]) (simp add: tick_def)
  show "input_step w (receive xs w)"
    unfolding input_step_def
    by (intro exI [of _ "fill xs (w_rbuf w)"] exI [of _ "w_tick w + 1"])
      (simp add: receive_def ngx_nats_check_connected_def tick_def upd_conn_def)
qed

section \<open>One pass of the loop\<close>

text \<open>
  The passes that close the connection: a message requires it (or its effect does not return), the
  input is malformed, or an incomplete message fills a buffer that cannot grow.
\<close>

definition refused :: "(callback \<Rightarrow> step) \<Rightarrow> env \<Rightarrow> world \<Rightarrow> bool" where
  "refused cb e w \<longleftrightarrow>
     (case drain (nats_verdict (e_ceq e)) (contents (w_rbuf w)) of (fs, st) \<Rightarrow>
        (case serve cb e fs w of
           Some (None, v) \<Rightarrow>
             (case st of
                Pending q \<Rightarrow> b_cap (w_rbuf w) \<le> length q + 1 \<and> (at_limit (w_rbuf w) v \<or> \<not> e_alloc e (w_tick v))
              | _ \<Rightarrow> True)
         | _ \<Rightarrow> True))"

lemma shut_not_ok: "shut cb e reason w \<noteq> Some (NGX_OK, v)"
  by (cases "close_connection cb e reason 1 w") (simp_all add: shut_def)

context blind_callbacks
begin

lemma pass_cases:
  assumes "sends_ok e" and "rbuf_ok (w_rbuf w)" and "4 \<le> b_cap (w_rbuf w)" and "stream_ok (contents (w_rbuf w))"
    and "drain (nats_verdict (e_ceq e)) (contents (w_rbuf w)) = (fs, st)"
  obtains (ok) u d t where "ngx_nats_process_buffer cb e w = Some (NGX_OK, u\<lparr>w_rbuf := d, w_tick := t\<rparr>)"
      and "serve cb e fs w = Some (None, u)" and "st = Pending (contents d)" and "roomy d"
  | (closed) "refused cb e w" and "\<forall>v. ngx_nats_process_buffer cb e w \<noteq> Some (NGX_OK, v)"
proof -
  note out = process_buffer_outcome [OF assms]
  show thesis
  proof (cases "\<exists>u. serve cb e fs w = Some (None, u)")
    case True
    then obtain u where u: "serve cb e fs w = Some (None, u)" by blast
    with out have p: "pass_ends cb e (w_rbuf w) st u (ngx_nats_process_buffer cb e w)" by simp
    have cl: thesis if "refused cb e w" "\<exists>reason v. ngx_nats_process_buffer cb e w = shut cb e reason v"
    proof (rule closed [OF that(1)])
      show "\<forall>v. ngx_nats_process_buffer cb e w \<noteq> Some (NGX_OK, v)" using that(2) shut_not_ok by metis
    qed
    show thesis
    proof (cases st)
      case (Pending q)
      consider d t where "ngx_nats_process_buffer cb e w = Some (NGX_OK, u\<lparr>w_rbuf := d, w_tick := t\<rparr>)" "rbuf_ok d"
          "contents d = q" "b_end d + 1 < b_cap d" "b_cap (w_rbuf w) \<le> b_cap d"
        | reason v where "b_cap (w_rbuf w) \<le> length q + 1" "at_limit (w_rbuf w) u \<or> \<not> e_alloc e (w_tick u)"
          "ngx_nats_process_buffer cb e w = shut cb e reason v"
        using p unfolding pass_ends_def Pending status.case by blast
      then show thesis
      proof cases
        case 1
        with u Pending assms(3) show thesis by (intro ok [where u = u and d = d and t = t]) (simp_all add: roomy_def)
      next
        case 2
        with u Pending assms(5) show thesis by (intro cl) (auto simp: refused_def)
      qed
    next
      case (Failed err)
      with p u assms(5) show thesis by (intro cl) (auto simp: pass_ends_def refused_def)
    next
      case Crashed
      with p show thesis by (simp add: pass_ends_def)
    qed
  next
    case False
    then have "refused cb e w" using assms(5) by (auto simp: refused_def split: option.splits)
    moreover have "ngx_nats_process_buffer cb e w \<noteq> Some (NGX_OK, v)" for v
      using out False shut_not_ok shut_not_ok [symmetric] by (auto split: option.splits)
    ultimately show thesis by (blast intro: closed)
  qed
qed

text \<open>One turn of the loop with a chunk from the socket.\<close>

lemma read_turn:
  assumes "\<forall>t k n xs. e_recv e t k = (n, xs) \<longrightarrow> 0 < n \<longrightarrow> length xs = nat n \<and> nat n \<le> k"
    and "roomy (w_rbuf w)" and "xs \<noteq> []" and "e_recv e (w_tick w) (room w) = (int (length xs), xs)"
  shows "rbuf_ok (w_rbuf (receive xs w))" and "4 \<le> b_cap (w_rbuf (receive xs w))"
    and "contents (w_rbuf (receive xs w)) = contents (w_rbuf w) @ xs"
    and "read_loop cb e w = do { (rc, v) \<leftarrow> ngx_nats_process_buffer cb e (receive xs w);
           if rc \<noteq> NGX_OK then do { v \<leftarrow> close_connection cb e NGX_NATS_REASON_BAD_PROTOCOL 1 v; Some (False, v) }
           else read_loop cb e v }"
proof -
  have wf: "b_end (w_rbuf w) + 1 < b_cap (w_rbuf w)" using assms(2) by (simp add: roomy_def)
  have n: "0 < int (length xs)" using assms(3) by simp
  have "nat (int (length xs)) \<le> room w" using assms(1,4) n by blast
  then have len: "length xs + b_end (w_rbuf w) < b_cap (w_rbuf w)" using wf by (simp add: room_def)
  note f = fill_ok [OF assms(2) len]
  show "rbuf_ok (w_rbuf (receive xs w))" "4 \<le> b_cap (w_rbuf (receive xs w))"
    "contents (w_rbuf (receive xs w)) = contents (w_rbuf w) @ xs"
    using f(2-4) assms(2) by (simp_all add: receive_def roomy_def)
  show "read_loop cb e w = do { (rc, v) \<leftarrow> ngx_nats_process_buffer cb e (receive xs w);
           if rc \<noteq> NGX_OK then do { v \<leftarrow> close_connection cb e NGX_NATS_REASON_BAD_PROTOCOL 1 v; Some (False, v) }
           else read_loop cb e v }"
    using assms(4) f(1) n
    by (simp add: read_loop.simps [of cb e w] room_def Let_def receive_def fill_def)
qed

lemma read_stop:
  assumes "socket cb e w []"
  shows "read_loop cb e w = Some (True, tick (tick w))"
  using assms by (cases "e_recv e (w_tick w) (room w)") (simp add: read_loop.simps [of cb e w] room_def Let_def tick_def)

text \<open>All turns: to the end of the chunks, or to the first pass that closes.\<close>

lemma loop_serves:
  assumes "sends_ok e" and rd: "\<forall>t k n xs. e_recv e t k = (n, xs) \<longrightarrow> 0 < n \<longrightarrow> length xs = nat n \<and> nat n \<le> k"
    and "socket cb e w cs" and "roomy (w_rbuf w)" and "stream_ok (contents (w_rbuf w) @ concat cs)"
    and "nats_verdict (e_ceq e) (contents (w_rbuf w)) = More"
  shows "(\<exists>fs w'. read_loop cb e w = Some (True, w') \<and> roomy (w_rbuf w') \<and> served cb e fs w w'
      \<and> drain (nats_verdict (e_ceq e)) (contents (w_rbuf w) @ concat cs) = (fs, Pending (contents (w_rbuf w'))))
    \<or> (\<exists>cs1 xs cs2 fs u. cs = cs1 @ xs # cs2 \<and> served cb e fs w u \<and> roomy (w_rbuf u)
      \<and> drain (nats_verdict (e_ceq e)) (contents (w_rbuf w) @ concat cs1) = (fs, Pending (contents (w_rbuf u)))
      \<and> refused cb e (receive xs u) \<and> contents (w_rbuf (receive xs u)) = contents (w_rbuf u) @ xs
      \<and> read_loop cb e w = do { (rc, v) \<leftarrow> ngx_nats_process_buffer cb e (receive xs u);
           v \<leftarrow> close_connection cb e NGX_NATS_REASON_BAD_PROTOCOL 1 v; Some (False, v) })"
  using assms(3-6)
proof (induction cs arbitrary: w)
  case Nil
  have "served cb e [] w (tick (tick w))" by (blast intro: served.intros input_steps(2))
  moreover have "w_rbuf (tick (tick w)) = w_rbuf w" by (simp add: tick_def)
  ultimately show ?case using Nil read_stop by (auto simp: drain.simps [of _ "contents (w_rbuf w)"])
next
  case (Cons xs cs)
  let ?b = "w_rbuf w" and ?V = "nats_verdict (e_ceq e)" and ?u = "receive xs w"
  have sk: "xs \<noteq> []" "e_recv e (w_tick w) (room w) = (int (length xs), xs)"
    "\<And>v. ngx_nats_process_buffer cb e ?u = Some (NGX_OK, v) \<Longrightarrow> socket cb e v cs"
    using Cons.prems(1) by auto
  note turn = read_turn [OF rd Cons.prems(2) sk(1,2)]
  have ok: "stream_ok ((contents ?b @ xs) @ concat cs)" using Cons.prems(3) by simp
  then have ok1: "stream_ok (contents (w_rbuf ?u))" unfolding turn(3) by (rule nats.ok_prefix)
  obtain fs st where d: "drain ?V (contents (w_rbuf ?u)) = (fs, st)" by fastforce
  show ?case
  proof (rule pass_cases [OF assms(1) turn(1,2) ok1 d])
    fix v0 :: world and c t
    let ?v = "v0\<lparr>w_rbuf := c, w_tick := t\<rparr>"
    assume p: "ngx_nats_process_buffer cb e ?u = Some (NGX_OK, ?v)" "serve cb e fs ?u = Some (None, v0)"
      "st = Pending (contents c)" "roomy c"
    have "served cb e (fs @ []) ?u ?v"
      by (rule served_append [OF serve_served [OF p(2)]], rule served.input [OF input_steps(1)], rule served.none)
    then have "served cb e fs ?u ?v" by simp
    then have sv: "served cb e fs w ?v" by (rule served.input [OF input_steps(3)])
    have dp: "drain ?V (contents ?b @ xs) = (fs, Pending (contents c))" using d p(3) unfolding turn(3) by simp
    have part: "?V (contents c) = More \<and> stream_ok (contents c @ concat cs1) \<and> drain ?V ((contents ?b @ xs) @ concat cs1)
         = (case drain ?V (contents c @ concat cs1) of (gs, st') \<Rightarrow> (fs @ gs, st'))"
      if "stream_ok ((contents ?b @ xs) @ concat cs1)" for cs1
      using nats.drain_append [OF that dp] by simp
    note q = part [OF ok, THEN conjunct1] part [OF ok, THEN conjunct2, THEN conjunct1] part [THEN conjunct2, THEN conjunct2]
    have loop: "read_loop cb e w = read_loop cb e ?v" using turn(4) p(1) by simp
    from Cons.IH [OF sk(3) [OF p(1)]] p(4) q(1,2)
    consider gs w' where "read_loop cb e ?v = Some (True, w')" "roomy (w_rbuf w')" "served cb e gs ?v w'"
        "drain ?V (contents c @ concat cs) = (gs, Pending (contents (w_rbuf w')))"
      | cs1 ys cs2 gs u where "cs = cs1 @ ys # cs2" "served cb e gs ?v u" "roomy (w_rbuf u)"
        "drain ?V (contents c @ concat cs1) = (gs, Pending (contents (w_rbuf u)))" "refused cb e (receive ys u)"
        "contents (w_rbuf (receive ys u)) = contents (w_rbuf u) @ ys"
        "read_loop cb e ?v = do { (rc, v) \<leftarrow> ngx_nats_process_buffer cb e (receive ys u);
           v \<leftarrow> close_connection cb e NGX_NATS_REASON_BAD_PROTOCOL 1 v; Some (False, v) }"
      by auto
    then show ?thesis
    proof cases
      case 1
      with loop q(3) [OF ok] served_append [OF sv 1(3)] show ?thesis
        by (intro disjI1 exI [of _ "fs @ gs"] exI [of _ w']) simp
    next
      case 2
      have "stream_ok (((contents ?b @ xs) @ concat cs1) @ ys @ concat cs2)" using ok 2(1) by simp
      from q(3) [OF nats.ok_prefix [OF this]] 2 loop served_append [OF sv 2(2)] show ?thesis
        by (intro disjI2 exI [of _ "xs # cs1"] exI [of _ ys] exI [of _ cs2] exI [of _ "fs @ gs"] exI [of _ u]) simp
    qed
  next
    assume p: "refused cb e ?u" "\<forall>v. ngx_nats_process_buffer cb e ?u \<noteq> Some (NGX_OK, v)"
    have "read_loop cb e w = do { (rc, v) \<leftarrow> ngx_nats_process_buffer cb e ?u;
        v \<leftarrow> close_connection cb e NGX_NATS_REASON_BAD_PROTOCOL 1 v; Some (False, v) }"
      unfolding turn(4) using p(2) by (cases "ngx_nats_process_buffer cb e ?u") auto
    with p(1) Cons.prems turn(3) show ?thesis
      by (intro disjI2 exI [of _ "[]"] exI [of _ xs] exI [of _ cs] exI [of _ "[]"] exI [of _ w])
        (simp add: served.none drain.simps [of _ "contents ?b"])
  qed
qed

end

section \<open>A stream of messages\<close>

text \<open>What is published: subject, sid, reply-to and payload; its text, and the callback that delivers it.\<close>

type_synonym published = "bytes \<times> nat \<times> bytes option \<times> bytes"

fun text_of :: "published \<Rightarrow> bytes" where
  "text_of (subject, sid, reply, payload) = msg_text subject sid reply payload"

fun published_ok :: "published \<Rightarrow> bool" where
  "published_ok (subject, sid, reply, payload) \<longleftrightarrow>
     token_ok subject \<and> (\<forall>r. reply = Some r \<longrightarrow> token_ok r) \<and> sid < 2 ^ 63"

text \<open>To a subscription without a maximum number of messages.\<close>

fun subscribed :: "subs \<Rightarrow> published \<Rightarrow> bool" where
  "subscribed ss (subject, sid, reply, payload) \<longleftrightarrow>
     (\<exists>i. ngx_nats_get_subscription ss (int sid) = Some i \<and> su_max (ss ! i) \<le> 0)"

fun delivery :: "subs \<Rightarrow> published \<Rightarrow> callback" where
  "delivery ss (subject, sid, reply, payload) =
     (let sub = ss ! the (ngx_nats_get_subscription ss (int sid)) in
      HandleMsg (su_handler sub) \<lparr>mg_client = su_client sub, mg_sid = int sid, mg_subject = subject,
        mg_replyto = reply, mg_data = payload, mg_sub_data = su_data sub\<rparr>)"

definition delivers :: "env \<Rightarrow> ngx_nats_msg \<times> bytes \<Rightarrow> published \<Rightarrow> bool" where
  "delivers e f x \<longleftrightarrow> (\<forall>w. subscribed (w_subs w) x \<longrightarrow>
     effect no_calls e (fst f) (snd f) w = Some (None, emit (Callback (delivery (w_subs w) x)) (w\<lparr>w_tick := w_tick w + 2\<rparr>)))"

lemma text_frame:
  assumes "casecmp_ok (e_ceq e)" and "\<forall>t. e_alloc e t" and "published_ok x" and "stream_ok (text_of x @ rest)"
  shows "\<exists>f. nats_verdict (e_ceq e) (text_of x @ rest) = Frame f (length (text_of x)) \<and> delivers e f x"
proof -
  obtain subject sid reply payload where x: "x = (subject, sid, reply, payload)" by (rule prod_cases4)
  let ?n = "length (text_of x)"
  have ok: "token_ok subject" "\<forall>r. reply = Some r \<longrightarrow> token_ok r" "sid < 2 ^ 63"
    "length (msg_text subject sid reply payload @ rest) < 2 ^ 62"
    using assms(3,4) x by (simp_all add: stream_ok_def)
  obtain m s where p: "ngx_nats_parse (e_ceq e) (text_of x @ rest) = Some (int ?n, m, s)"
    and ef: "\<And>w i. ngx_nats_get_subscription (w_subs w) (int sid) = Some i \<Longrightarrow> effect no_calls e m s w =
        do { v \<leftarrow> call no_calls (HandleMsg (su_handler (w_subs w ! i))
                     \<lparr>mg_client = su_client (w_subs w ! i), mg_sid = int sid, mg_subject = subject,
                      mg_replyto = reply, mg_data = payload, mg_sub_data = su_data (w_subs w ! i)\<rparr>)
                   (w\<lparr>w_subs := count_delivery (w_subs w) i, w_tick := w_tick w + 2\<rparr>);
             Some (None, v) }"
    by (rule text_effect [OF assms(1,2) ok, where cb = no_calls]) (use x in \<open>simp add: that\<close>)
  have n: "0 < ?n" using x by (simp add: msg_text_def)
  have "parsed_ok (text_of x @ rest) (int ?n, m, s)" using nats_verdict_ok [OF assms(4)] p by (metis option.inject)
  from effect_frame [OF this] n have fr: "effect no_calls e m (take ?n s) w = effect no_calls e m s w" for w by simp
  have "delivers e (m, take ?n s) x"
    unfolding delivers_def
  proof (intro allI impI)
    fix w :: world assume "subscribed (w_subs w) x"
    then obtain i where i: "ngx_nats_get_subscription (w_subs w) (int sid) = Some i" "su_max (w_subs w ! i) \<le> 0"
      using x by auto
    then have "count_delivery (w_subs w) i = w_subs w" by (simp add: count_delivery_def)
    then show "effect no_calls e (fst (m, take ?n s)) (snd (m, take ?n s)) w
        = Some (None, emit (Callback (delivery (w_subs w) x)) (w\<lparr>w_tick := w_tick w + 2\<rparr>))"
      unfolding fst_conv snd_conv fr using i ef [OF i(1)] x by (simp add: Let_def call_def no_calls_def)
  qed
  moreover have "nats_verdict (e_ceq e) (text_of x @ rest) = Frame (m, take ?n s) ?n"
    using p n by (auto simp: nats_verdict_def proto_codes)
  ultimately show ?thesis by blast
qed

text \<open>The frames of messages are served by calling their handlers.\<close>

lemma serve_delivers:
  "list_all2 (delivers e) fs ms \<Longrightarrow> \<forall>x \<in> set ms. subscribed (w_subs w) x \<Longrightarrow>
     \<exists>t. serve no_calls e fs w = Some (None, w\<lparr>w_log := w_log w @ map (\<lambda>x. Callback (delivery (w_subs w) x)) ms, w_tick := t\<rparr>)"
proof (induction fs ms arbitrary: w rule: list_all2_induct)
  case Nil
  show ?case by (intro exI [of _ "w_tick w"]) simp
next
  case (Cons f fs x ms)
  let ?v = "emit (Callback (delivery (w_subs w) x)) (w\<lparr>w_tick := w_tick w + 2\<rparr>)"
  have "effect no_calls e (fst f) (snd f) w = Some (None, ?v)" using Cons.hyps(1) Cons.prems by (simp add: delivers_def)
  moreover obtain t where "serve no_calls e fs ?v
      = Some (None, ?v\<lparr>w_log := w_log ?v @ map (\<lambda>x. Callback (delivery (w_subs ?v) x)) ms, w_tick := t\<rparr>)"
    using Cons.IH [of ?v] Cons.prems by (auto simp: emit_def)
  ultimately show ?case by (cases f; intro exI [of _ t]) (simp add: emit_def)
qed

text \<open>A part of the stream: some of the messages, and less than the next one.\<close>

lemma part_of_stream:
  assumes "casecmp_ok (e_ceq e)" and "\<forall>t. e_alloc e t"
  shows "\<forall>x \<in> set ms. published_ok x \<Longrightarrow> stream_ok (s @ t) \<Longrightarrow> s @ t = concat (map text_of ms) @ rest \<Longrightarrow>
    nats_verdict (e_ceq e) rest = More \<Longrightarrow>
    \<exists>ms1 ms2 q fs. ms = ms1 @ ms2 \<and> drain (nats_verdict (e_ceq e)) s = (fs, Pending q) \<and> list_all2 (delivers e) fs ms1
      \<and> q @ t = concat (map text_of ms2) @ rest \<and> nats_verdict (e_ceq e) q = More
      \<and> (length q \<le> length rest \<or> (\<exists>x \<in> set ms. length q < length (text_of x)))"
proof (induction ms arbitrary: s)
  case Nil
  let ?V = "nats_verdict (e_ceq e)"
  have eq: "s @ t = rest" using Nil.prems(3) by simp
  have "?V s = More"
    using nats.frame_stable [OF Nil.prems(2), of "e_ceq e"] nats.bad_stable [OF Nil.prems(2), of "e_ceq e"]
      nats.no_crash [OF nats.ok_prefix [OF Nil.prems(2)], of "e_ceq e"] Nil.prems(4) eq
    by (cases "?V s") auto
  moreover have "length s \<le> length rest" unfolding eq [symmetric] by simp
  ultimately show ?case using eq by (auto simp: drain.simps [of _ s])
next
  case (Cons x ms)
  let ?V = "nats_verdict (e_ceq e)" and ?n = "length (text_of x)" and ?rest = "concat (map text_of ms) @ rest"
  have st: "s @ t = text_of x @ ?rest" using Cons.prems(3) by simp
  obtain f where f: "?V (text_of x @ ?rest) = Frame f ?n" "delivers e f x"
    using text_frame [OF assms, of x ?rest] Cons.prems(1,2) st by auto
  show ?case
  proof (cases "length s < ?n")
    case True
    have "?V s = More"
      using nats.frame_stable [OF Cons.prems(2), of "e_ceq e"] nats.bad_stable [OF Cons.prems(2), of "e_ceq e"]
        nats.no_crash [OF nats.ok_prefix [OF Cons.prems(2)], of "e_ceq e"]
        nats.frame_bound [OF nats.ok_prefix [OF Cons.prems(2)], of "e_ceq e"] f(1) st True
      by (cases "?V s") auto
    then have "drain ?V s = ([], Pending s)" by (simp add: drain.simps [of _ s])
    with \<open>?V s = More\<close> st True show ?thesis
      by (intro exI [of _ "[]"] exI [of _ "x # ms"] exI [of _ s]) auto
  next
    case False
    have "take ?n (s @ t) = text_of x" "drop ?n (s @ t) = ?rest" unfolding st by simp_all
    then have tk: "take ?n s = text_of x" and r: "drop ?n s @ t = ?rest" using False by simp_all
    have s: "s = text_of x @ drop ?n s" using append_take_drop_id [of ?n s] unfolding tk by simp
    have n: "0 < ?n" by (cases x) (simp add: msg_text_def)
    obtain f' where f': "?V s = Frame f' ?n" "delivers e f' x"
      using text_frame [OF assms, of x "drop ?n s"] Cons.prems(1) nats.ok_prefix [OF Cons.prems(2)] s by auto
    have ok: "stream_ok (drop ?n s @ t)" using nats.ok_suffix [OF Cons.prems(2), of ?n] False by simp
    obtain ms1 ms2 q fs where IH: "ms = ms1 @ ms2" "drain ?V (drop ?n s) = (fs, Pending q)" "list_all2 (delivers e) fs ms1"
      "q @ t = concat (map text_of ms2) @ rest" "?V q = More"
      "length q \<le> length rest \<or> (\<exists>x \<in> set ms. length q < length (text_of x))"
      using Cons.IH [OF _ ok r Cons.prems(4)] Cons.prems(1) by (elim meta_impE exE conjE) (simp, rule that)
    have "s \<noteq> []" using False n by auto
    then have "drain ?V s = (f' # fs, Pending q)" using f'(1) n IH(2) by (simp add: drain.simps [of _ s])
    with IH f'(2) show ?thesis
      by (intro exI [of _ "x # ms1"] exI [of _ ms2] exI [of _ q] exI [of _ "f' # fs"]) auto
  qed
qed

text \<open>An incomplete message of \<open>n\<close> bytes can be kept: the buffer may grow for it.\<close>

definition keepable :: "world \<Rightarrow> nat \<Rightarrow> bool" where
  "keepable w n \<longleftrightarrow> n + 1 < NGX_NATS_MAX_MESSAGE_SIZE
     \<and> (srv_max_payload (w_conn w) \<le> 0 \<or> n + 1 < u64 (srv_max_payload (w_conn w)))"

lemma keepable_limit:
  "keepable w n \<Longrightarrow> q \<le> n \<Longrightarrow> b_cap b \<le> q + 1 \<Longrightarrow> srv_max_payload (w_conn v) = srv_max_payload (w_conn w) \<Longrightarrow> \<not> at_limit b v"
  by (auto simp: keepable_def at_limit_def)

lemma stream_loop:
  assumes "sends_ok e" and "env_ok e" and "casecmp_ok (e_ceq e)" and al: "\<forall>t. e_alloc e t"
    and v: "nats_verdict (e_ceq e) rest = More"
  shows "socket no_calls e w cs \<Longrightarrow> roomy (w_rbuf w) \<Longrightarrow> nats_verdict (e_ceq e) (contents (w_rbuf w)) = More \<Longrightarrow>
    contents (w_rbuf w) @ concat cs = concat (map text_of ms) @ rest \<Longrightarrow> stream_ok (contents (w_rbuf w) @ concat cs) \<Longrightarrow>
    \<forall>x \<in> set ms. published_ok x \<and> subscribed (w_subs w) x \<and> keepable w (length (text_of x)) \<Longrightarrow>
    keepable w (length rest) \<Longrightarrow>
    \<exists>w'. read_loop no_calls e w = Some (True, w') \<and> contents (w_rbuf w') = rest \<and> roomy (w_rbuf w') \<and> w_subs w' = w_subs w
      \<and> callbacks (w_log w') = callbacks (w_log w) @ map (delivery (w_subs w)) ms"
proof (induction cs arbitrary: w ms)
  case Nil
  have "ms = []"
  proof (cases ms)
    case (Cons x xs)
    let ?rest = "concat (map text_of xs) @ rest"
    have s: "contents (w_rbuf w) = text_of x @ ?rest" using Nil.prems(4) Cons by simp
    have "stream_ok (text_of x @ ?rest)" using Nil.prems(5) s by simp
    from text_frame [OF assms(3) al _ this] Nil.prems(3,6) Cons s show ?thesis by auto
  qed
  with Nil.prems silent.read_stop [OF Nil.prems(1)] show ?case
    by (intro exI [of _ "tick (tick w)"]) (simp add: tick_def)
next
  case (Cons xs cs)
  let ?V = "nats_verdict (e_ceq e)" and ?u = "receive xs w"
  have rd: "\<forall>t k n xs. e_recv e t k = (n, xs) \<longrightarrow> 0 < n \<longrightarrow> length xs = nat n \<and> nat n \<le> k"
    using assms(2) by (simp add: env_ok_def)
  have sk: "xs \<noteq> []" "e_recv e (w_tick w) (room w) = (int (length xs), xs)"
    "\<And>v. ngx_nats_process_buffer no_calls e ?u = Some (NGX_OK, v) \<Longrightarrow> socket no_calls e v cs"
    using Cons.prems(1) by auto
  note turn = silent.read_turn [OF rd Cons.prems(2) sk(1,2)]
  have same: "w_subs ?u = w_subs w" "w_log ?u = w_log w" "srv_max_payload (w_conn ?u) = srv_max_payload (w_conn w)"
    by (simp_all add: receive_def ngx_nats_check_connected_def upd_conn_def tick_def)
  have ok: "stream_ok (contents (w_rbuf ?u) @ concat cs)" using Cons.prems(5) turn(3) by simp
  have st: "contents (w_rbuf ?u) @ concat cs = concat (map text_of ms) @ rest" using Cons.prems(4) turn(3) by simp
  have pub: "\<forall>x \<in> set ms. published_ok x" using Cons.prems(6) by blast
  obtain ms1 ms2 q fs where part: "ms = ms1 @ ms2" "drain ?V (contents (w_rbuf ?u)) = (fs, Pending q)"
    "list_all2 (delivers e) fs ms1" "q @ concat cs = concat (map text_of ms2) @ rest" "?V q = More"
    "length q \<le> length rest \<or> (\<exists>x \<in> set ms. length q < length (text_of x))"
    using part_of_stream [OF assms(3) al pub ok st v] by (elim exE conjE) (rule that)
  have subs: "\<forall>x \<in> set ms1. subscribed (w_subs ?u) x" using Cons.prems(6) part(1) same(1) by simp
  obtain t0 where sv: "serve no_calls e fs ?u
      = Some (None, ?u\<lparr>w_log := w_log ?u @ map (\<lambda>x. Callback (delivery (w_subs ?u) x)) ms1, w_tick := t0\<rparr>)"
    using serve_delivers [OF part(3) subs] by blast
  have room: "\<not> at_limit (w_rbuf ?u) v" if "b_cap (w_rbuf ?u) \<le> length q + 1" "w_conn v = w_conn ?u" for v
    using part(6) Cons.prems(6,7) that same(3) by (metis keepable_limit less_imp_le)
  have nr: "\<not> refused no_calls e ?u" using room al part(2) sv by (simp add: refused_def)
  obtain d t where
    p: "ngx_nats_process_buffer no_calls e ?u = Some (NGX_OK,
        ?u\<lparr>w_log := w_log ?u @ map (\<lambda>x. Callback (delivery (w_subs ?u) x)) ms1, w_rbuf := d, w_tick := t\<rparr>)"
    "contents d = q" "roomy d"
  proof (rule silent.pass_cases [OF assms(1) turn(1,2) nats.ok_prefix [OF ok] part(2)])
    fix u0 :: world and d t
    assume "ngx_nats_process_buffer no_calls e ?u = Some (NGX_OK, u0\<lparr>w_rbuf := d, w_tick := t\<rparr>)"
      "serve no_calls e fs ?u = Some (None, u0)" "Pending q = Pending (contents d)" "roomy d"
    with that [where d = d and t = t] sv show thesis by simp
  qed (use nr in simp)
  let ?v = "?u\<lparr>w_log := w_log ?u @ map (\<lambda>x. Callback (delivery (w_subs ?u) x)) ms1, w_rbuf := d, w_tick := t\<rparr>"
  have keep: "keepable ?v n = keepable w n" for n using same(3) by (simp add: keepable_def)
  have "q @ concat cs = concat (map text_of ms2) @ rest" "stream_ok (q @ concat cs)"
    using part nats.drain_append [OF ok part(2)] by auto
  then obtain w' where w': "read_loop no_calls e ?v = Some (True, w')" "contents (w_rbuf w') = rest" "roomy (w_rbuf w')"
    "w_subs w' = w_subs ?v" "callbacks (w_log w') = callbacks (w_log ?v) @ map (delivery (w_subs ?v)) ms2"
    using Cons.IH [OF sk(3) [OF p(1)], of ms2] p(2,3) part(1,5) Cons.prems(6,7) same(1) keep by auto
  have "callbacks (map (\<lambda>x. Callback (delivery ss x)) zs) = map (delivery ss) zs" for ss zs by (induction zs) simp_all
  with w' same p(1) turn(4) part(1) show ?case by (intro exI [of _ w']) simp
qed

section \<open>The properties\<close>

text \<open>
  C5: one event of the socket, however its bytes arrive. The socket delivers the chunks \<open>cs\<close> one after the
  other and then has no more (\<open>socket\<close>); the clients answer their callbacks with calls of the client
  functions; sending does not fail, and no run of decimal digits in the stream (in subjects and
  payloads too) is longer than 18. Either the loop ends without closing the connection, every complete
  message of the whole stream, cut anywhere by the reads, has had its effect exactly once and in
  order, and the incomplete message at the end is in the buffer, which has room for the next event.
  Or the loop ends at the first chunk \<open>xs\<close> with which the pass over the buffer is refused: a
  message requires a close, the input is malformed, or a message fills a buffer that cannot grow;
  every complete message of the chunks before it has had its effect, once and in order, and after
  that pass the loop closes the connection (again) and stops. The writes of \<open>recv\<close> stay inside
  the buffer.
\<close>

theorem read_loop_serves:
  assumes "sends_ok e" and "env_ok e" and "socket (history_cb prog e k) e w cs" and "roomy (w_rbuf w)"
    and "stream_ok (contents (w_rbuf w) @ concat cs)" and "nats_verdict (e_ceq e) (contents (w_rbuf w)) = More"
  shows "(\<exists>fs w'. read_loop (history_cb prog e k) e w = Some (True, w') \<and> roomy (w_rbuf w')
      \<and> served (history_cb prog e k) e fs w w'
      \<and> drain (nats_verdict (e_ceq e)) (contents (w_rbuf w) @ concat cs) = (fs, Pending (contents (w_rbuf w'))))
    \<or> (\<exists>cs1 xs cs2 fs u. cs = cs1 @ xs # cs2 \<and> served (history_cb prog e k) e fs w u \<and> roomy (w_rbuf u)
      \<and> drain (nats_verdict (e_ceq e)) (contents (w_rbuf w) @ concat cs1) = (fs, Pending (contents (w_rbuf u)))
      \<and> refused (history_cb prog e k) e (receive xs u) \<and> contents (w_rbuf (receive xs u)) = contents (w_rbuf u) @ xs
      \<and> read_loop (history_cb prog e k) e w =
          do { (rc, v) \<leftarrow> ngx_nats_process_buffer (history_cb prog e k) e (receive xs u);
               v \<leftarrow> close_connection (history_cb prog e k) e NGX_NATS_REASON_BAD_PROTOCOL 1 v; Some (False, v) })"
  using history.loop_serves [OF assms(1) _ assms(3-6)] assms(2) by (simp add: env_ok_def)


text \<open>A socket that delivers the text of a message in two parts.\<close>

definition cut_env :: env where
  "cut_env = (try_env 1 NGX_OK)\<lparr>e_recv := \<lambda>t k.
     if k < 12 then (NGX_AGAIN, [])
     else if t = 0 then (12, ''MSG foo 1 2'' @ [CR])
     else if t = 1 then (7, [LF] @ ''hi'' @ [CR, LF] @ ''MS'')
     else (NGX_AGAIN, [])\<rparr>"

definition cut_world :: world where
  "cut_world = ready_world\<lparr>w_rbuf := buf_with 32 [], w_wbuf := buf_with 8 [],
     w_subs := [\<lparr>su_client = 8, su_handler = 3, su_data = 5, su_sid = 1, su_max = 0, su_recv = 0\<rparr>]\<rparr>"

text \<open>Its passes over the buffer, one by one.\<close>

definition cut_pass :: "world \<Rightarrow> int \<times> world" where
  "cut_pass w = the (nats_process_buffer_msg no_calls cut_env w)"

definition cut_1 :: world where "cut_1 = snd (cut_pass (receive (''MSG foo 1 2'' @ [CR]) cut_world))"
definition cut_2 :: world where "cut_2 = snd (cut_pass (receive ([LF] @ ''hi'' @ [CR, LF] @ ''MS'') cut_1))"
definition cut_rest :: world where "cut_rest = set_rbuf ((w_rbuf cut_2)\<lparr>b_pos := 17\<rparr>) cut_2"
definition cut_3 :: world where "cut_3 = snd (cut_pass cut_rest)"

lemma cut_skip: "skip_message 17 cut_2 = cut_rest"
proof -
  have "b_pos (w_rbuf cut_2) = 0" by code_simp
  then show ?thesis by (simp add: skip_message_def cut_rest_def)
qed

lemma cut_buffer_stop:
  "nats_process_buffer_msg no_calls cut_env w \<noteq> None \<Longrightarrow> fst (cut_pass w) = 0 \<Longrightarrow>
     ngx_nats_process_buffer no_calls cut_env w = Some (0, snd (cut_pass w))"
  by (auto simp: ngx_nats_process_buffer.simps [of _ _ w] cut_pass_def)

lemma cut_buffer_step:
  "nats_process_buffer_msg no_calls cut_env w \<noteq> None \<Longrightarrow> 0 < fst (cut_pass w) \<Longrightarrow>
     ngx_nats_process_buffer no_calls cut_env w = ngx_nats_process_buffer no_calls cut_env (skip_message (fst (cut_pass w)) (snd (cut_pass w)))"
  by (auto simp: ngx_nats_process_buffer.simps [of _ _ w] cut_pass_def)

lemma cut_socket: "socket no_calls cut_env cut_world [''MSG foo 1 2'' @ [CR], [LF] @ ''hi'' @ [CR, LF] @ ''MS'']"
proof -
  let ?c = "''MSG foo 1 2'' @ [CR]" and ?d = "[LF] @ ''hi'' @ [CR, LF] @ ''MS''"
  have 1: "nats_process_buffer_msg no_calls cut_env (receive ?c cut_world) \<noteq> None" "fst (cut_pass (receive ?c cut_world)) = 0"
    by code_simp+
  have 2: "nats_process_buffer_msg no_calls cut_env (receive ?d cut_1) \<noteq> None" "fst (cut_pass (receive ?d cut_1)) = 17"
    by code_simp+
  have 3: "nats_process_buffer_msg no_calls cut_env cut_rest \<noteq> None" "fst (cut_pass cut_rest) = 0"
    by code_simp+
  have p: "0 < fst (cut_pass (receive ?d cut_1))" unfolding 2(2) by simp
  have r1: "e_recv cut_env (w_tick cut_world) (room cut_world) = (int (length ?c), ?c)" by code_simp
  have b1: "ngx_nats_process_buffer no_calls cut_env (receive ?c cut_world) = Some (NGX_OK, cut_1)"
    using cut_buffer_stop [OF 1] by (simp add: cut_1_def)
  have r2: "e_recv cut_env (w_tick cut_1) (room cut_1) = (int (length ?d), ?d)" by code_simp
  have b2: "ngx_nats_process_buffer no_calls cut_env (receive ?d cut_1) = Some (NGX_OK, cut_3)"
    unfolding cut_buffer_step [OF 2(1) p] unfolding 2(2) cut_2_def [symmetric] cut_skip cut_buffer_stop [OF 3]
      cut_3_def [symmetric] by (rule refl)
  have r3: "fst (e_recv cut_env (w_tick cut_3) (room cut_3)) = NGX_AGAIN" "e_read_event cut_env (w_tick cut_3 + 1) = NGX_OK"
    by code_simp+
  have s3: "socket no_calls cut_env cut_3 []" using r3 by simp
  have s2: "socket no_calls cut_env cut_1 [?d]" by (rule socket_chunk [OF _ r2 b2 s3]) simp
  show ?thesis by (rule socket_chunk [OF _ r1 b1 s2]) simp
qed

lemma cut_ok:
  "sends_ok cut_env" "env_ok cut_env" "casecmp_ok (e_ceq cut_env)" "\<forall>t. e_alloc cut_env t" "roomy (w_rbuf cut_world)"
  "contents (w_rbuf cut_world) = []" "nats_verdict (e_ceq cut_env) [] = More" "nats_verdict (e_ceq cut_env) ''MS'' = More"
proof -
  have b: "rbuf_ok (buf_with 32 [])" "contents (buf_with 32 []) = []" by (simp_all add: buf_with_ok)
  show "sends_ok cut_env" "\<forall>t. e_alloc cut_env t" "casecmp_ok (e_ceq cut_env)"
    using try_env_sends [of 1 NGX_OK] by (simp_all add: cut_env_def sends_ok_def try_env_def)
  have "env_ok (try_env 1 NGX_OK)" by (rule try_env_ok) simp_all
  then show "env_ok cut_env" by (auto simp: env_ok_def cut_env_def split: if_splits)
  show "roomy (w_rbuf cut_world)" "contents (w_rbuf cut_world) = []"
    using b by (simp_all add: cut_world_def roomy_def buf_with_ok)
  show "nats_verdict (e_ceq cut_env) [] = More" by (rule empty_verdict)
  have "nats_verdict casecmp ''MS'' = More" by code_simp
  then show "nats_verdict (e_ceq cut_env) ''MS'' = More" by (simp add: cut_env_def try_env_def)
qed

lemma cut_stream:
  fixes ms :: "published list"
  assumes "ms = [(''foo'', 1, None, ''hi'')]"
  shows "contents (w_rbuf cut_world) @ concat [''MSG foo 1 2'' @ [CR], [LF] @ ''hi'' @ [CR, LF] @ ''MS'']
      = concat (map text_of ms) @ ''MS''"
    and "stream_ok (concat (map text_of ms) @ ''MS'')"
    and "\<forall>x \<in> set ms. published_ok x \<and> subscribed (w_subs cut_world) x \<and> keepable cut_world (length (text_of x))"
    and "keepable cut_world (length ''MS'')"
    and "nats_verdict (e_ceq cut_env) (contents (w_rbuf cut_world)) = More"
proof -
  show "contents (w_rbuf cut_world) @ concat [''MSG foo 1 2'' @ [CR], [LF] @ ''hi'' @ [CR, LF] @ ''MS'']
      = concat (map text_of ms) @ ''MS''"
    unfolding cut_ok(6) assms by code_simp
  have "digit_runs_le 18 0 (concat (map text_of ms) @ ''MS'')" unfolding assms by code_simp
  moreover have "length (concat (map text_of ms) @ ''MS'') < 2 ^ 62" unfolding assms by (simp add: msg_text_def dec.simps)
  ultimately show "stream_ok (concat (map text_of ms) @ ''MS'')" by (simp add: stream_ok_def)
  show "\<forall>x \<in> set ms. published_ok x \<and> subscribed (w_subs cut_world) x \<and> keepable cut_world (length (text_of x))"
    unfolding assms
    by (simp add: token_ok_def cut_world_def ngx_nats_get_subscription_def keepable_def msg_text_def dec.simps
        NGX_NATS_MAX_MESSAGE_SIZE_def ready_world_def conn_zero_def)
  show "keepable cut_world (length ''MS'')"
    by (simp add: keepable_def NGX_NATS_MAX_MESSAGE_SIZE_def cut_world_def ready_world_def conn_zero_def)
  show "nats_verdict (e_ceq cut_env) (contents (w_rbuf cut_world)) = More" unfolding cut_ok(6) by (rule cut_ok(7))
qed


lemma history_silent: "history_cb (\<lambda>c h. []) e (Suc 0) = no_calls"
  by (intro ext) (simp add: history_cb_def no_calls_def)

theorem read_loop_serves_witness:
  "\<exists>w' fs. read_loop (history_cb (\<lambda>c h. []) cut_env (Suc 0)) cut_env cut_world = Some (True, w')
    \<and> served (history_cb (\<lambda>c h. []) cut_env (Suc 0)) cut_env fs cut_world w' \<and> length fs = 1"
proof -
  let ?ms = "[(''foo'', 1, None, ''hi'')] :: published list"
  let ?cs = "[''MSG foo 1 2'' @ [CR], [LF] @ ''hi'' @ [CR, LF] @ ''MS'']" and ?cb = "history_cb (\<lambda>c h. []) cut_env (Suc 0)"
  note s = cut_stream [of ?ms, OF refl]
  have ok: "stream_ok (contents (w_rbuf cut_world) @ concat ?cs)" unfolding s(1) by (rule s(2))
  have sk: "socket ?cb cut_env cut_world ?cs" unfolding history_silent by (rule cut_socket)
  have "map_prod length (\<lambda>st. st) (drain (nats_verdict casecmp) (concat ?cs)) = (1, Pending ''MS'')" by code_simp
  then have n: "map_prod length (\<lambda>st. st) (drain (nats_verdict (e_ceq cut_env)) (contents (w_rbuf cut_world) @ concat ?cs)) = (1, Pending ''MS'')"
    unfolding cut_ok(6) by (simp add: cut_env_def try_env_def)
  obtain v where "read_loop ?cb cut_env cut_world = Some (True, v)"
    using stream_loop [OF cut_ok(1-4) cut_ok(8) cut_socket cut_ok(5) s(5,1) ok s(3,4)] unfolding history_silent by blast
  moreover have "Some (True, v) \<noteq> do { (rc, v) \<leftarrow> a; v \<leftarrow> f v; Some (False, v) }" for a :: "(int \<times> world) option" and f
    by (cases a; cases "f (snd (the a))") (auto split: prod.split)
  ultimately have no: "read_loop ?cb cut_env cut_world \<noteq> do { (rc, v) \<leftarrow> a; v \<leftarrow> f v; Some (False, v) }"
    for a :: "(int \<times> world) option" and f by simp
  from read_loop_serves [OF cut_ok(1,2) sk cut_ok(5) ok s(5)] show ?thesis
  proof (elim disjE exE conjE)
    fix fs w'
    assume "read_loop ?cb cut_env cut_world = Some (True, w')" "served ?cb cut_env fs cut_world w'"
      "drain (nats_verdict (e_ceq cut_env)) (contents (w_rbuf cut_world) @ concat ?cs) = (fs, Pending (contents (w_rbuf w')))"
    with n show ?thesis by (intro exI [of _ w'] exI [of _ fs]) (simp only: map_prod_simp prod.inject simp_thms)
  qed (simp only: no)
qed

end
