(* ===== verification/Nats_Random_Test.thy ===== *)
theory Nats_Random_Test
  imports "HOL-Library.Word" Nats_Random
begin

text \<open>
  The tests of the random numbers, \<open>_test_random\<close> and \<open>ngx_nats_test_random\<close> of \<open>ngx_nats.c\<close>, which a worker
  runs when an environment variable asks for them. The arithmetic of \<open>double\<close> is a parameter; what
  is printed are the counts, the formatting of the text is left out, as is the clock that measures
  the speed.
\<close>

section \<open>The tests\<close>

text \<open>Literals, sums, products, comparison, conversion from \<open>uint32_t\<close>, and the variable \<open>rand_d\<close>.\<close>

record 'd fp =
  fp_lit :: "bytes \<Rightarrow> 'd"
  fp_add :: "'d \<Rightarrow> 'd \<Rightarrow> 'd"
  fp_mul :: "'d \<Rightarrow> 'd \<Rightarrow> 'd"
  fp_le :: "'d \<Rightarrow> 'd \<Rightarrow> bool"
  fp_word :: "u32 \<Rightarrow> 'd"
  rand_d :: 'd

text \<open>The running sums of the weights, and the last of them.\<close>

fun weight_sums :: "('d \<Rightarrow> 'd \<Rightarrow> 'd) \<Rightarrow> 'd \<Rightarrow> 'd list \<Rightarrow> 'd list \<times> 'd" where
  "weight_sums add dsum [] = ([], dsum)"
| "weight_sums add dsum (w # ws) =
     (let d = add dsum w; (ss, e) = weight_sums add d ws in (d # ss, e))"

text \<open>\<open>for (j = ...; j < last; j++) if (d <= sweights[j]) break;\<close>\<close>

function choose_weight :: "('d \<Rightarrow> 'd \<Rightarrow> bool) \<Rightarrow> 'd list \<Rightarrow> 'd \<Rightarrow> nat \<Rightarrow> nat \<Rightarrow> nat option" where
  "choose_weight le sw d j lim =
     (if j < lim then do { x \<leftarrow> rd sw j; if le d x then Some j else choose_weight le sw d (j + 1) lim }
      else Some j)"
  by pat_completeness auto
termination by (relation "measure (\<lambda>(le, sw, d, j, lim). lim - j)") auto

text \<open>The loop that draws \<open>nt\<close> numbers and counts the weights they fall on.\<close>

fun draws :: "'d fp \<Rightarrow> 'd list \<Rightarrow> 'd \<Rightarrow> nat \<Rightarrow> nat \<Rightarrow> u32 list \<times> rand_state \<Rightarrow> (u32 list \<times> rand_state) option" where
  "draws fp sw dmulti lim 0 st = Some st"
| "draws fp sw dmulti lim (Suc nt) (counts, s) =
     (let (r, s) = ngx_nats_next_random s; d = fp_mul fp dmulti (fp_word fp r) in
      do { j \<leftarrow> choose_weight (fp_le fp) sw d 0 lim;
           c \<leftarrow> rd counts j;
           draws fp sw dmulti lim nt (counts[j := c + 1], s) })"

text \<open>\<open>_test_random\<close>: the counts that it prints and the state of the generator.\<close>

definition test_random :: "'d fp \<Rightarrow> 'd list \<Rightarrow> nat \<Rightarrow> rand_state \<Rightarrow> (u32 list \<times> rand_state) option" where
  "test_random fp weights nt s =
     (let (ss, dsum) = weight_sums (fp_add fp) (fp_lit fp ''0.0'') weights in
      do { sweights \<leftarrow> mem_put (replicate 32 (fp_lit fp ''0'')) 0 ss;
           draws fp sweights (fp_mul fp dsum (rand_d fp)) (length weights - 1) nt (replicate 32 0, s) })"

definition test_times :: "nat list" where
  "test_times = [100, 1000, 10000, 25000, 50000, 100000, 500000]"

text \<open>A test for each of \<open>test_times\<close>.\<close>

fun test_all :: "'d fp \<Rightarrow> 'd list \<Rightarrow> nat list \<Rightarrow> rand_state \<Rightarrow> (u32 list list \<times> rand_state) option" where
  "test_all fp weights [] s = Some ([], s)"
| "test_all fp weights (nt # ts) s =
     do { (counts, s) \<leftarrow> test_random fp weights nt s;
          (rest, s) \<leftarrow> test_all fp weights ts s;
          Some (counts # rest, s) }"

fun test_weights :: "'d fp \<Rightarrow> 'd list list \<Rightarrow> rand_state \<Rightarrow> (u32 list list \<times> rand_state) option" where
  "test_weights fp [] s = Some ([], s)"
| "test_weights fp (ws # wss) s =
     do { (counts, s) \<leftarrow> test_all fp ws test_times s;
          (rest, s) \<leftarrow> test_weights fp wss s;
          Some (counts @ rest, s) }"

text \<open>The weights of the last test are added up in the array itself; the cells that are not set are left out.\<close>

definition perf_weights :: "'d fp \<Rightarrow> 'd list" where
  "perf_weights fp =
     (let lit = fp_lit fp; add = fp_add fp; w0 = lit ''0.001''; w1 = add (lit ''0.009'') w0; w2 = add (lit ''0.090'') w1;
          w3 = add (lit ''0.200'') w2; w4 = add (lit ''0.400'') w3; w5 = add (lit ''0.100'') w4; w6 = add (lit ''0.200'') w5 in
      [w0, w1, w2, w3, w4, w5, w6])"

definition ngx_nats_test_random :: "'d fp \<Rightarrow> rand_state \<Rightarrow> (u32 list list \<times> rand_state) option" where
  "ngx_nats_test_random fp s =
     (let lit = fp_lit fp; nweights = 6; nt = 300000000 in
      do { (counts, s) \<leftarrow> test_weights fp
             [[lit ''0.5'', lit ''0.5''], [lit ''0.1'', lit ''0.9''], [lit ''0.1'', lit ''0.3'', lit ''0.6''],
              [lit ''0.05'', lit ''0.95''], [lit ''0.001'', lit ''0.999''],
              [lit ''0.001'', lit ''0.009'', lit ''0.090'', lit ''0.300'', lit ''0.600'']] s;
           wl \<leftarrow> rd (perf_weights fp) nweights;
           (perf, s) \<leftarrow> draws fp (perf_weights fp) (fp_mul fp wl (rand_d fp)) nweights nt (replicate 32 0, s);
           Some (counts @ [perf], s) })"

section \<open>Every draw is counted once\<close>

definition next_state :: "rand_state \<Rightarrow> rand_state" where
  "next_state s = snd (ngx_nats_next_random s)"

lemma choose_weight_ok:
  "lim \<le> length sw \<Longrightarrow> j \<le> lim \<Longrightarrow> post (choose_weight le sw d j lim) (\<lambda>k. k \<le> lim)"
proof (induction le sw d j lim rule: choose_weight.induct)
  case (1 le sw d j lim)
  show ?case
  proof (cases "j < lim")
    case True
    then have "rd sw j = Some (sw ! j)" using "1.prems"(1) by simp
    with 1 True show ?thesis by (simp add: choose_weight.simps [of le sw d j] post_def del: choose_weight.simps)
  next
    case False
    then have "choose_weight le sw d j lim = Some j" by simp
    with False "1.prems" show ?thesis by (simp add: post_def)
  qed
qed

lemma sum_list_update_word:
  fixes cs :: "u32 list"
  assumes "j < length cs" and "(\<Sum>c\<leftarrow>cs. unat c) + 1 < 2 ^ 32"
  shows "(\<Sum>c\<leftarrow>cs[j := cs ! j + 1]. unat c) = (\<Sum>c\<leftarrow>cs. unat c) + 1"
proof -
  have split: "cs = take j cs @ cs ! j # drop (Suc j) cs" using assms(1) by (rule id_take_nth_drop)
  have up: "cs[j := cs ! j + 1] = take j cs @ (cs ! j + 1) # drop (Suc j) cs" using assms(1) by (rule upd_conv_take_nth_drop)
  have s: "(\<Sum>c\<leftarrow>cs. unat c) = (\<Sum>c\<leftarrow>take j cs. unat c) + unat (cs ! j) + (\<Sum>c\<leftarrow>drop (Suc j) cs. unat c)"
    by (subst split) simp
  with assms(2) have "unat (cs ! j) + 1 < 2 ^ 32" by simp
  then have "unat (cs ! j + 1) = unat (cs ! j) + 1" by (simp add: unat_word_ariths)
  then show ?thesis unfolding up s by simp
qed

definition total :: "u32 list \<Rightarrow> nat" where
  "total counts = (\<Sum>c\<leftarrow>counts. unat c)"

text \<open>The cells of the weights are counted, no other cell changes, and the generator makes one step per draw.\<close>

lemma draws_ok:
  assumes "lim \<le> length sw" and "lim < 32" and "length counts = 32" and "total counts + nt < 2 ^ 32"
  shows "\<exists>counts'. draws fp sw dm lim nt (counts, s) = Some (counts', (next_state ^^ nt) s) \<and> length counts' = 32
    \<and> total counts' = total counts + nt \<and> drop (lim + 1) counts' = drop (lim + 1) counts"
  using assms(3,4)
proof (induction nt arbitrary: counts s)
  case (Suc nt)
  let ?r = "fst (ngx_nats_next_random s)" and ?d = "fp_mul fp dm (fp_word fp (fst (ngx_nats_next_random s)))"
  obtain j where j: "choose_weight (fp_le fp) sw ?d 0 lim = Some j" "j \<le> lim"
    using choose_weight_ok [OF assms(1), of 0 "fp_le fp" ?d] by (auto simp: post_def)
  have l: "j < length counts" using j(2) assms(2) Suc.prems(1) by simp
  let ?c = "counts[j := counts ! j + 1]"
  have t: "total ?c = total counts + 1" unfolding total_def
    by (rule sum_list_update_word [OF l]) (use Suc.prems(2) in \<open>simp add: total_def\<close>)
  have "draws fp sw dm lim (Suc nt) (counts, s) = draws fp sw dm lim nt (?c, next_state s)"
    using j(1) l by (simp add: case_prod_beta next_state_def Let_def)
  moreover have "drop (lim + 1) ?c = drop (lim + 1) counts" using j(2) by (simp add: drop_update_cancel)
  moreover have "\<exists>counts'. draws fp sw dm lim nt (?c, next_state s) = Some (counts', (next_state ^^ nt) (next_state s))
      \<and> length counts' = 32 \<and> total counts' = total ?c + nt \<and> drop (lim + 1) counts' = drop (lim + 1) ?c"
    by (rule Suc.IH) (use Suc.prems t in simp_all)
  ultimately show ?case using t by (auto simp: funpow_swap1)
qed simp

lemma length_weight_sums: "length (fst (weight_sums add d ws)) = length ws"
  by (induction ws arbitrary: d) (simp_all add: Let_def case_prod_beta)

lemma zero_counts: "total (replicate n 0) = 0"
  by (simp add: total_def sum_list_replicate)

lemma test_random_ok:
  assumes "ws \<noteq> []" and "length ws \<le> 32" and "nt < 2 ^ 32"
  shows "\<exists>counts. test_random fp ws nt s = Some (counts, (next_state ^^ nt) s) \<and> length counts = 32
    \<and> total counts = nt \<and> drop (length ws) counts = replicate (32 - length ws) 0"
proof -
  obtain ss d where ss: "weight_sums (fp_add fp) (fp_lit fp ''0.0'') ws = (ss, d)" by fastforce
  have len: "length ss = length ws" using length_weight_sums [of "fp_add fp" "fp_lit fp ''0.0''" ws] ss by simp
  then obtain sw where sw: "mem_put (replicate 32 (fp_lit fp ''0'')) 0 ss = Some sw" "length sw = 32"
    using assms(2) by (auto simp: mem_put_def)
  have l: "length ws - 1 + 1 = length ws" "length ws - 1 \<le> length sw" "length ws - 1 < 32"
    using assms(1,2) sw(2) by (cases ws; simp)+
  have "\<exists>counts. draws fp sw (fp_mul fp d (rand_d fp)) (length ws - 1) nt (replicate 32 0, s) = Some (counts, (next_state ^^ nt) s)
      \<and> length counts = 32 \<and> total counts = total (replicate 32 0) + nt
      \<and> drop (length ws - 1 + 1) counts = drop (length ws - 1 + 1) (replicate 32 0)"
    by (rule draws_ok [OF l(2,3)]) (use assms(3) in \<open>simp_all add: zero_counts\<close>)
  then show ?thesis
    unfolding l(1) zero_counts by (auto simp: test_random_def ss sw(1))
qed

lemma test_all_ok:
  assumes "ws \<noteq> []" and "length ws \<le> 32" and "\<forall>t \<in> set ts. t < 2 ^ 32"
  shows "\<exists>cs. test_all fp ws ts s = Some (cs, (next_state ^^ sum_list ts) s) \<and> map total cs = ts \<and> (\<forall>c \<in> set cs. length c = 32)"
  using assms(3)
proof (induction ts arbitrary: s)
  case (Cons t ts)
  obtain c where c: "test_random fp ws t s = Some (c, (next_state ^^ t) s)" "length c = 32" "total c = t"
    using test_random_ok [OF assms(1,2)] Cons.prems by fastforce
  obtain cs where "test_all fp ws ts ((next_state ^^ t) s) = Some (cs, (next_state ^^ sum_list ts) ((next_state ^^ t) s))"
    "map total cs = ts" "\<forall>c \<in> set cs. length c = 32"
    using Cons.IH [of "(next_state ^^ t) s"] Cons.prems by auto
  with c show ?case by (simp add: add.commute [of t] funpow_add)
qed simp

lemma test_times_ok: "\<forall>t \<in> set test_times. t < 2 ^ 32" "sum_list test_times = 686100"
  by (simp_all add: test_times_def)

lemma test_weights_ok:
  assumes "\<forall>ws \<in> set wss. ws \<noteq> [] \<and> length ws \<le> 32"
  shows "\<exists>cs. test_weights fp wss s = Some (cs, (next_state ^^ (length wss * 686100)) s)
    \<and> map total cs = concat (replicate (length wss) test_times) \<and> (\<forall>c \<in> set cs. length c = 32)"
  using assms
proof (induction wss arbitrary: s)
  case (Cons ws wss)
  let ?t = "(next_state ^^ 686100) s"
  obtain c where c: "test_all fp ws test_times s = Some (c, ?t)" "map total c = test_times" "\<forall>c \<in> set c. length c = 32"
    using test_all_ok [OF _ _ test_times_ok(1), of ws fp s] Cons.prems unfolding test_times_ok(2) by auto
  obtain cs where "test_weights fp wss ?t = Some (cs, (next_state ^^ (length wss * 686100)) ?t)"
    "map total cs = concat (replicate (length wss) test_times)" "\<forall>c \<in> set cs. length c = 32"
    using Cons.IH [of ?t] Cons.prems by auto
  moreover have "(next_state ^^ (length wss * 686100)) ?t = (next_state ^^ (length (ws # wss) * 686100)) s"
    by (simp add: funpow_add [symmetric, THEN fun_cong, unfolded comp_def] add.commute)
  ultimately show ?case using c by auto
qed simp

lemma test_random_returns:
  "\<exists>counts perf. ngx_nats_test_random fp s = Some (counts @ [perf], (next_state ^^ 304116600) s)
    \<and> map total counts = concat (replicate 6 test_times) \<and> total perf = 300000000
    \<and> (\<forall>c \<in> set (counts @ [perf]). length c = 32)"
proof -
  let ?lit = "fp_lit fp"
  let ?wss = "[[?lit ''0.5'', ?lit ''0.5''], [?lit ''0.1'', ?lit ''0.9''], [?lit ''0.1'', ?lit ''0.3'', ?lit ''0.6''],
     [?lit ''0.05'', ?lit ''0.95''], [?lit ''0.001'', ?lit ''0.999''],
     [?lit ''0.001'', ?lit ''0.009'', ?lit ''0.090'', ?lit ''0.300'', ?lit ''0.600'']]"
  let ?t = "(next_state ^^ 4116600) s"
  have len: "length ?wss = 6" "6 * 686100 = (4116600 :: nat)" and ok: "\<forall>ws \<in> set ?wss. ws \<noteq> [] \<and> length ws \<le> 32" by simp_all
  obtain cs where cs: "test_weights fp ?wss s = Some (cs, ?t)" "map total cs = concat (replicate 6 test_times)"
    "\<forall>c \<in> set cs. length c = 32"
    using test_weights_ok [OF ok, of fp s] unfolding len by (elim exE conjE) (rule that)
  define n :: nat where "n = 300000000"
  obtain wl where wl: "rd (perf_weights fp) 6 = Some wl" by (simp add: rd_def perf_weights_def Let_def)
  have "6 \<le> length (perf_weights fp)" by (simp add: perf_weights_def Let_def)
  from draws_ok [OF this, of "replicate 32 0" n fp "fp_mul fp wl (rand_d fp)" ?t]
  obtain perf where perf: "draws fp (perf_weights fp) (fp_mul fp wl (rand_d fp)) 6 n (replicate 32 0, ?t)
      = Some (perf, (next_state ^^ n) ?t)" "length perf = 32" "total perf = n"
    by (auto simp: zero_counts n_def)
  have "ngx_nats_test_random fp s = Some (cs @ [perf], (next_state ^^ n) ?t)"
    unfolding ngx_nats_test_random_def Let_def cs(1) n_def [symmetric] by (simp add: wl perf(1) del: test_weights.simps)
  moreover have "(next_state ^^ n) ?t = (next_state ^^ (n + 4116600)) s" by (simp only: funpow_add comp_def)
  ultimately show ?thesis using cs perf n_def by auto
qed

end
