(* ===== verification/Nats_Conf.thy ===== *)
theory Nats_Conf
  imports "HOL-Library.Word" Nats_System Nats_Random_Test
begin

text \<open>
  \<open>ngx_nats.c\<close>: the \<open>nats{...}\<close> block of the configuration, the hooks of the core module and the search
  for a local address. nginx's own parts are parameters: the outcome of allocations, the slot
  functions for strings and times (\<open>set_str\<close>, \<open>set_msec\<close>, from the old value of the slot and the text
  to the new value or an error), \<open>ngx_parse_url\<close> and the system's list of interfaces. A result \<open>None\<close> is
  the use of a \<open>NULL\<close> pointer, an access outside an array or a cast of another module's structure.
\<close>

section \<open>Configuration\<close>

definition NGX_NATS_DEFAULT_PORT :: int where "NGX_NATS_DEFAULT_PORT = 4222"
definition NGX_NATS_DEFAULT_RECONNECT :: int where "NGX_NATS_DEFAULT_RECONNECT = 1000"
definition NGX_NATS_DEFAULT_PING :: int where "NGX_NATS_DEFAULT_PING = 20000"
definition NGX_NATS_DEFAULT_USER :: bytes where "NGX_NATS_DEFAULT_USER = ''continuum.router''"
definition NGX_NATS_MAS_USER_PASS_LEN :: nat where "NGX_NATS_MAS_USER_PASS_LEN = 512"

text \<open>\<open>NGX_CONF_UNSET_MSEC\<close>, read as a signed number.\<close>

abbreviation NGX_CONF_UNSET_MSEC :: int where "NGX_CONF_UNSET_MSEC \<equiv> - 1"

record ngx_nats_server =
  ns_url :: bytes
  ns_addrs :: "nat list"

text \<open>A \<open>NULL\<close> string or array is \<open>None\<close>.\<close>

record ngx_nats_core_conf =
  nccf_servers :: "ngx_nats_server list option"
  nccf_reconnect :: int
  nccf_ping :: int
  nccf_user :: "bytes option"
  nccf_password :: "bytes option"

definition ngx_nats_core_create_conf :: "bool \<Rightarrow> bool \<Rightarrow> ngx_nats_core_conf option" where
  "ngx_nats_core_create_conf ok1 ok2 =
     (if \<not> ok1 then None
      else if \<not> ok2 then None
      else Some \<lparr>nccf_servers = None, nccf_reconnect = NGX_CONF_UNSET_MSEC, nccf_ping = NGX_CONF_UNSET_MSEC,
                 nccf_user = None, nccf_password = None\<rparr>)"

definition ngx_nats_conf_init_str :: "bytes option \<Rightarrow> bytes \<Rightarrow> bytes option" where
  "ngx_nats_conf_init_str s value = (case s of None \<Rightarrow> Some value | Some t \<Rightarrow> Some t)"

text \<open>\<open>ngx_conf_init_msec_value\<close>: a default for a slot that is not set.\<close>

definition init_msec :: "int \<Rightarrow> int \<Rightarrow> int" where
  "init_msec v dflt = (if v = NGX_CONF_UNSET_MSEC then dflt else v)"

text \<open>The result \<open>False\<close> is \<open>NGX_CONF_ERROR\<close>.\<close>

definition ngx_nats_core_init_conf :: "ngx_nats_core_conf \<Rightarrow> bool \<times> ngx_nats_core_conf" where
  "ngx_nats_core_init_conf nccf =
     (let nccf = nccf\<lparr>nccf_reconnect := init_msec (nccf_reconnect nccf) NGX_NATS_DEFAULT_RECONNECT,
                      nccf_ping := init_msec (nccf_ping nccf) NGX_NATS_DEFAULT_PING,
                      nccf_user := ngx_nats_conf_init_str (nccf_user nccf) NGX_NATS_DEFAULT_USER,
                      nccf_password := ngx_nats_conf_init_str (nccf_password nccf) []\<rparr> in
      if length (the (nccf_user nccf)) + length (the (nccf_password nccf)) > NGX_NATS_MAS_USER_PASS_LEN
      then (False, nccf) else (True, nccf))"

text \<open>
  The \<open>server\<close> line: \<open>url\<close> is its argument, \<open>parse_url\<close> gives the addresses of the URL with a default port
  or an error, and the booleans are the outcomes of creating the array, growing it and copying
  the URL. On an error the pushed element stays in the array; its memory is not used afterwards.
\<close>

definition ngx_nats_core_server ::
  "bool \<Rightarrow> bool \<Rightarrow> bool \<Rightarrow> (bytes \<Rightarrow> int \<Rightarrow> nat list option) \<Rightarrow> bytes \<Rightarrow> ngx_nats_core_conf
     \<Rightarrow> bool \<times> ngx_nats_core_conf" where
  "ngx_nats_core_server ok1 ok2 ok3 parse_url url nccf0 =
     (case (case nccf_servers nccf0 of
              None \<Rightarrow> if ok1 then Some (nccf0\<lparr>nccf_servers := Some []\<rparr>) else None
            | Some ss \<Rightarrow> Some nccf0) of
        None \<Rightarrow> (False, nccf0)
      | Some nccf \<Rightarrow>
        if \<not> ok2 then (False, nccf)
        else let ss = the (nccf_servers nccf); zero = \<lparr>ns_url = [], ns_addrs = []\<rparr>;
                 push = (\<lambda>s. nccf\<lparr>nccf_servers := Some (ss @ [s])\<rparr>) in
        case parse_url url NGX_NATS_DEFAULT_PORT of
          None \<Rightarrow> (False, push zero)
        | Some addrs \<Rightarrow>
          if \<not> ok3 then (False, push (zero\<lparr>ns_addrs := addrs\<rparr>))
          else (True, push \<lparr>ns_url = url, ns_addrs = addrs\<rparr>))"

text \<open>The table \<open>ngx_nats_core_commands\<close>: what each directive of the block calls on its slot.\<close>

datatype directive = Server bytes | Reconnect bytes | Ping bytes | User bytes | Password bytes

record conf_env =
  c_alloc :: "nat \<Rightarrow> bool"
  c_parse_url :: "bytes \<Rightarrow> int \<Rightarrow> nat list option"
  c_set_msec :: "int \<Rightarrow> bytes \<Rightarrow> int option"
  c_set_str :: "bytes option \<Rightarrow> bytes \<Rightarrow> bytes option"

definition set_slot :: "'a option \<Rightarrow> ('a \<Rightarrow> ngx_nats_core_conf) \<Rightarrow> ngx_nats_core_conf \<Rightarrow> bool \<times> ngx_nats_core_conf" where
  "set_slot r f nccf = (case r of None \<Rightarrow> (False, nccf) | Some v \<Rightarrow> (True, f v))"

fun ngx_nats_core_command :: "conf_env \<Rightarrow> nat \<Rightarrow> directive \<Rightarrow> ngx_nats_core_conf \<Rightarrow> bool \<times> ngx_nats_core_conf" where
  "ngx_nats_core_command ce t (Server url) nccf =
     ngx_nats_core_server (c_alloc ce t) (c_alloc ce (t + 1)) (c_alloc ce (t + 2)) (c_parse_url ce) url nccf"
| "ngx_nats_core_command ce t (Reconnect v) nccf =
     set_slot (c_set_msec ce (nccf_reconnect nccf) v) (\<lambda>x. nccf\<lparr>nccf_reconnect := x\<rparr>) nccf"
| "ngx_nats_core_command ce t (Ping v) nccf =
     set_slot (c_set_msec ce (nccf_ping nccf) v) (\<lambda>x. nccf\<lparr>nccf_ping := x\<rparr>) nccf"
| "ngx_nats_core_command ce t (User v) nccf =
     set_slot (c_set_str ce (nccf_user nccf) v) (\<lambda>x. nccf\<lparr>nccf_user := Some x\<rparr>) nccf"
| "ngx_nats_core_command ce t (Password v) nccf =
     set_slot (c_set_str ce (nccf_password nccf) v) (\<lambda>x. nccf\<lparr>nccf_password := Some x\<rparr>) nccf"

text \<open>The directives of a block in order, up to the first error.\<close>

fun run_directives :: "conf_env \<Rightarrow> nat \<Rightarrow> directive list \<Rightarrow> ngx_nats_core_conf \<Rightarrow> bool \<times> ngx_nats_core_conf" where
  "run_directives ce t [] nccf = (True, nccf)"
| "run_directives ce t (d # ds) nccf =
     (case ngx_nats_core_command ce t d nccf of
        (False, nccf) \<Rightarrow> (False, nccf)
      | (True, nccf) \<Rightarrow> run_directives ce (t + 3) ds nccf)"

section \<open>The local address\<close>

datatype family = AF_INET | AF_INET6 | AF_OTHER

text \<open>An interface: family and bytes of its address (none when \<open>ifa_addr\<close> is \<open>NULL\<close>), and the loopback flag.\<close>

record ifaddrs =
  ifa_addr :: "(family \<times> bytes) option"
  ifa_loopback :: bool

text \<open>\<open>name\<close> is \<open>getnameinfo\<close> with \<open>NI_NUMERICHOST\<close>: the host, or an error. The state of the loop is the
  address and host found for each family.\<close>

fun local_ip_loop ::
  "(bytes \<Rightarrow> bytes option) \<Rightarrow> ifaddrs list \<Rightarrow> (bytes \<times> bytes) option \<times> (bytes \<times> bytes) option
     \<Rightarrow> (bytes \<times> bytes) option \<times> (bytes \<times> bytes) option" where
  "local_ip_loop name [] st = st"
| "local_ip_loop name (ifa # ifas) (ip4, ip6) =
     (case ifa_addr ifa of
        None \<Rightarrow> local_ip_loop name ifas (ip4, ip6)
      | Some (fam, sa) \<Rightarrow>
        if fam \<noteq> AF_INET \<and> fam \<noteq> AF_INET6 then local_ip_loop name ifas (ip4, ip6)
        else if ifa_loopback ifa then local_ip_loop name ifas (ip4, ip6)
        else if fam = AF_INET then
          (if ip4 = None
           then (case name sa of None \<Rightarrow> local_ip_loop name ifas (ip4, ip6)
                 | Some h \<Rightarrow> local_ip_loop name ifas (Some (sa, h), ip6))
           else local_ip_loop name ifas (ip4, ip6))
        else
          (if ip6 = None
           then (case name sa of None \<Rightarrow> local_ip_loop name ifas (ip4, ip6)
                 | Some h \<Rightarrow> local_ip_loop name ifas (ip4, Some (sa, h)))
           else local_ip_loop name ifas (ip4, ip6)))"

record ngx_addr =
  na_sockaddr :: bytes
  na_name :: bytes

text \<open>
  \<open>ngx_nats_init_local_ip\<close>: \<open>ifas\<close> is the result of \<open>getifaddrs\<close>, none when it fails, \<open>old\<close> the global
  variable before. \<open>sizeof(struct sockaddr_in)\<close> is 16 and \<open>sizeof(struct sockaddr_in6)\<close> is 28.
\<close>

definition ngx_nats_init_local_ip ::
  "(bytes \<Rightarrow> bytes option) \<Rightarrow> (nat \<Rightarrow> bool) \<Rightarrow> ifaddrs list option \<Rightarrow> ngx_addr option \<Rightarrow> ngx_addr option option" where
  "ngx_nats_init_local_ip name al ifas old =
     (case ifas of None \<Rightarrow> Some old
      | Some ifas \<Rightarrow>
        let (ip4, ip6) = local_ip_loop name ifas (None, None);
            store = (case ip4 of Some (sa, h) \<Rightarrow> Some (sa, h, 16)
                     | None \<Rightarrow> (case ip6 of Some (sa, h) \<Rightarrow> Some (sa, h, 28) | None \<Rightarrow> None)) in
        case store of None \<Rightarrow> Some None
        | Some (sa, h, socklen) \<Rightarrow>
          if \<not> al 0 then Some None
          else if \<not> al 1 then Some None
          else if \<not> al 2 then Some None
          else do { a \<leftarrow> mem_get sa 0 socklen;
                    Some (Some \<lparr>na_sockaddr = a, na_name = h\<rparr>) })"

definition ngx_nats_get_local_ip :: "ngx_addr option \<Rightarrow> ngx_addr option" where
  "ngx_nats_get_local_ip local_ip = local_ip"

section \<open>The block\<close>

text \<open>
  A module of nginx: whether its type is \<open>NGX_NATS_MODULE\<close>, its \<open>ctx_index\<close>, and for NATS modules the hooks.
  The configuration of a module other than the core module is opaque. A hook of \<open>mod_init\<close> works on
  the structure it is given (possibly \<open>NULL\<close>) in place.
\<close>

datatype nats_conf = CoreConf ngx_nats_core_conf | OtherConf nat

record ngx_module =
  mod_nats :: bool
  mod_index :: nat
  mod_create :: "nats_conf option option"
  mod_init :: "(nats_conf option \<Rightarrow> (bool \<times> nats_conf option) option) option"

text \<open>
  \<open>ngx_nats_get_modules_count\<close>, as it is written for the versions of nginx without dynamic modules; the
  newer ones do the same in \<open>ngx_count_modules\<close>. It numbers the NATS modules.
\<close>

fun ngx_nats_get_modules_count :: "nat \<Rightarrow> ngx_module list \<Rightarrow> nat \<times> ngx_module list" where
  "ngx_nats_get_modules_count count [] = (count, [])"
| "ngx_nats_get_modules_count count (m # ms) =
     (if \<not> mod_nats m
      then (case ngx_nats_get_modules_count count ms of (n, ms) \<Rightarrow> (n, m # ms))
      else (case ngx_nats_get_modules_count (count + 1) ms of (n, ms) \<Rightarrow> (n, m\<lparr>mod_index := count\<rparr> # ms)))"

text \<open>The loop over \<open>create_conf\<close>; the inner \<open>None\<close> is the return of \<open>NGX_CONF_ERROR\<close>.\<close>

fun create_confs :: "ngx_module list \<Rightarrow> nats_conf option list \<Rightarrow> nats_conf option list option option" where
  "create_confs [] ctx = Some (Some ctx)"
| "create_confs (m # ms) ctx =
     (if \<not> mod_nats m then create_confs ms ctx
      else case mod_create m of
        None \<Rightarrow> create_confs ms ctx
      | Some r \<Rightarrow> do { ctx \<leftarrow> wr ctx (mod_index m) r;
                       if r = None then Some None else create_confs ms ctx })"

text \<open>The loop over \<open>init_conf\<close>; the boolean is the returned value.\<close>

fun init_confs :: "ngx_module list \<Rightarrow> nats_conf option list \<Rightarrow> (bool \<times> nats_conf option list) option" where
  "init_confs [] ctx = Some (True, ctx)"
| "init_confs (m # ms) ctx =
     (if \<not> mod_nats m then init_confs ms ctx
      else case mod_init m of
        None \<Rightarrow> init_confs ms ctx
      | Some f \<Rightarrow> do { c \<leftarrow> rd ctx (mod_index m);
                       (ok, c) \<leftarrow> f c;
                       ctx \<leftarrow> wr ctx (mod_index m) c;
                       if \<not> ok then Some (False, ctx) else init_confs ms ctx })"

text \<open>The core configuration: element \<open>i\<close> of the array, cast to the core module's structure.\<close>

definition ngx_nats_get_core_conf :: "nats_conf option list \<Rightarrow> nat \<Rightarrow> ngx_nats_core_conf option" where
  "ngx_nats_get_core_conf ctx i =
     do { c \<leftarrow> rd ctx i; c \<leftarrow> c; (case c of CoreConf nccf \<Rightarrow> Some nccf | OtherConf k \<Rightarrow> None) }"

text \<open>
  The variables of the module: \<open>ngx_nats_present\<close>, the array of configurations that nginx keeps for the
  block, the \<open>data\<close> pointer of the core configuration, the local address and the random numbers.
\<close>

record nats_module =
  ms_present :: bool
  ms_ctx :: "nats_conf option list"
  ms_data :: "world option"
  ms_local_ip :: "ngx_addr option"
  ms_rand :: rand_state

text \<open>
  \<open>ngx_nats_block\<close>: \<open>parse\<close> is \<open>ngx_conf_parse\<close> on the block, \<open>core\<close> the position of the core module in the
  list of modules.
\<close>

definition ngx_nats_block ::
  "bool \<Rightarrow> bool \<Rightarrow> (nats_conf option list \<Rightarrow> (bool \<times> nats_conf option list) option) \<Rightarrow> nat \<Rightarrow> ngx_module list
     \<Rightarrow> nats_module \<Rightarrow> (bool \<times> nats_module) option" where
  "ngx_nats_block ok1 ok2 parse core mods0 ms0 =
     (let ms = ms0\<lparr>ms_present := True\<rparr>; (count, mods) = ngx_nats_get_modules_count 0 mods0 in
      if count = 0 then Some (False, ms)
      else if \<not> ok1 then Some (False, ms)
      else if \<not> ok2 then Some (False, ms)
      else do {
        r \<leftarrow> create_confs mods (replicate count None);
        case r of None \<Rightarrow> Some (False, ms)
        | Some ctx \<Rightarrow> do {
          (ok, ctx) \<leftarrow> parse ctx;
          if \<not> ok then Some (False, ms\<lparr>ms_ctx := ctx\<rparr>)
          else do {
            m \<leftarrow> rd mods core;
            nccf \<leftarrow> ngx_nats_get_core_conf ctx (mod_index m);
            if nccf_servers nccf = None then Some (False, ms\<lparr>ms_ctx := ctx\<rparr>)
            else do { (ok, ctx) \<leftarrow> init_confs mods ctx; Some (ok, ms\<lparr>ms_ctx := ctx\<rparr>) } } } })"

text \<open>The hooks of the core module, and its configuration parsed by nginx with the core commands \<open>ds\<close>.\<close>

definition core_init :: "nats_conf option \<Rightarrow> (bool \<times> nats_conf option) option" where
  "core_init c =
     (case c of
        Some (CoreConf nccf) \<Rightarrow> (let (ok, nccf) = ngx_nats_core_init_conf nccf in Some (ok, Some (CoreConf nccf)))
      | _ \<Rightarrow> None)"

definition ngx_nats_core_module :: "bool \<Rightarrow> bool \<Rightarrow> ngx_module" where
  "ngx_nats_core_module ok1 ok2 =
     \<lparr>mod_nats = True, mod_index = 0, mod_create = Some (map_option CoreConf (ngx_nats_core_create_conf ok1 ok2)),
      mod_init = Some core_init\<rparr>"

definition parse_block ::
  "conf_env \<Rightarrow> directive list \<Rightarrow> nat \<Rightarrow> nats_conf option list \<Rightarrow> (bool \<times> nats_conf option list) option" where
  "parse_block ce ds i ctx =
     do { nccf \<leftarrow> ngx_nats_get_core_conf ctx i;
          let (ok, nccf) = run_directives ce 0 ds nccf;
          ctx \<leftarrow> wr ctx i (Some (CoreConf nccf));
          Some (ok, ctx) }"


section \<open>The hooks of the core module\<close>

text \<open>What the system answers to the hooks.\<close>

record sys =
  s_alloc :: "nat \<Rightarrow> bool"
  s_ifaddrs :: "ifaddrs list option"
  s_name :: "bytes \<Rightarrow> bytes option"
  s_scale :: "u32 \<Rightarrow> nat \<Rightarrow> nat"
  s_z :: u32
  s_w :: u32
  s_r :: u32

text \<open>\<open>i\<close> is the \<open>ctx_index\<close> of the core module.\<close>

definition ngx_nats_core_init_module :: "sys \<Rightarrow> nat \<Rightarrow> nats_module \<Rightarrow> (int \<times> nats_module) option" where
  "ngx_nats_core_init_module sys i ms =
     (let al = s_alloc sys in
      if \<not> ms_present ms then Some (NGX_OK, ms)
      else do {
        nccf \<leftarrow> ngx_nats_get_core_conf (ms_ctx ms) i;
        if \<not> al 0 then Some (NGX_ERROR, ms)
        else if \<not> al 1 then Some (NGX_ERROR, ms)
        else case ngx_nats_buf_create (al 2) (al 3) 4096 of None \<Rightarrow> Some (NGX_ERROR, ms)
        | Some rbuf \<Rightarrow>
          case ngx_nats_buf_create (al 4) (al 5) 4096 of None \<Rightarrow> Some (NGX_ERROR, ms)
          | Some wbuf \<Rightarrow>
            if \<not> al 6 then Some (NGX_ERROR, ms)
            else if \<not> al 7 then Some (NGX_ERROR, ms)
            else do { ip \<leftarrow> ngx_nats_init_local_ip (s_name sys) (\<lambda>i. al (8 + i)) (s_ifaddrs sys) (ms_local_ip ms);
                      Some (NGX_OK, ms\<lparr>ms_data := Some (nats_data_init rbuf wbuf), ms_local_ip := ip\<rparr>) } })"

text \<open>The environment of a worker whose configuration is \<open>nccf\<close>.\<close>

definition configured :: "ngx_nats_core_conf \<Rightarrow> env \<Rightarrow> env" where
  "configured nccf e =
     e\<lparr>e_servers := length (the (nccf_servers nccf)), e_user := the (nccf_user nccf), e_password := the (nccf_password nccf)\<rparr>"

text \<open>\<open>test\<close> is the arithmetic of doubles when the environment variable asks for a test of the random numbers.\<close>

definition ngx_nats_core_init_process ::
  "(callback \<Rightarrow> step) \<Rightarrow> env \<Rightarrow> sys \<Rightarrow> 'd fp option \<Rightarrow> nats_module \<Rightarrow> (int \<times> nats_module) option" where
  "ngx_nats_core_init_process cb e sys test ms =
     (if \<not> ms_present ms then Some (NGX_OK, ms)
      else let r = ngx_nats_init_random (s_scale sys) (s_z sys) (s_w sys) (s_r sys) (ms_rand ms) in
      do { r \<leftarrow> (case test of None \<Rightarrow> Some r
                 | Some fp \<Rightarrow> do { (printed, r) \<leftarrow> ngx_nats_test_random fp r; Some r });
           nd \<leftarrow> ms_data ms;
           (rc, nd) \<leftarrow> ngx_nats_init cb e nd;
           Some (rc, ms\<lparr>ms_data := Some nd, ms_rand := r\<rparr>) })"

definition ngx_nats_core_exit_process :: "nats_module \<Rightarrow> nats_module" where
  "ngx_nats_core_exit_process ms =
     (if \<not> ms_present ms then ms else ms\<lparr>ms_data := map_option ngx_nats_exit (ms_data ms)\<rparr>)"

end
