(* ===== verification/Nats_Conf_Props.thy ===== *)
theory Nats_Conf_Props
  imports "HOL-Library.Word" Nats_Conf
begin

text \<open>
  The properties of the configuration and of the hooks: the \<open>nats{...}\<close> block stays inside its array and
  accepts only usable configurations, a worker started from an accepted configuration is connected
  or will retry, and the local address is the first usable one, IPv4 before IPv6.
\<close>

section \<open>Numbering the modules\<close>

lemma modules_count:
  assumes "ngx_nats_get_modules_count c mods = (n, ms)"
  shows "length ms = length mods \<and> n = c + length (filter mod_nats mods) \<and>
    (\<forall>j < length mods. mod_nats (ms ! j) = mod_nats (mods ! j) \<and> mod_create (ms ! j) = mod_create (mods ! j)
       \<and> mod_init (ms ! j) = mod_init (mods ! j)
       \<and> (mod_nats (mods ! j) \<longrightarrow> mod_index (ms ! j) = c + length (filter mod_nats (take j mods))))"
  using assms
proof (induction c mods arbitrary: n ms rule: ngx_nats_get_modules_count.induct)
  case (2 c m ms0)
  obtain k ks where k: "ngx_nats_get_modules_count (if mod_nats m then c + 1 else c) ms0 = (k, ks)" by fastforce
  have "length ks = length ms0 \<and> k = (if mod_nats m then c + 1 else c) + length (filter mod_nats ms0) \<and>
    (\<forall>j < length ms0. mod_nats (ks ! j) = mod_nats (ms0 ! j) \<and> mod_create (ks ! j) = mod_create (ms0 ! j)
       \<and> mod_init (ks ! j) = mod_init (ms0 ! j)
       \<and> (mod_nats (ms0 ! j) \<longrightarrow> mod_index (ks ! j) = (if mod_nats m then c + 1 else c) + length (filter mod_nats (take j ms0))))"
    using "2.IH" k by (cases "mod_nats m") auto
  with "2.prems" k show ?case
    by (cases "mod_nats m") (auto simp: nth_Cons split: nat.splits)
qed simp

text \<open>The indices are below the count, and different for different modules.\<close>

lemma modules_index:
  assumes "ngx_nats_get_modules_count 0 mods = (n, ms)" and "j < length mods" and "mod_nats (mods ! j)"
  shows "mod_index (ms ! j) = length (filter mod_nats (take j mods))" and "mod_index (ms ! j) < n"
    and "k < length mods \<Longrightarrow> mod_nats (mods ! k) \<Longrightarrow> mod_index (ms ! k) = mod_index (ms ! j) \<Longrightarrow> k = j"
proof -
  have less: "length (filter mod_nats (take a mods)) < length (filter mod_nats (take b mods))"
    if "a < b" "b \<le> length mods" "mod_nats (mods ! a)" for a b
  proof -
    have "take b mods = take a mods @ mods ! a # drop (Suc a) (take b mods)"
      using that id_take_nth_drop [of a "take b mods"] by (simp add: min_def)
    then have "filter mod_nats (take b mods) = filter mod_nats (take a mods) @ mods ! a # filter mod_nats (drop (Suc a) (take b mods))"
      using that(3) by (metis filter.simps(2) filter_append)
    then show ?thesis by simp
  qed
  note m = modules_count [OF assms(1)]
  show i: "mod_index (ms ! j) = length (filter mod_nats (take j mods))" using m assms(2,3) by simp
  show "mod_index (ms ! j) < n" using less [of j "length mods"] m assms(2,3) i by simp
  show "k = j" if "k < length mods" "mod_nats (mods ! k)" "mod_index (ms ! k) = mod_index (ms ! j)"
    using less [of k j] less [of j k] m that assms(2,3) by (cases k j rule: linorder_cases) auto
qed

section \<open>The loops over the modules\<close>

text \<open>Slot \<open>k\<close> of the array belongs to the modules of which \<open>owns k\<close> holds.\<close>

definition owns :: "nat \<Rightarrow> ngx_module \<Rightarrow> bool" where
  "owns k m \<longleftrightarrow> mod_nats m \<and> mod_index m = k"

lemma create_confs_total:
  assumes "\<forall>m \<in> set ms. mod_nats m \<longrightarrow> mod_index m < length ctx"
  shows "\<exists>r. create_confs ms ctx = Some r \<and> (\<forall>ctx'. r = Some ctx' \<longrightarrow> length ctx' = length ctx)"
  using assms
proof (induction ms arbitrary: ctx)
  case (Cons m ms)
  have IH: "\<exists>r. create_confs ms c = Some r \<and> (\<forall>ctx'. r = Some ctx' \<longrightarrow> length ctx' = length c)"
    if "length c = length ctx" for c
    by (rule Cons.IH) (use Cons.prems that in auto)
  show ?case
  proof (cases "mod_nats m \<and> mod_create m \<noteq> None")
    case True
    then obtain x where x: "mod_create m = Some x" by auto
    with Cons.prems True IH [of "ctx[mod_index m := x]"] show ?thesis
      by (cases "x = None") (auto simp: wr_def)
  next
    case False
    with IH [OF refl] show ?thesis by (auto split: option.splits)
  qed
qed simp

lemma create_confs_slot:
  assumes "create_confs ms ctx = Some (Some ctx')" and "k < length ctx" and "\<forall>m \<in> set ms. owns k m \<longrightarrow> mod_create m = Some r"
    and "ctx ! k = r \<and> r \<noteq> None \<or> (\<exists>m \<in> set ms. owns k m)"
  shows "k < length ctx' \<and> ctx' ! k = r \<and> r \<noteq> None"
  using assms
proof (induction ms arbitrary: ctx)
  case (Cons m ms)
  show ?case
  proof (cases "mod_nats m \<and> mod_create m \<noteq> None")
    case True
    then obtain x where x: "mod_create m = Some x" by auto
    with Cons.prems(1) True have w: "mod_index m < length ctx" "x \<noteq> None" "create_confs ms (ctx[mod_index m := x]) = Some (Some ctx')"
      by (auto simp: bind_eq_Some_conv wr_def split: if_splits)
    show ?thesis
      by (rule Cons.IH [OF w(3)]) (use Cons.prems(2-4) x w(1,2) True in \<open>auto simp: owns_def nth_list_update\<close>)
  next
    case False
    with Cons.prems show ?thesis by (intro Cons.IH) (auto simp: owns_def split: if_splits option.splits)
  qed
qed auto

text \<open>Hooks of another module that succeed.\<close>

definition hooks_succeed :: "ngx_module \<Rightarrow> bool" where
  "hooks_succeed m \<longleftrightarrow> mod_create m \<noteq> Some None \<and> (\<forall>f c. mod_init m = Some f \<longrightarrow> (\<exists>c'. f c = Some (True, c')))"

definition hooks_return :: "ngx_module \<Rightarrow> bool" where
  "hooks_return m \<longleftrightarrow> (\<forall>f c. mod_init m = Some f \<longrightarrow> f c \<noteq> None)"

lemma create_confs_succeed:
  "\<forall>m \<in> set ms. mod_nats m \<longrightarrow> mod_create m \<noteq> Some None \<Longrightarrow> create_confs ms ctx \<noteq> Some None"
  by (induction ms arbitrary: ctx) (auto simp: bind_eq_Some_conv split: option.splits)

text \<open>Defaults and the check of the lengths; doing it again changes nothing.\<close>

lemma init_conf_again:
  assumes "ngx_nats_core_init_conf n0 = (b, n1)"
  shows "ngx_nats_core_init_conf n1 = (b, n1)"
proof -
  have "ngx_nats_core_init_conf (snd (ngx_nats_core_init_conf n0)) = ngx_nats_core_init_conf n0"
    by (cases "nccf_user n0"; cases "nccf_password n0")
      (simp_all add: ngx_nats_core_init_conf_def Let_def init_msec_def NGX_NATS_DEFAULT_RECONNECT_def
        NGX_NATS_DEFAULT_PING_def ngx_nats_conf_init_str_def)
  with assms show ?thesis by simp
qed

text \<open>The configuration with which a worker can start.\<close>

definition accepted :: "ngx_nats_core_conf \<Rightarrow> bool" where
  "accepted nccf \<longleftrightarrow> (\<exists>s ss. nccf_servers nccf = Some (s # ss))
     \<and> (\<exists>u p. nccf_user nccf = Some u \<and> nccf_password nccf = Some p \<and> length u + length p \<le> 512)
     \<and> nccf_reconnect nccf \<noteq> NGX_CONF_UNSET_MSEC \<and> nccf_ping nccf \<noteq> NGX_CONF_UNSET_MSEC"

lemma init_conf_accepted:
  assumes "nccf_servers n0 = Some (s # ss)" and "ngx_nats_core_init_conf n0 = (True, n1)"
  shows "accepted n1"
  using assms
  by (auto simp: ngx_nats_core_init_conf_def Let_def accepted_def init_msec_def NGX_NATS_DEFAULT_RECONNECT_def
      NGX_NATS_DEFAULT_PING_def ngx_nats_conf_init_str_def NGX_NATS_MAS_USER_PASS_LEN_def split: if_splits option.splits)

text \<open>One step of the loop over \<open>init_conf\<close>.\<close>

lemma init_confs_step:
  assumes "mod_nats m" and "mod_init m = Some f" and "mod_index m < length ctx" and "f (ctx ! mod_index m) = Some (ok, c)"
  shows "init_confs (m # ms) ctx = (if ok then init_confs ms (ctx[mod_index m := c]) else Some (False, ctx[mod_index m := c]))"
  using assms by (simp add: rd_def wr_def)

definition core_slot :: "nat \<Rightarrow> ngx_nats_core_conf \<Rightarrow> nats_conf option list \<Rightarrow> bool" where
  "core_slot k nccf ctx \<longleftrightarrow> k < length ctx \<and> ctx ! k = Some (CoreConf nccf)"

lemma core_slot_update:
  "core_slot k n ctx \<Longrightarrow> i \<noteq> k \<Longrightarrow> core_slot k n (ctx[i := c])"
  "k < length ctx \<Longrightarrow> core_slot k n (ctx[k := Some (CoreConf n)])"
  by (simp_all add: core_slot_def)

text \<open>What the loop over \<open>init_conf\<close> promises for the modules \<open>ms\<close> still to come.\<close>

definition init_result ::
  "nat \<Rightarrow> bool \<Rightarrow> ngx_nats_core_conf \<Rightarrow> ngx_module list \<Rightarrow> (bool \<times> nats_conf option list) option \<Rightarrow> bool" where
  "init_result k b n1 ms r \<longleftrightarrow>
     post r (\<lambda>(ok, ctx). (ok \<longrightarrow> core_slot k n1 ctx \<and> ((\<exists>m \<in> set ms. owns k m) \<longrightarrow> b))
       \<and> (b \<and> (\<forall>m \<in> set ms. mod_nats m \<and> \<not> owns k m \<longrightarrow> hooks_succeed m) \<longrightarrow> ok))"

lemma init_result_Cons:
  "\<not> owns k m \<Longrightarrow> init_result k b n1 ms r \<Longrightarrow> init_result k b n1 (m # ms) r"
  "owns k m \<Longrightarrow> init_result k True n1 ms r \<Longrightarrow> init_result k True n1 (m # ms) r"
  "owns k m \<Longrightarrow> init_result k False n1 (m # ms) (Some (False, ctx))"
  "mod_nats m \<Longrightarrow> \<not> owns k m \<Longrightarrow> \<not> hooks_succeed m \<Longrightarrow> init_result k b n1 (m # ms) (Some (False, ctx))"
  by (auto simp: init_result_def post_def)

lemma init_confs_slot:
  assumes "\<forall>m \<in> set ms. mod_nats m \<longrightarrow> mod_index m < length ctx"
    and "\<forall>m \<in> set ms. owns k m \<longrightarrow> mod_init m = Some core_init"
    and "\<forall>m \<in> set ms. mod_nats m \<and> \<not> owns k m \<longrightarrow> hooks_return m"
    and "ngx_nats_core_init_conf n0 = (b, n1)"
    and "core_slot k n ctx" and "n = n1 \<or> n = n0 \<and> (\<exists>m \<in> set ms. owns k m)"
  shows "init_result k b n1 ms (init_confs ms ctx)"
  using assms
proof (induction ms arbitrary: ctx n)
  case (Cons m ms)
  have IH: "init_result k b n1 ms (init_confs ms c)"
    if "length c = length ctx" "core_slot k n' c" "n' = n1 \<or> n' = n0 \<and> (\<exists>m \<in> set ms. owns k m)" for c n'
    by (rule Cons.IH [OF _ _ _ Cons.prems(4) that(2,3)]) (use Cons.prems that(1) in simp_all)
  show ?case
  proof (cases "mod_nats m \<and> mod_init m \<noteq> None")
    case False
    then have "init_confs (m # ms) ctx = init_confs ms ctx" by (auto split: option.splits)
    moreover have no: "\<not> owns k m" using False Cons.prems(2) by (auto simp: owns_def)
    ultimately show ?thesis using IH [OF refl Cons.prems(5)] Cons.prems(6) init_result_Cons(1) by simp
  next
    case True
    then obtain f where f: "mod_nats m" "mod_init m = Some f" by auto
    have i: "mod_index m < length ctx" using Cons.prems(1) f by simp
    show ?thesis
    proof (cases "owns k m")
      case own: True
      have n: "ctx ! k = Some (CoreConf n)" "ngx_nats_core_init_conf n = (b, n1)"
        using Cons.prems(4-6) init_conf_again by (auto simp: core_slot_def)
      have "f = core_init" and k: "mod_index m = k" using Cons.prems(2) own f by (simp_all add: owns_def)
      then have c: "f (ctx ! mod_index m) = Some (b, Some (CoreConf n1))"
        using n by (simp add: core_init_def)
      have "core_slot k n1 (ctx[k := Some (CoreConf n1)])" using i k by (simp add: core_slot_update)
      from IH [OF _ this] own show ?thesis
        unfolding init_confs_step [OF f i c] k by (cases b) (simp_all add: init_result_Cons(2,3))
    next
      case False
      obtain ok c where c: "f (ctx ! mod_index m) = Some (ok, c)"
        using Cons.prems(3) f False by (metis hooks_return_def list.set_intros(1) option.exhaust prod.exhaust)
      have "mod_index m \<noteq> k" using False f by (simp add: owns_def)
      then have "core_slot k n (ctx[mod_index m := c])" using Cons.prems(5) by (simp add: core_slot_update)
      from IH [OF _ this] Cons.prems(6) False have r: "init_result k b n1 ms (init_confs ms (ctx[mod_index m := c]))" by simp
      have "ok" if "hooks_succeed m" using that c f by (metis hooks_succeed_def option.inject prod.inject)
      with r f(1) False show ?thesis
        unfolding init_confs_step [OF f i c] by (cases ok) (auto intro: init_result_Cons(1,4))
    qed
  qed
qed (auto simp: init_result_def post_def core_slot_def)

section \<open>The block\<close>

text \<open>A \<open>server\<close> line that succeeds leaves an array that is not empty.\<close>

lemma run_directives_servers:
  "run_directives ce t ds n = (True, n') \<Longrightarrow> nccf_servers n \<noteq> Some [] \<Longrightarrow> nccf_servers n' \<noteq> Some []"
proof (induction ds arbitrary: t n)
  case (Cons d ds)
  obtain ok m where m: "ngx_nats_core_command ce t d n = (ok, m)" by fastforce
  with Cons.prems have ok: ok "run_directives ce (t + 3) ds m = (True, n')" by (auto split: bool.splits)
  have "nccf_servers m \<noteq> Some []"
    using m ok(1) Cons.prems(2)
    by (cases d) (auto simp: set_slot_def ngx_nats_core_server_def Let_def split: option.splits if_splits)
  with Cons.IH [OF ok(2)] show ?case by simp
qed simp

text \<open>The numbered modules as the loops see them: the core module alone owns its slot.\<close>

lemma numbered_modules:
  assumes "core < length mods" and "mods ! core = ngx_nats_core_module ok3 ok4"
    and "\<forall>j < length mods. j \<noteq> core \<longrightarrow> P (mods ! j)"
    and "\<forall>m m'. P m \<longrightarrow> mod_create m' = mod_create m \<longrightarrow> mod_init m' = mod_init m \<longrightarrow> P m'"
    and "ngx_nats_get_modules_count 0 mods = (n, ms)" and "i = length (filter mod_nats (take core mods))"
  shows "core < length ms" and "mod_index (ms ! core) = i" and "i < n" and "owns i (ms ! core)"
    and "\<forall>m \<in> set ms. mod_nats m \<longrightarrow> mod_index m < n"
    and "\<forall>m \<in> set ms. owns i m \<longrightarrow> mod_create m = Some (map_option CoreConf (ngx_nats_core_create_conf ok3 ok4)) \<and> mod_init m = Some core_init"
    and "\<forall>m \<in> set ms. mod_nats m \<and> \<not> owns i m \<longrightarrow> P m"
proof -
  note c = modules_count [OF assms(5)]
  have k: "mod_nats (mods ! core)" using assms(2) by (simp add: ngx_nats_core_module_def)
  note x = modules_index [OF assms(5) assms(1) k]
  show l: "core < length ms" and i: "mod_index (ms ! core) = i" and "i < n" using c x assms(1,6) by simp_all
  show o: "owns i (ms ! core)" using c k i assms(1) by (simp add: owns_def)
  show "\<forall>m \<in> set ms. mod_nats m \<longrightarrow> mod_index m < n"
    using c modules_index(2) [OF assms(5)] by (auto simp: in_set_conv_nth)
  have only: "j = core" if "j < length ms" "owns i (ms ! j)" for j
    using x(3) [of j] that c i by (auto simp: owns_def)
  show "\<forall>m \<in> set ms. owns i m \<longrightarrow> mod_create m = Some (map_option CoreConf (ngx_nats_core_create_conf ok3 ok4)) \<and> mod_init m = Some core_init"
  proof (intro ballI impI)
    fix m assume "m \<in> set ms" "owns i m"
    then have "m = ms ! core" using only by (metis in_set_conv_nth)
    then show "mod_create m = Some (map_option CoreConf (ngx_nats_core_create_conf ok3 ok4)) \<and> mod_init m = Some core_init"
      using c assms(1,2) by (simp add: ngx_nats_core_module_def)
  qed
  show "\<forall>m \<in> set ms. mod_nats m \<and> \<not> owns i m \<longrightarrow> P m"
  proof (intro ballI impI)
    fix m assume m: "m \<in> set ms" "mod_nats m \<and> \<not> owns i m"
    then obtain j where j: "j < length ms" "ms ! j = m" by (metis in_set_conv_nth)
    then have "P (mods ! j)" using m o c assms(3) by auto
    then show "P m" using j c assms(4) by metis
  qed
qed

lemma hooks_succeed_same:
  "\<forall>m m'. hooks_succeed m \<longrightarrow> mod_create m' = mod_create m \<longrightarrow> mod_init m' = mod_init m \<longrightarrow> hooks_succeed m'"
  by (simp add: hooks_succeed_def)

lemma hooks_return_same:
  "\<forall>m m'. hooks_return m \<longrightarrow> mod_create m' = mod_create m \<longrightarrow> mod_init m' = mod_init m \<longrightarrow> hooks_return m'"
  by (simp add: hooks_return_def)

lemma create_confs_core:
  assumes "core < length mods" and "mods ! core = ngx_nats_core_module ok3 ok4"
    and "ngx_nats_get_modules_count 0 mods = (n, ms)" and "i = length (filter mod_nats (take core mods))"
  obtains "create_confs ms (replicate n None) = Some None"
      and "ok3 \<and> ok4 \<longrightarrow> \<not> (\<forall>j < length mods. j \<noteq> core \<longrightarrow> hooks_succeed (mods ! j))"
    | ctx nccf0 where "create_confs ms (replicate n None) = Some (Some ctx)" and "length ctx = n" and ok3 and ok4
      and "ngx_nats_core_create_conf True True = Some nccf0" and "core_slot i nccf0 ctx"
proof -
  have P: "\<forall>j < length mods. j \<noteq> core \<longrightarrow> (\<lambda>m. True) (mods ! j)"
    "\<forall>m m'. (\<lambda>m. True) m \<longrightarrow> mod_create m' = mod_create m \<longrightarrow> mod_init m' = mod_init m \<longrightarrow> (\<lambda>m. True) m'" by simp_all
  note nm = numbered_modules [OF assms(1,2) P assms(3,4)]
  obtain r where r: "create_confs ms (replicate n None) = Some r" "\<forall>ctx. r = Some ctx \<longrightarrow> length ctx = n"
    using create_confs_total [of ms "replicate n None"] nm(5) by auto
  show thesis
  proof (cases r)
    case None
    have "\<not> (\<forall>j < length mods. j \<noteq> core \<longrightarrow> hooks_succeed (mods ! j))" if ok: "ok3 \<and> ok4"
    proof
      assume "\<forall>j < length mods. j \<noteq> core \<longrightarrow> hooks_succeed (mods ! j)"
      note numbered_modules(7) [OF assms(1,2) this hooks_succeed_same assms(3,4)]
      with nm(6) ok have "\<forall>m \<in> set ms. mod_nats m \<longrightarrow> mod_create m \<noteq> Some None"
        by (auto simp: hooks_succeed_def ngx_nats_core_create_conf_def)
      from create_confs_succeed [OF this] r(1) None show False by simp
    qed
    with r None that(1) show thesis by simp
  next
    case (Some ctx)
    let ?c = "map_option CoreConf (ngx_nats_core_create_conf ok3 ok4)"
    have "i < length ctx \<and> ctx ! i = ?c \<and> ?c \<noteq> None"
      by (rule create_confs_slot [where ms = ms and ctx = "replicate n None"]) (use r Some nm in auto)
    with r Some that(2) show thesis
      by (auto simp: core_slot_def ngx_nats_core_create_conf_def split: if_splits)
  qed
qed

lemma block_result:
  assumes "core < length mods" and "mods ! core = ngx_nats_core_module ok3 ok4"
    and "\<forall>j < length mods. j \<noteq> core \<longrightarrow> hooks_return (mods ! j)"
    and "ngx_nats_core_create_conf True True = Some nccf0"
    and "run_directives ce 0 ds nccf0 = (d, n0)" and "ngx_nats_core_init_conf n0 = (b, n1)"
    and "i = length (filter mod_nats (take core mods))"
  shows "\<exists>ok ctx. ngx_nats_block ok1 ok2 (parse_block ce ds i) core mods ms0 = Some (ok, ms0\<lparr>ms_present := True, ms_ctx := ctx\<rparr>)
    \<and> (ok \<longrightarrow> ngx_nats_get_core_conf ctx i = Some n1 \<and> accepted n1)
    \<and> (ok \<longrightarrow> ok1 \<and> ok2 \<and> ok3 \<and> ok4 \<and> d \<and> nccf_servers n0 \<noteq> None \<and> b)
    \<and> (ok1 \<and> ok2 \<and> ok3 \<and> ok4 \<and> d \<and> nccf_servers n0 \<noteq> None \<and> b
         \<and> (\<forall>j < length mods. j \<noteq> core \<longrightarrow> hooks_succeed (mods ! j)) \<longrightarrow> ok)"
proof -
  let ?ms = "ms0\<lparr>ms_present := True\<rparr>"
  have fails: ?thesis
    if "ngx_nats_block ok1 ok2 (parse_block ce ds i) core mods ms0 = Some (False, ms0\<lparr>ms_present := True, ms_ctx := ctx\<rparr>)"
      "\<not> (ok1 \<and> ok2 \<and> ok3 \<and> ok4 \<and> d \<and> nccf_servers n0 \<noteq> None \<and> b \<and> (\<forall>j < length mods. j \<noteq> core \<longrightarrow> hooks_succeed (mods ! j)))"
    for ctx using that by blast
  obtain n ms where c: "ngx_nats_get_modules_count 0 mods = (n, ms)" by fastforce
  note nm = numbered_modules [OF assms(1-3) hooks_return_same c assms(7)]
  note i = nm(1-4)
  then have n: "n \<noteq> 0" by simp
  show ?thesis
  proof (cases "ok1 \<and> ok2")
    case False
    then show ?thesis using fails [of "ms_ctx ms0"] c n by (auto simp: ngx_nats_block_def Let_def)
  next
    case ok: True
    show ?thesis
    proof (rule create_confs_core [OF assms(1,2) c assms(7)])
      assume "create_confs ms (replicate n None) = Some None" "ok3 \<and> ok4 \<longrightarrow> \<not> (\<forall>j < length mods. j \<noteq> core \<longrightarrow> hooks_succeed (mods ! j))"
      then show ?thesis using fails [of "ms_ctx ms0"] c n ok by (simp add: ngx_nats_block_def Let_def)
    next
      fix ctx0 x
      assume ctx: "create_confs ms (replicate n None) = Some (Some ctx0)" "length ctx0 = n" ok3 ok4
        "ngx_nats_core_create_conf True True = Some x" "core_slot i x ctx0"
      let ?ctx = "ctx0[i := Some (CoreConf n0)]"
      have sl: "core_slot i n0 ?ctx" using i(3) ctx(2) by (simp add: core_slot_update)
      then have p: "parse_block ce ds i ctx0 = Some (d, ?ctx)" "ngx_nats_get_core_conf ?ctx i = Some n0"
        using ctx(5,6) assms(4,5) by (simp_all add: parse_block_def ngx_nats_get_core_conf_def core_slot_def)
      show ?thesis
      proof (cases "d \<and> nccf_servers n0 \<noteq> None")
        case False
        then show ?thesis using fails [of ?ctx] c n ok ctx(1) p i by (cases d) (simp_all add: ngx_nats_block_def Let_def)
      next
        case True
        have "nccf_servers n0 \<noteq> Some []"
          using run_directives_servers [of ce 0 ds nccf0 n0] True assms(4,5) by (auto simp: ngx_nats_core_create_conf_def)
        then obtain s ss where "nccf_servers n0 = Some (s # ss)" using True by (metis not_Some_eq neq_Nil_conv)
        then have acc: "b \<Longrightarrow> accepted n1" using init_conf_accepted assms(6) by auto
        have e: "\<exists>m \<in> set ms. owns i m" using i(1,4) by (meson nth_mem)
        have "init_result i b n1 ms (init_confs ms ?ctx)"
          by (rule init_confs_slot [OF _ _ nm(7) assms(6) sl]) (use nm(5,6) ctx(2) e in simp_all)
        then obtain ok' ctx' where r: "init_confs ms ?ctx = Some (ok', ctx')"
          "ok' \<Longrightarrow> core_slot i n1 ctx' \<and> b" "b \<Longrightarrow> \<forall>m \<in> set ms. mod_nats m \<and> \<not> owns i m \<longrightarrow> hooks_succeed m \<Longrightarrow> ok'"
          using e by (auto simp: init_result_def post_def)
        have all: "\<forall>m \<in> set ms. mod_nats m \<and> \<not> owns i m \<longrightarrow> hooks_succeed m"
          if "\<forall>j < length mods. j \<noteq> core \<longrightarrow> hooks_succeed (mods ! j)"
          by (rule numbered_modules(7) [OF assms(1,2) that hooks_succeed_same c assms(7)])
        have "ngx_nats_block ok1 ok2 (parse_block ce ds i) core mods ms0 = Some (ok', ms0\<lparr>ms_present := True, ms_ctx := ctx'\<rparr>)"
          using c n ok ctx(1) p i r(1) True by (auto simp: ngx_nats_block_def Let_def)
        moreover have "ok' \<longrightarrow> ngx_nats_get_core_conf ctx' i = Some n1 \<and> accepted n1 \<and> b"
          using r(2) acc by (simp add: core_slot_def ngx_nats_get_core_conf_def)
        moreover have "b \<and> (\<forall>j < length mods. j \<noteq> core \<longrightarrow> hooks_succeed (mods ! j)) \<longrightarrow> ok'"
          using r(3) all by iprover
        ultimately show ?thesis using ok ctx(3,4) True by (intro exI [of _ ok'] exI [of _ ctx']) simp
      qed
    qed
  qed
qed

section \<open>The local address\<close>

text \<open>The interfaces of a family that are not loopback and whose address has a printed form, in order.\<close>

definition candidates :: "(bytes \<Rightarrow> bytes option) \<Rightarrow> family \<Rightarrow> ifaddrs list \<Rightarrow> (bytes \<times> bytes) list" where
  "candidates name fam ifas =
     concat (map (\<lambda>ifa. case ifa_addr ifa of
         Some (f, sa) \<Rightarrow> if f = fam \<and> \<not> ifa_loopback ifa then (case name sa of Some h \<Rightarrow> [(sa, h)] | None \<Rightarrow> []) else []
       | None \<Rightarrow> []) ifas)"

lemma candidates_Cons:
  "candidates name fam (ifa # ifas) = (case ifa_addr ifa of
       Some (f, sa) \<Rightarrow> if f = fam \<and> \<not> ifa_loopback ifa then (case name sa of Some h \<Rightarrow> [(sa, h)] | None \<Rightarrow> []) else []
     | None \<Rightarrow> []) @ candidates name fam ifas"
  by (simp add: candidates_def)

definition head :: "'a list \<Rightarrow> 'a option" where
  "head xs = (case xs of [] \<Rightarrow> None | x # _ \<Rightarrow> Some x)"

definition orelse :: "'a option \<Rightarrow> 'a option \<Rightarrow> 'a option" where
  "orelse a b = (case a of None \<Rightarrow> b | Some x \<Rightarrow> Some x)"

lemma local_ip_loop_first:
  "local_ip_loop name ifas (ip4, ip6)
     = (orelse ip4 (head (candidates name AF_INET ifas)), orelse ip6 (head (candidates name AF_INET6 ifas)))"
proof (induction ifas arbitrary: ip4 ip6)
  case Nil
  then show ?case by (simp add: candidates_def head_def orelse_def split: option.splits)
next
  case (Cons ifa ifas)
  show ?case
  proof (cases "ifa_addr ifa")
    case None
    with Cons.IH show ?thesis by (simp add: candidates_def)
  next
    case (Some a)
    obtain f sa where a: "a = (f, sa)" by fastforce
    show ?thesis
      using Some a Cons.IH
      by (cases f; cases "ifa_loopback ifa"; cases "name sa"; cases ip4; cases ip6) (simp_all add: candidates_Cons orelse_def head_def)
  qed
qed

text \<open>Addresses as large as the structure of their family.\<close>

definition sockaddrs_ok :: "ifaddrs list \<Rightarrow> bool" where
  "sockaddrs_ok ifas \<longleftrightarrow> (\<forall>ifa \<in> set ifas. \<forall>sa. (ifa_addr ifa = Some (AF_INET, sa) \<longrightarrow> 16 \<le> length sa)
     \<and> (ifa_addr ifa = Some (AF_INET6, sa) \<longrightarrow> 28 \<le> length sa))"

definition local_ip_spec :: "(bytes \<Rightarrow> bytes option) \<Rightarrow> ifaddrs list \<Rightarrow> ngx_addr option" where
  "local_ip_spec name ifas =
     (case candidates name AF_INET ifas of
        (sa, h) # _ \<Rightarrow> Some \<lparr>na_sockaddr = take 16 sa, na_name = h\<rparr>
      | [] \<Rightarrow>
        (case candidates name AF_INET6 ifas of
           (sa, h) # _ \<Rightarrow> Some \<lparr>na_sockaddr = take 28 sa, na_name = h\<rparr>
         | [] \<Rightarrow> None))"

lemma candidates_from:
  "candidates name fam ifas = (sa, h) # r \<Longrightarrow> Some (fam, sa) \<in> ifa_addr ` set ifas"
proof (induction ifas)
  case (Cons ifa ifas)
  then consider "candidates name fam ifas = (sa, h) # r" | "Some (fam, sa) = ifa_addr ifa"
    by (auto simp: candidates_Cons split: option.splits if_splits)
  then show ?case using Cons.IH by cases simp_all
qed (simp add: candidates_def)

lemma candidates_size:
  assumes "sockaddrs_ok ifas" and "candidates name fam ifas = (sa, h) # r"
  shows "fam = AF_INET \<Longrightarrow> 16 \<le> length sa" and "fam = AF_INET6 \<Longrightarrow> 28 \<le> length sa"
proof -
  obtain ifa where "ifa \<in> set ifas" "ifa_addr ifa = Some (fam, sa)"
    using candidates_from [OF assms(2)] by (metis imageE)
  with assms(1) show "fam = AF_INET \<Longrightarrow> 16 \<le> length sa" "fam = AF_INET6 \<Longrightarrow> 28 \<le> length sa"
    by (simp_all add: sockaddrs_ok_def)
qed

lemma init_local_ip:
  assumes "sockaddrs_ok ifas"
  shows "ngx_nats_init_local_ip name al (Some ifas) old
    = Some (if al 0 \<and> al 1 \<and> al 2 then local_ip_spec name ifas else None)"
proof -
  obtain c4 c6 where c: "candidates name AF_INET ifas = c4" "candidates name AF_INET6 ifas = c6" by simp
  have s4: "c4 = (sa, h) # r \<Longrightarrow> 16 \<le> length sa" for sa h r using candidates_size(1) [OF assms] c(1) by blast
  have s6: "c6 = (sa, h) # r \<Longrightarrow> 28 \<le> length sa" for sa h r using candidates_size(2) [OF assms] c(2) by blast
  show ?thesis
  proof (cases c4)
    case (Cons a r)
    with c s4 show ?thesis
      by (cases a) (simp add: ngx_nats_init_local_ip_def local_ip_spec_def local_ip_loop_first orelse_def head_def mem_get_def)
  next
    case Nil
    with c s6 show ?thesis
      by (cases c6) (auto simp: ngx_nats_init_local_ip_def local_ip_spec_def local_ip_loop_first orelse_def head_def mem_get_def)
  qed
qed

section \<open>The properties\<close>

text \<open>
  The core configuration that the directives have set to \<open>n\<close>, completed: an interval that is not set
  is 1000 milliseconds for the reconnects and 20000 for the PINGs, a user that is not set
  \<open>continuum.router\<close>, a password that is not set empty. The configuration is refused when user and password
  together are longer than 512 bytes.
\<close>

definition conf_user :: "ngx_nats_core_conf \<Rightarrow> bytes" where
  "conf_user n = (case nccf_user n of None \<Rightarrow> ''continuum.router'' | Some u \<Rightarrow> u)"

definition conf_password :: "ngx_nats_core_conf \<Rightarrow> bytes" where
  "conf_password n = (case nccf_password n of None \<Rightarrow> [] | Some p \<Rightarrow> p)"

definition completed :: "ngx_nats_core_conf \<Rightarrow> ngx_nats_core_conf" where
  "completed n = \<lparr>nccf_servers = nccf_servers n,
     nccf_reconnect = (if nccf_reconnect n = - 1 then 1000 else nccf_reconnect n),
     nccf_ping = (if nccf_ping n = - 1 then 20000 else nccf_ping n),
     nccf_user = Some (conf_user n), nccf_password = Some (conf_password n)\<rparr>"

lemma init_conf_completed:
  "ngx_nats_core_init_conf n = (length (conf_user n) + length (conf_password n) \<le> 512, completed n)"
  by (auto simp: ngx_nats_core_init_conf_def Let_def completed_def conf_user_def conf_password_def init_msec_def
      ngx_nats_conf_init_str_def NGX_NATS_DEFAULT_RECONNECT_def NGX_NATS_DEFAULT_PING_def NGX_NATS_DEFAULT_USER_def
      NGX_NATS_MAS_USER_PASS_LEN_def split: option.splits)

text \<open>
  C17: the \<open>nats{...}\<close> block accepts exactly the usable configurations. Wherever the core module stands in
  the list of modules and whatever other NATS modules there are (their hooks return), the block
  stays inside its array of configurations. It succeeds only if every allocation and every directive did,
  a server is named, and user and password, with their defaults, have together at most 512 bytes;
  then the core configuration is what the directives set, with the defaults above for the rest.
  And it succeeds then when the hooks of the other modules do.
\<close>

theorem block_accepts:
  assumes "core < length mods" and "mods ! core = ngx_nats_core_module ok3 ok4"
    and "\<forall>j < length mods. j \<noteq> core \<longrightarrow> hooks_return (mods ! j)"
    and "ngx_nats_core_create_conf True True = Some nccf0"
    and "run_directives ce 0 ds nccf0 = (d, n0)"
    and "i = length (filter mod_nats (take core mods))"
    and "usable \<longleftrightarrow> ok1 \<and> ok2 \<and> ok3 \<and> ok4 \<and> d \<and> nccf_servers n0 \<noteq> None
      \<and> length (conf_user n0) + length (conf_password n0) \<le> 512"
  shows "\<exists>ok ctx. ngx_nats_block ok1 ok2 (parse_block ce ds i) core mods ms0 = Some (ok, ms0\<lparr>ms_present := True, ms_ctx := ctx\<rparr>)
    \<and> (ok \<longrightarrow> usable \<and> ngx_nats_get_core_conf ctx i = Some (completed n0) \<and> (\<exists>s ss. nccf_servers n0 = Some (s # ss)))
    \<and> (usable \<and> (\<forall>j < length mods. j \<noteq> core \<longrightarrow> hooks_succeed (mods ! j)) \<longrightarrow> ok)"
proof -
  obtain ok ctx where r: "ngx_nats_block ok1 ok2 (parse_block ce ds i) core mods ms0 = Some (ok, ms0\<lparr>ms_present := True, ms_ctx := ctx\<rparr>)"
    and a: "ok \<longrightarrow> ngx_nats_get_core_conf ctx i = Some (completed n0) \<and> accepted (completed n0)"
    and u: "ok \<longrightarrow> ok1 \<and> ok2 \<and> ok3 \<and> ok4 \<and> d \<and> nccf_servers n0 \<noteq> None \<and> length (conf_user n0) + length (conf_password n0) \<le> 512"
    and h: "ok1 \<and> ok2 \<and> ok3 \<and> ok4 \<and> d \<and> nccf_servers n0 \<noteq> None \<and> length (conf_user n0) + length (conf_password n0) \<le> 512
      \<and> (\<forall>j < length mods. j \<noteq> core \<longrightarrow> hooks_succeed (mods ! j)) \<longrightarrow> ok"
    using block_result [OF assms(1-5) init_conf_completed assms(6), of ok1 ok2 ms0] by (elim exE conjE) (rule that)
  have "\<exists>s ss. nccf_servers n0 = Some (s # ss)" if "accepted (completed n0)"
    using that by (simp add: accepted_def completed_def)
  then have "ok \<longrightarrow> usable \<and> ngx_nats_get_core_conf ctx i = Some (completed n0) \<and> (\<exists>s ss. nccf_servers n0 = Some (s # ss))"
    using a u unfolding assms(7) by simp
  moreover have "usable \<and> (\<forall>j < length mods. j \<noteq> core \<longrightarrow> hooks_succeed (mods ! j)) \<longrightarrow> ok"
    using h unfolding assms(7) by simp
  ultimately show ?thesis using r by (intro exI [of _ ok] exI [of _ ctx] conjI)
qed

definition conf_try :: conf_env where
  "conf_try = \<lparr>c_alloc = \<lambda>t. True, c_parse_url = \<lambda>u p. Some [nat p], c_set_msec = \<lambda>old v. Some (int (length v)),
     c_set_str = \<lambda>old v. (case old of None \<Rightarrow> Some v | Some u \<Rightarrow> None)\<rparr>"

definition other_module :: ngx_module where
  "other_module = \<lparr>mod_nats = True, mod_index = 9, mod_create = Some (Some (OtherConf 5)), mod_init = Some (\<lambda>c. Some (True, c))\<rparr>"

definition module_zero :: nats_module where
  "module_zero = \<lparr>ms_present = False, ms_ctx = [], ms_data = None, ms_local_ip = None, ms_rand = rand_start\<rparr>"

lemma block_try:
  "\<exists>ctx. ngx_nats_block True True (parse_block conf_try [Server ''nats'', User ''u''] 1) 1
      [other_module, ngx_nats_core_module True True] module_zero = Some (True, module_zero\<lparr>ms_present := True, ms_ctx := ctx\<rparr>)"
  by (simp add: ngx_nats_block_def Let_def other_module_def ngx_nats_core_module_def ngx_nats_core_create_conf_def parse_block_def
      ngx_nats_get_core_conf_def conf_try_def ngx_nats_core_server_def set_slot_def core_init_def ngx_nats_core_init_conf_def
      init_msec_def ngx_nats_conf_init_str_def NGX_NATS_DEFAULT_RECONNECT_def NGX_NATS_DEFAULT_PING_def NGX_NATS_MAS_USER_PASS_LEN_def)
    (rule exI, rule refl)

theorem block_accepts_witness:
  "\<exists>ctx n1. ngx_nats_block True True (parse_block conf_try [Server ''nats'', User ''u''] 1) 1
      [other_module, ngx_nats_core_module True True] module_zero = Some (True, module_zero\<lparr>ms_present := True, ms_ctx := ctx\<rparr>)
    \<and> ngx_nats_get_core_conf ctx 1 = Some n1 \<and> nccf_ping n1 = 20000 \<and> nccf_reconnect n1 = 1000 \<and> nccf_user n1 = Some ''u''"
proof -
  let ?mods = "[other_module, ngx_nats_core_module True True]"
  obtain nccf0 where c: "ngx_nats_core_create_conf True True = Some nccf0" by (simp add: ngx_nats_core_create_conf_def)
  obtain d n0 where r: "run_directives conf_try 0 [Server ''nats'', User ''u''] nccf0 = (d, n0)" by fastforce
  have "n0 = \<lparr>nccf_servers = Some [\<lparr>ns_url = ''nats'', ns_addrs = [4222]\<rparr>], nccf_reconnect = - 1, nccf_ping = - 1,
      nccf_user = Some ''u'', nccf_password = None\<rparr>"
    using r c by (auto simp: ngx_nats_core_create_conf_def conf_try_def ngx_nats_core_server_def set_slot_def NGX_NATS_DEFAULT_PORT_def)
  then have p: "nccf_ping (completed n0) = 20000" "nccf_reconnect (completed n0) = 1000" "nccf_user (completed n0) = Some ''u''"
    by (simp_all add: completed_def conf_user_def)
  have m: "1 < length ?mods" "?mods ! 1 = ngx_nats_core_module True True"
    "\<forall>j < length ?mods. j \<noteq> 1 \<longrightarrow> hooks_return (?mods ! j)" "1 = length (filter mod_nats (take 1 ?mods))"
    by (auto simp: less_Suc_eq hooks_return_def other_module_def)
  obtain ctx where "ngx_nats_block True True (parse_block conf_try [Server ''nats'', User ''u''] 1) 1 ?mods module_zero
      = Some (True, module_zero\<lparr>ms_present := True, ms_ctx := ctx\<rparr>)" using block_try by blast
  with block_accepts [OF m(1-3) c r m(4) refl, of True True module_zero] p show ?thesis by auto
qed

text \<open>
  C25: the local address is the one of the first interface that is not the loopback and whose address can be
  printed, IPv4 before IPv6, whatever the address known before; there is none when no interface
  qualifies or an allocation fails. The address is copied with the size of its family.
\<close>

theorem local_ip_choice:
  assumes "sockaddrs_ok ifas"
  shows "ngx_nats_init_local_ip name al (Some ifas) old
    = Some (if al 0 \<and> al 1 \<and> al 2 then local_ip_spec name ifas else None)"
  by (rule init_local_ip [OF assms])

theorem local_ip_choice_witness:
  "\<exists>lo v6 v4. ngx_nats_init_local_ip (\<lambda>sa. Some [hd sa]) (\<lambda>t. True) (Some [lo, v6, v4]) None
     = Some (Some \<lparr>na_sockaddr = replicate 16 CHR ''c'', na_name = ''c''\<rparr>) \<and> ifa_addr v6 \<noteq> None"
proof -
  define lo where "lo = \<lparr>ifa_addr = Some (AF_INET, replicate 16 CHR ''a''), ifa_loopback = True\<rparr>"
  define v6 where "v6 = \<lparr>ifa_addr = Some (AF_INET6, replicate 28 CHR ''b''), ifa_loopback = False\<rparr>"
  define v4 where "v4 = \<lparr>ifa_addr = Some (AF_INET, replicate 16 CHR ''c''), ifa_loopback = False\<rparr>"
  have "sockaddrs_ok [lo, v6, v4]" by (simp add: sockaddrs_ok_def lo_def v6_def v4_def)
  moreover have "local_ip_spec (\<lambda>sa. Some [hd sa]) [lo, v6, v4] = Some \<lparr>na_sockaddr = replicate 16 CHR ''c'', na_name = ''c''\<rparr>"
    by (simp add: local_ip_spec_def candidates_Cons lo_def v6_def v4_def)
  ultimately have "ngx_nats_init_local_ip (\<lambda>sa. Some [hd sa]) (\<lambda>t. True) (Some [lo, v6, v4]) None
      = Some (Some \<lparr>na_sockaddr = replicate 16 CHR ''c'', na_name = ''c''\<rparr>)"
    using local_ip_choice [of "[lo, v6, v4]" "\<lambda>sa. Some [hd sa]" "\<lambda>t. True" None] by simp
  moreover have "ifa_addr v6 \<noteq> None" by (simp add: v6_def)
  ultimately show ?thesis by (intro exI conjI)
qed

definition sys_try :: sys where
  "sys_try = \<lparr>s_alloc = \<lambda>t. True, s_ifaddrs = None, s_name = \<lambda>sa. None, s_scale = \<lambda>r n. n, s_z = 1, s_w = 2, s_r = 3\<rparr>"

text \<open>The environment of a worker with an accepted configuration.\<close>

lemma configured_ok:
  assumes "accepted nccf" and "env_ok e" and "\<forall>t. e_alloc e t"
  shows "env_ok (configured nccf e)" and "\<forall>t. e_alloc (configured nccf e) t"
  using assms by (auto simp: accepted_def env_ok_def configured_def)

lemma init_module_ok:
  assumes "ms_present ms" and "ngx_nats_get_core_conf (ms_ctx ms) i = Some nccf" and "\<forall>t. s_alloc sys t"
    and "\<forall>ifas. s_ifaddrs sys = Some ifas \<longrightarrow> sockaddrs_ok ifas"
  shows "\<exists>ip. ngx_nats_core_init_module sys i ms
    = Some (NGX_OK, ms\<lparr>ms_data := Some (nats_data_init (buf_new 4096) (buf_new 4096)), ms_local_ip := ip\<rparr>)"
proof -
  obtain ip where "ngx_nats_init_local_ip (s_name sys) (\<lambda>i. s_alloc sys (8 + i)) (s_ifaddrs sys) (ms_local_ip ms) = Some ip"
  proof (cases "s_ifaddrs sys")
    case None
    with that show thesis by (simp add: ngx_nats_init_local_ip_def)
  next
    case (Some ifas)
    with init_local_ip [of ifas] assms(4) that show thesis by simp
  qed
  with assms(1-3) show ?thesis
    by (intro exI [of _ ip]) (simp add: ngx_nats_core_init_module_def ngx_nats_buf_create_def buf_new_def Let_def)
qed

lemma init_process_ok:
  assumes "ms_present ms" and "ms_data ms = Some nd" and "ngx_nats_init cb e nd = Some (NGX_OK, w)"
  shows "\<exists>r. ngx_nats_core_init_process cb e sys test ms = Some (NGX_OK, ms\<lparr>ms_data := Some w, ms_rand := r\<rparr>)"
proof -
  define r0 where "r0 = ngx_nats_init_random (s_scale sys) (s_z sys) (s_w sys) (s_r sys) (ms_rand ms)"
  obtain r where "(case test of None \<Rightarrow> Some r0 | Some fp \<Rightarrow> do { (printed, r) \<leftarrow> ngx_nats_test_random fp r0; Some r }) = Some r"
  proof (cases test)
    case (Some fp)
    obtain x where "ngx_nats_test_random fp r0 = Some x" using test_random_returns [of fp r0] by auto
    with Some that show thesis by (cases x) simp
  qed simp
  with assms show ?thesis
    by (intro exI [of _ r]) (simp add: ngx_nats_core_init_process_def flip: r0_def)
qed

text \<open>
  C12: a worker started from an accepted configuration connects or will try again. When the block was
  accepted, no allocation fails (of the hooks and of the connection), the environment behaves as
  documented, the hooks of the other modules return and the interface addresses have the size of
  their family, \<open>ngx_nats_core_init_module\<close> prepares the module's data, and
  \<open>ngx_nats_core_init_process\<close> with the servers, the user and the password of the configuration
  returns \<open>NGX_OK\<close>; the module's state is one of the reachable states of a worker, with a connection
  or the reconnect timer. When an allocation for the connection fails, the worker can be left with
  neither (\<open>connect_gives_up\<close>).
\<close>

theorem worker_starts:
  assumes "core < length mods" and "mods ! core = ngx_nats_core_module ok3 ok4"
    and "\<forall>j < length mods. j \<noteq> core \<longrightarrow> hooks_return (mods ! j)"
    and "i = length (filter mod_nats (take core mods))"
    and "ngx_nats_block ok1 ok2 (parse_block ce ds i) core mods ms0 = Some (True, ms)"
    and "\<forall>t. s_alloc sys t" and "\<forall>ifas. s_ifaddrs sys = Some ifas \<longrightarrow> sockaddrs_ok ifas"
    and "env_ok e" and "\<forall>t. e_alloc e t"
  shows "\<exists>ms1 nccf ms2 w. ngx_nats_core_init_module sys i ms = Some (NGX_OK, ms1)
    \<and> ngx_nats_get_core_conf (ms_ctx ms) i = Some nccf \<and> accepted nccf
    \<and> ngx_nats_core_init_process (client_cb prog (configured nccf e) k) (configured nccf e) sys test ms1 = Some (NGX_OK, ms2)
    \<and> ms_data ms2 = Some w \<and> reachable (client_cb prog (configured nccf e) k) (configured nccf e) w
    \<and> (w_live w \<and> nc_fd (w_conn w) \<or> w_rec_timer w)"
proof -
  obtain nccf0 where c: "ngx_nats_core_create_conf True True = Some nccf0" by (simp add: ngx_nats_core_create_conf_def)
  obtain d n0 where r: "run_directives ce 0 ds nccf0 = (d, n0)" by fastforce
  obtain b nccf where n: "ngx_nats_core_init_conf n0 = (b, nccf)" by fastforce
  have ms: "ms_present ms" "ngx_nats_get_core_conf (ms_ctx ms) i = Some nccf" "accepted nccf"
    using block_result [OF assms(1-3) c r n assms(4), of ok1 ok2 ms0] assms(5) by auto
  let ?e = "configured nccf e" and ?cb = "client_cb prog (configured nccf e) k" and ?w = "nats_data_init (buf_new 4096) (buf_new 4096)"
  note e = configured_ok [OF ms(3) assms(8,9)]
  obtain ip where m: "ngx_nats_core_init_module sys i ms = Some (NGX_OK, ms\<lparr>ms_data := Some ?w, ms_local_ip := ip\<rparr>)"
    using init_module_ok [OF ms(1,2) assms(6,7)] by blast
  have "world_ok ?e ?w" by (rule init_world_ok) simp_all
  then have "world_ok ?e (?w\<lparr>w_global := True\<rparr>)" by (simp add: world_ok_def)
  from connect_ok [OF e this, of ?cb] obtain w where w: "ngx_nats_init ?cb ?e ?w = Some (NGX_OK, w)"
    by (auto simp: post_def ngx_nats_init_def)
  then have re: "reachable ?cb ?e w" by (rule reachable.start)
  have live: "w_live w \<and> nc_fd (w_conn w) \<or> w_rec_timer w"
    using nested.reachable_good [OF e re] by (simp add: good_def settled_def connected_def)
  let ?ms = "ms\<lparr>ms_data := Some ?w, ms_local_ip := ip\<rparr>"
  obtain r where "ngx_nats_core_init_process ?cb ?e sys test ?ms = Some (NGX_OK, ?ms\<lparr>ms_data := Some w, ms_rand := r\<rparr>)"
    using init_process_ok [of ?ms ?w ?cb ?e w sys test] w ms(1) by auto
  with m ms re live show ?thesis
    by (intro exI [of _ ?ms] exI [of _ nccf] exI [of _ "?ms\<lparr>ms_data := Some w, ms_rand := r\<rparr>"] exI [of _ w]) simp
qed

theorem worker_starts_witness:
  "\<exists>ms ms1 e ms2 w. ngx_nats_block True True (parse_block conf_try [Server ''nats'', User ''u''] 1) 1
      [other_module, ngx_nats_core_module True True] module_zero = Some (True, ms)
    \<and> ngx_nats_core_init_module sys_try 1 ms = Some (NGX_OK, ms1)
    \<and> ngx_nats_core_init_process (client_cb (\<lambda>c w. []) e 2) e sys_try (None :: bool fp option) ms1 = Some (NGX_OK, ms2) \<and> ms_data ms2 = Some w
    \<and> (w_live w \<and> nc_fd (w_conn w) \<or> w_rec_timer w)"
proof -
  let ?mods = "[other_module, ngx_nats_core_module True True]"
  have m: "1 < length ?mods" "?mods ! 1 = ngx_nats_core_module True True"
    "\<forall>j < length ?mods. j \<noteq> 1 \<longrightarrow> hooks_return (?mods ! j)" "1 = length (filter mod_nats (take 1 ?mods))"
    by (auto simp: less_Suc_eq hooks_return_def other_module_def)
  obtain ms where b: "ngx_nats_block True True (parse_block conf_try [Server ''nats'', User ''u''] 1) 1 ?mods module_zero = Some (True, ms)"
    using block_try by blast
  have e: "env_ok (try_env 2 NGX_OK)" "\<forall>t. e_alloc (try_env 2 NGX_OK) t" by (rule try_env_ok) (simp_all add: try_env_def)
  have s: "\<forall>t. s_alloc sys_try t" "\<forall>ifas. s_ifaddrs sys_try = Some ifas \<longrightarrow> sockaddrs_ok ifas" by (simp_all add: sys_try_def)
  obtain ms1 nccf ms2 w where r: "ngx_nats_core_init_module sys_try 1 ms = Some (NGX_OK, ms1)"
    "ngx_nats_core_init_process (client_cb (\<lambda>c w. []) (configured nccf (try_env 2 NGX_OK)) 2) (configured nccf (try_env 2 NGX_OK)) sys_try (None :: bool fp option) ms1
       = Some (NGX_OK, ms2)" "ms_data ms2 = Some w" "w_live w \<and> nc_fd (w_conn w) \<or> w_rec_timer w"
    using worker_starts [where prog = "\<lambda>c w. []" and k = 2 and test = "None :: bool fp option", OF m b s e] by (elim exE conjE) (rule that)
  show ?thesis by (intro exI conjI) (fact b r)+
qed

end
