(* ===== verification/Spec2Isabelle.thy ===== *)
theory Spec2Isabelle
  imports Nats_Protocol_Roundtrip Nats_Json_Roundtrip Nats_Random Nats_Subs Nats_Buf_Inv Nats_System Nats_Close
    Nats_Read_Faults Nats_Reads Nats_Info Nats_Conf_Props
begin

text \<open>
  nginx-nats: the NATS client module for nginx.

  The program. A worker of nginx keeps one connection to a NATS server. Other modules in the worker (the
  clients) register themselves, publish, subscribe to subjects and are called back with the messages
  of their subscriptions and when the connection comes and goes. The module parses its own
  configuration block, connects to the listed servers in turn, authenticates with CONNECT, parses what
  the server sends (INFO as JSON, MSG, PING, PONG, +OK, -ERR), and reconnects after a disconnection or
  on a timer. All files are under \<open>src/src/\<close>.

  Conventions. Bytes are characters, memory is a list of cells, and a function whose result is \<open>None\<close>
  has used memory it must not use (outside of it, uninitialised, \<open>NULL\<close>) or has not returned. Sizes are
  \<open>nat\<close> below \<open>2 ^ 64\<close> with the wrap-around of \<open>size_t\<close> written out (\<open>usub\<close>, \<open>u64\<close>, \<open>s64\<close>), the random
  numbers are \<open>32 word\<close>. What nginx and the system do is a parameter: allocation, \<open>ngx_snprintf\<close>,
  \<open>ngx_strcasecmp\<close>, the results of \<open>connect\<close>, \<open>send\<close>, \<open>recv\<close> and of registering events are fields of
  \<open>env\<close>, asked in the order in which the code asks (the counter \<open>w_tick\<close>). \<open>env_ok\<close>, \<open>sends_ok\<close>,
  \<open>snprintf_ok\<close> and \<open>casecmp_ok\<close> are what their documentation promises.

  The model, by source file.

  \<^item> \<open>ngx_nats_comm.c\<close>, buffers: \<open>Nats_Buf\<close> (\<open>ngx_nats_buf_create\<close> .. \<open>_ensure\<close>, \<open>ngx_nats_add_message\<close>,
    the consuming half of \<open>ngx_nats_flush\<close>), \<open>Nats_Buf_Inv\<close>.
  \<^item> \<open>ngx_nats_protocol.c\<close>: \<open>Nats_Protocol\<close>, every function; \<open>Nats_Protocol_Safe\<close>, \<open>_Stream\<close>, \<open>_Roundtrip\<close>.
  \<^item> \<open>ngx_nats_json.c\<close>: \<open>Nats_Json\<close>, every function, and \<open>ngx_nats_json_debug_print\<close> in \<open>Nats_Print\<close>;
    \<open>Nats_Json_Safe\<close>, \<open>Nats_Json_Roundtrip\<close>. A double is kept as the text that is passed to \<open>strtod\<close>.
  \<^item> \<open>ngx_nats_comm.c\<close>, subscriptions: \<open>Nats_Subs\<close> (\<open>ngx_nats_get\<close>/\<open>_add\<close>/\<open>_remove_subscription\<close> and the counting
    in \<open>ngx_nats_process_msg\<close>).
  \<^item> \<open>ngx_nats_comm.c\<close>, connection: \<open>Nats_Conn\<close>. The record \<open>world\<close> is \<open>ngx_nats_data_t\<close> with its current
    \<open>ngx_nats_connection_t\<close>, the global variable and a log of what was sent, tried and called back; a
    handler is a function from \<open>world\<close> to \<open>world option\<close>. \<open>Nats_Conn_Live\<close>, \<open>Nats_Close\<close>.
  \<^item> \<open>ngx_nats_comm.c\<close>, client functions: \<open>Nats_Client\<close>, \<open>Nats_Publish\<close>; inbox names: \<open>Nats_Random\<close>.
  \<^item> \<open>ngx_nats_comm.c\<close>, read path and event handlers: \<open>Nats_Read\<close>, \<open>Nats_Blind\<close>, \<open>Nats_Serve\<close>,
    \<open>Nats_Serve_Props\<close>, \<open>Nats_Info\<close>, \<open>Nats_Delivery\<close>, \<open>Nats_Reads\<close>, \<open>Nats_Read_Faults\<close>.
  \<^item> \<open>ngx_nats.c\<close>: \<open>Nats_Random\<close> (\<open>ngx_nats_init_random\<close>, \<open>ngx_nats_next_random\<close>), \<open>Nats_Random_Test\<close> (their tests) and \<open>Nats_Conf\<close> (the directives,
    \<open>ngx_nats_block\<close>, the hooks, the search for a local address); \<open>Nats_Conf_Props\<close>.
  \<^item> the whole module as a state machine (\<open>nats_step\<close>, \<open>reachable\<close>): \<open>Nats_System\<close>.
\<close>

text \<open>
  What is proved.

  \<^item> Buffers: a write buffer is a queue of bytes (locale \<open>byte_queue\<close>, interpretation \<open>wbuf\<close>), and the bounds
    of the comment of \<open>ngx_nats_buf_t\<close> are an invariant, wherever no reallocation happens while sent
    bytes lie before \<open>pos\<close>; what happens then is proved too.
  \<^item> Protocol: on every input the parser stays inside it; it returns exactly the fields and payload of a
    MSG; and how the stream is cut into reads does not matter (locale \<open>framed_parser\<close>).
  \<^item> JSON: the parser returns on every text whatever allocations fail and reads back what the printer
    writes; strings and integers have exact specifications.
  \<^item> Subscriptions: the table is a map from sids, with exact counting of the deliveries.
  \<^item> Connecting: it terminates, tries the servers in the listed order and ends with a connection or with
    the timer set; closing tells each client once.
  \<^item> Reading: the loop over the read buffer, which parses, overwrites and advances the buffer in place
    and calls clients back from its middle, refines an abstract server of decoded messages
    (\<open>drain\<close>, \<open>effect\<close>, \<open>serve\<close>), for all clients that do not touch the buffer (locale \<open>blind_callbacks\<close>,
    interpretations \<open>history\<close> and \<open>silent\<close>): messages reach their handlers unchanged and the handshake
    completes. Over all the reads of an event (\<open>reads\<close>, \<open>served\<close>) this holds for the whole stream,
    however the reads cut it.
  \<^item> Configuration: the block accepts exactly the usable configurations, and a worker started from one
    is connected or will retry.
  \<^item> The module: in every reachable state the buffers, the table and the list of servers are well formed,
    and the module has a connection or a timer (locale \<open>client_callbacks\<close>, interpretation \<open>nested\<close>).

  The properties of kind error show inputs on which the code does not do what it means to.

  Bounds and fuel. \<open>ngx_nats_connect\<close> recurses through sending and closing; \<open>n + 1\<close> passes for \<open>n\<close> servers
  are enough (\<open>connect_terminates\<close>). Clients that call the module from a callback are modelled up to any
  nesting depth \<open>k\<close> (\<open>client_cb\<close>); no depth is enough for a client that publishes when it is told of a
  disconnection (\<open>disconnected_publish_recurses\<close>). The fuel of the JSON parser is \<open>2 * length + 2\<close>, enough by
  \<open>json_parse_safe\<close>. Loops that may not end (\<open>buf_grow\<close>, \<open>ngx_nats_process_buffer\<close>, \<open>read_loop\<close>) are partial
  functions. \<open>parse_safe\<close> and what rests on it need length fields of at most 18 digits; longer ones wrap
  around (\<open>parse_length_overflow\<close>). The table of subscriptions is well formed for fewer than \<open>2 ^ 63\<close> subscriptions
  and steps.

  Not modelled. The text that the tests of the random numbers print, and the clock that they read.
  Logging has no effect on the state, except where its arguments use memory (the version in
  \<open>ngx_nats_connection_ready\<close>), which is modelled. The parser of nginx's configuration, its event loop, pools and \<open>ngx_snprintf\<close> are nginx's. \<open>ngx_nats_get_peer\<close>
  and \<open>ngx_nats_free_peer\<close> only return constants to nginx's connector. \<open>ngx_nats_seed_random\<close> is commented out. The
  build file \<open>config\<close> is a shell fragment.
\<close>

end
